(* ===== verification/JsPrelude.thy ===== *)
theory JsPrelude
  imports Main "HOL-Library.Multiset" "HOL-Library.Char_ord" "HOL-Library.List_Lexorder"
begin

text \<open>
  The JavaScript base of the development: strings, numbers printed in decimal, own-property
  objects, and the interface of a component that reacts to events.

  A JavaScript string is a sequence of code units; here it is a \<open>string\<close>, so the model
  speaks of strings whose code units are below 256 (Latin-1), on which every library function
  below is exact unless its text says otherwise.  The one component whose data lie outside
  that range (the slug transliteration) has its own type of code units.
\<close>

named_theorems js_defs "definitions of the string and object functions, for evaluation"

subsection \<open>Characters\<close>

abbreviation code :: "char \<Rightarrow> nat" where
  "code c \<equiv> of_char c"

definition is_ws :: "char \<Rightarrow> bool" where
  "is_ws c = (code c \<in> {9, 10, 11, 12, 13, 32, 160})"

definition is_digit :: "char \<Rightarrow> bool" where
  "is_digit c = (48 \<le> code c \<and> code c \<le> 57)"

definition is_upper :: "char \<Rightarrow> bool" where
  "is_upper c = (65 \<le> code c \<and> code c \<le> 90)"

definition is_lower :: "char \<Rightarrow> bool" where
  "is_lower c = (97 \<le> code c \<and> code c \<le> 122)"

definition is_alpha :: "char \<Rightarrow> bool" where
  "is_alpha c = (is_upper c \<or> is_lower c)"

definition lower_char :: "char \<Rightarrow> char" where
  "lower_char c =
     (if is_upper c \<or> (192 \<le> code c \<and> code c \<le> 222 \<and> code c \<noteq> 215)
      then char_of (code c + 32) else c)"

definition toLowerCase :: "string \<Rightarrow> string" where
  "toLowerCase s = map lower_char s"

text \<open>
  \<open>toUpperCase\<close>: the sharp s becomes two letters; the two Latin-1 letters whose upper case
  lies outside Latin-1 (code units 181 and 255) are left alone, the only inexact case.
\<close>

definition upper_char :: "char \<Rightarrow> string" where
  "upper_char c =
     (if is_lower c \<or> (224 \<le> code c \<and> code c \<le> 254 \<and> code c \<noteq> 247)
      then [char_of (code c - 32)]
      else if code c = 223 then ''SS'' else [c])"

definition toUpperCase :: "string \<Rightarrow> string" where
  "toUpperCase s = concat (map upper_char s)"

lemmas char_class_defs = is_ws_def is_digit_def is_upper_def is_lower_def is_alpha_def

declare char_class_defs [js_defs] lower_char_def [js_defs] toLowerCase_def [js_defs]
  upper_char_def [js_defs] toUpperCase_def [js_defs]

lemma lower_char_digit [simp]: "is_digit c \<Longrightarrow> lower_char c = c"
  by (auto simp: lower_char_def char_class_defs)

lemma code_lower_upper: "is_upper c \<Longrightarrow> code (lower_char c) = code c + 32"
  by (simp add: lower_char_def is_upper_def)

lemma lower_char_not_upper [simp]: "\<not> is_upper (lower_char c)"
  by (auto simp: lower_char_def is_upper_def)

lemma lower_char_idem [simp]: "lower_char (lower_char c) = lower_char c"
proof (cases "is_upper c \<or> (192 \<le> code c \<and> code c \<le> 222 \<and> code c \<noteq> 215)")
  case True
  then have "code (lower_char c) = code c + 32"
    by (auto simp: lower_char_def is_upper_def)
  with True show ?thesis
    by (auto simp: lower_char_def [of "lower_char c"] is_upper_def)
next
  case False
  then have "lower_char c = c" by (auto simp: lower_char_def)
  then show ?thesis by simp
qed

lemma toLowerCase_simps [simp]:
  "toLowerCase [] = []" "toLowerCase (c # s) = lower_char c # toLowerCase s"
  "toLowerCase (s @ t) = toLowerCase s @ toLowerCase t"
  by (simp_all add: toLowerCase_def)

lemma length_toLowerCase [simp]: "length (toLowerCase s) = length s"
  by (simp add: toLowerCase_def)

lemma toLowerCase_idem [simp]: "toLowerCase (toLowerCase s) = toLowerCase s"
  by (induction s) auto

subsection \<open>Searching and cutting strings\<close>

definition starts_with :: "string \<Rightarrow> string \<Rightarrow> bool" where
  "starts_with s t = (take (length t) s = t)"

primrec str_includes :: "string \<Rightarrow> string \<Rightarrow> bool" where
  "str_includes [] t = (t = [])"
| "str_includes (c # s) t = (starts_with (c # s) t \<or> str_includes s t)"

text \<open>\<open>s.replace(p, r)\<close> for a string \<open>p\<close> and a replacement without \<open>$\<close>.\<close>

fun replace_first :: "string \<Rightarrow> string \<Rightarrow> string \<Rightarrow> string" where
  "replace_first [] p r = (if p = [] then r else [])"
| "replace_first (c # s) p r =
     (if starts_with (c # s) p then r @ drop (length p) (c # s) else c # replace_first s p r)"

text \<open>\<open>substring(i, j)\<close> for \<open>i \<le> j\<close>; both are clamped to the length.\<close>

definition substring :: "string \<Rightarrow> nat \<Rightarrow> nat \<Rightarrow> string" where
  "substring s i j = take (j - i) (drop i s)"

fun split_by :: "(char \<Rightarrow> bool) \<Rightarrow> string \<Rightarrow> string list" where
  "split_by P [] = [[]]"
| "split_by P (c # s) =
     (if P c then [] # split_by P s
      else (case split_by P s of [] \<Rightarrow> [[c]] | p # ps \<Rightarrow> (c # p) # ps))"

abbreviation split_on :: "char \<Rightarrow> string \<Rightarrow> string list" where
  "split_on d \<equiv> split_by (\<lambda>c. c = d)"

text \<open>\<open>s.split(d)\<close> for a nonempty text \<open>d\<close>; the number says how many characters of the last match are still to be
  skipped.\<close>

fun split_text :: "string \<Rightarrow> nat \<Rightarrow> string \<Rightarrow> string list" where
  "split_text d 0 [] = [[]]"
| "split_text d (Suc n) [] = [[]]"
| "split_text d (Suc n) (c # s) = split_text d n s"
| "split_text d 0 (c # s) =
     (if starts_with (c # s) d then [] # split_text d (length d - 1) s
      else (case split_text d 0 s of [] \<Rightarrow> [[c]] | p # ps \<Rightarrow> (c # p) # ps))"

text \<open>\<open>s.split(/\s+/)\<close>: runs of white space separate; a leading or trailing run leaves an
  empty token.\<close>

function split_ws :: "string \<Rightarrow> string list" where
  "split_ws s =
     (let a = takeWhile (\<lambda>c. \<not> is_ws c) s; r = dropWhile (\<lambda>c. \<not> is_ws c) s
      in if r = [] then [a] else a # split_ws (dropWhile is_ws r))"
  by pat_completeness auto
termination
proof (relation "measure length", goal_cases)
  case 1
  show ?case by simp
next
  case (2 s a r)
  then have "r \<noteq> []" and "is_ws (hd r)" and r: "length r \<le> length s"
    using hd_dropWhile [of "\<lambda>c. \<not> is_ws c" s] length_dropWhile_le [of "\<lambda>c. \<not> is_ws c" s]
    by auto
  then have "length (dropWhile is_ws r) < length r"
    by (cases r) (auto simp: le_imp_less_Suc length_dropWhile_le)
  with r show ?case by simp
qed

declare split_ws.simps [simp del, code]

fun join_with :: "string \<Rightarrow> string list \<Rightarrow> string" where
  "join_with d [] = []"
| "join_with d [s] = s"
| "join_with d (s # t # ts) = s @ d @ join_with d (t # ts)"

definition trim :: "string \<Rightarrow> string" where
  "trim s = rev (dropWhile is_ws (rev (dropWhile is_ws s)))"

declare starts_with_def [js_defs] substring_def [js_defs] trim_def [js_defs]

lemma starts_with_iff: "starts_with s t \<longleftrightarrow> (\<exists>u. s = t @ u)"
  by (auto simp: starts_with_def) (metis append_take_drop_id)

lemma starts_with_append [simp]: "starts_with (t @ u) t"
  by (simp add: starts_with_def)

lemma str_includes_iff: "str_includes s t \<longleftrightarrow> (\<exists>a b. s = a @ t @ b)"
proof (induction s)
  case Nil
  then show ?case by auto
next
  case (Cons c s)
  have "(\<exists>a b. c # s = a @ t @ b) \<longleftrightarrow> (\<exists>b. c # s = t @ b) \<or> (\<exists>a b. s = a @ t @ b)"
  proof
    assume "\<exists>a b. c # s = a @ t @ b"
    then obtain a b where ab: "c # s = a @ t @ b" by blast
    then show "(\<exists>b. c # s = t @ b) \<or> (\<exists>a b. s = a @ t @ b)"
      by (cases a) auto
  qed (auto intro: exI [of _ "[]"] exI [of _ "c # _"], metis append_Cons)
  with Cons show ?case by (simp add: starts_with_iff)
qed

lemma str_includes_Nil [simp]: "str_includes s []"
  by (cases s) (auto simp: starts_with_def)

lemma split_by_ne [simp]: "split_by P s \<noteq> []"
  by (induction s) (auto split: list.splits)

lemma split_by_parts: "p \<in> set (split_by P s) \<Longrightarrow> c \<in> set p \<Longrightarrow> \<not> P c"
proof (induction s arbitrary: p)
  case (Cons a s)
  then show ?case
    by (cases "split_by P s") (auto split: if_splits, blast+)
qed simp

lemma split_by_none: "\<forall>c \<in> set s. \<not> P c \<Longrightarrow> split_by P s = [s]"
  by (induction s) auto

lemma split_by_append:
  "\<forall>c \<in> set s. \<not> P c \<Longrightarrow> P d \<Longrightarrow> split_by P (s @ d # t) = s # split_by P t"
  by (induction s) auto

lemma join_with_Cons: "ts \<noteq> [] \<Longrightarrow> join_with d (s # ts) = s @ d @ join_with d ts"
  by (cases ts) auto

lemma split_on_join:
  assumes "\<forall>p \<in> set ps. d \<notin> set p" and "ps \<noteq> []"
  shows "split_on d (join_with [d] ps) = ps"
  using assms
proof (induction "[d]" ps rule: join_with.induct)
  case (2 s)
  then show ?case by (auto intro: split_by_none)
next
  case (3 s t ts)
  then show ?case
    using split_by_append [of s "\<lambda>c. c = d" d "join_with [d] (t # ts)"] by auto
qed auto

lemma join_split_on: "join_with [d] (split_on d s) = s"
proof (induction s)
  case (Cons c s)
  then show ?case
    by (cases "split_on d s") (auto simp: join_with_Cons split: list.splits, cases "tl (split_on d s)",
      auto)
qed simp

subsection \<open>Decimal numbers\<close>

definition digit_char :: "nat \<Rightarrow> char" where
  "digit_char d = char_of (48 + d)"

definition digit_val :: "char \<Rightarrow> nat" where
  "digit_val c = code c - 48"

fun show_nat :: "nat \<Rightarrow> string" where
  "show_nat n =
     (if n < 10 then [digit_char n] else show_nat (n div 10) @ [digit_char (n mod 10)])"

declare show_nat.simps [simp del]

definition show_int :: "int \<Rightarrow> string" where
  "show_int i = (if i < 0 then CHR ''-'' # show_nat (nat (- i)) else show_nat (nat i))"

definition digits_val :: "string \<Rightarrow> nat" where
  "digits_val s = foldl (\<lambda>a c. 10 * a + digit_val c) 0 s"

text \<open>\<open>parseInt(s, 10)\<close>; \<open>None\<close> stands for \<open>NaN\<close>.\<close>

definition parse_int :: "string \<Rightarrow> int option" where
  "parse_int s =
     (let t = dropWhile is_ws s;
          neg = (starts_with t ''-'');
          u = (if starts_with t ''-'' \<or> starts_with t ''+'' then drop 1 t else t);
          ds = takeWhile is_digit u
      in if ds = [] then None
         else Some (if neg then - int (digits_val ds) else int (digits_val ds)))"

lemma digit_char [simp]: "d < 10 \<Longrightarrow> is_digit (digit_char d)"
  "d < 10 \<Longrightarrow> digit_val (digit_char d) = d"
  by (simp_all add: digit_char_def digit_val_def is_digit_def)

lemma digits_val_append1: "digits_val (s @ [c]) = 10 * digits_val s + digit_val c"
  by (simp add: digits_val_def)

lemma show_nat_ne [simp]: "show_nat n \<noteq> []"
  by (subst show_nat.simps) simp

lemma show_nat_digits: "c \<in> set (show_nat n) \<Longrightarrow> is_digit c"
proof (induction n rule: show_nat.induct)
  case (1 n)
  then show ?case by (cases "n < 10") (auto simp: show_nat.simps [of n])
qed

lemma digits_val_show_nat [simp]: "digits_val (show_nat n) = n"
proof (induction n rule: show_nat.induct)
  case (1 n)
  show ?case
  proof (cases "n < 10")
    case True
    then show ?thesis by (simp add: show_nat.simps [of n] digits_val_def)
  next
    case False
    with 1 show ?thesis by (simp add: show_nat.simps [of n] digits_val_append1)
  qed
qed

lemma show_nat_inj [simp]: "show_nat m = show_nat n \<longleftrightarrow> m = n"
  by (metis digits_val_show_nat)

lemma digit_not_ws [simp]: "is_digit c \<Longrightarrow> \<not> is_ws c"
  by (auto simp: char_class_defs)

lemma parse_int_digits:
  assumes "s \<noteq> []" and "\<forall>c \<in> set s. is_digit c"
  shows "parse_int s = Some (int (digits_val s))"
proof -
  obtain c s' where s: "s = c # s'" using assms(1) by (cases s) auto
  with assms(2) have c: "is_digit c" by simp
  then have "c \<noteq> CHR ''-''" "c \<noteq> CHR ''+''" "\<not> is_ws c"
    by (auto simp: is_digit_def is_ws_def)
  moreover have "takeWhile is_digit s = s"
    using assms(2) by (simp add: takeWhile_eq_all_conv)
  ultimately show ?thesis
    by (auto simp: parse_int_def s starts_with_def Let_def)
qed

lemma parse_show_nat [simp]: "parse_int (show_nat n) = Some (int n)"
  by (simp add: parse_int_digits show_nat_digits)

subsection \<open>Objects: own properties in the order they were added\<close>

type_synonym 'v obj = "(string \<times> 'v) list"

primrec obj_set :: "string \<Rightarrow> 'v \<Rightarrow> 'v obj \<Rightarrow> 'v obj" where
  "obj_set k v [] = [(k, v)]"
| "obj_set k v (e # ob) = (if fst e = k then (k, v) # ob else e # obj_set k v ob)"

text \<open>\<open>Object.assign(a, b)\<close> and the spread \<open>{...a, ...b}\<close>.\<close>

definition obj_assign :: "'v obj \<Rightarrow> 'v obj \<Rightarrow> 'v obj" where
  "obj_assign a b = foldl (\<lambda>ob e. obj_set (fst e) (snd e) ob) a b"

definition obj_wf :: "'v obj \<Rightarrow> bool" where
  "obj_wf ob = distinct (map fst ob)"

text \<open>
  The order in which \<open>for \<dots> in\<close>, \<open>Object.keys\<close> and \<open>JSON.stringify\<close> visit the
  properties: array-index keys first, in numeric order, then the others as they were added.
\<close>

definition is_index_key :: "string \<Rightarrow> bool" where
  "is_index_key k =
     (k \<noteq> [] \<and> list_all is_digit k \<and> (k = ''0'' \<or> hd k \<noteq> CHR ''0'')
      \<and> digits_val k < 4294967295)"

definition own_entries :: "'v obj \<Rightarrow> 'v obj" where
  "own_entries ob =
     sort_key (\<lambda>e. digits_val (fst e)) (filter (\<lambda>e. is_index_key (fst e)) ob)
     @ filter (\<lambda>e. \<not> is_index_key (fst e)) ob"

definition own_keys :: "'v obj \<Rightarrow> string list" where
  "own_keys ob = map fst (own_entries ob)"

lemma map_of_obj_set [simp]: "map_of (obj_set k v ob) = (map_of ob)(k \<mapsto> v)"
  by (induction ob) (auto simp: fun_eq_iff)

lemma keys_obj_set [simp]: "fst ` set (obj_set k v ob) = insert k (fst ` set ob)"
  by (induction ob) auto

lemma obj_set_new: "k \<notin> fst ` set ob \<Longrightarrow> obj_set k v ob = ob @ [(k, v)]"
  by (induction ob) auto

lemma obj_wf_set [simp]: "obj_wf ob \<Longrightarrow> obj_wf (obj_set k v ob)"
proof (induction ob)
  case (Cons e ob)
  then show ?case using keys_obj_set [of k v ob] by (auto simp: obj_wf_def)
qed (simp add: obj_wf_def)

lemma obj_assign_Nil [simp]: "obj_assign a [] = a"
  by (simp add: obj_assign_def)

lemma obj_assign_Cons [simp]: "obj_assign a (e # b) = obj_assign (obj_set (fst e) (snd e) a) b"
  by (simp add: obj_assign_def)

lemma obj_wf_assign [simp]: "obj_wf a \<Longrightarrow> obj_wf (obj_assign a b)"
  by (induction b arbitrary: a) auto

lemma map_of_obj_assign: "obj_wf b \<Longrightarrow> map_of (obj_assign a b) = map_of a ++ map_of b"
proof (induction b arbitrary: a)
  case (Cons e b)
  then have wf: "obj_wf b" and "fst e \<notin> fst ` set b"
    by (auto simp: obj_wf_def)
  then have "map_of b (fst e) = None" by (simp add: map_of_eq_None_iff)
  with Cons.IH [OF wf] show ?case
    by (cases e) (auto simp: fun_eq_iff map_add_def split: option.splits)
qed simp

lemma mset_own_entries: "mset (own_entries ob) = mset ob"
  by (simp add: own_entries_def flip: multiset_partition)

lemma set_own_entries [simp]: "set (own_entries ob) = set ob"
  using mset_own_entries [of ob] by (metis set_mset_mset)

lemma own_entries_Nil [simp]: "own_entries [] = []"
  by (simp add: own_entries_def)

lemma obj_wf_own_entries [simp]: "obj_wf (own_entries ob) = obj_wf ob"
proof -
  have "mset (map fst (own_entries ob)) = mset (map fst ob)"
    by (simp add: mset_own_entries)
  then show ?thesis unfolding obj_wf_def by (metis mset_eq_imp_distinct_iff)
qed

lemma map_of_own_entries: "obj_wf ob \<Longrightarrow> map_of (own_entries ob) = map_of ob"
  using map_of_inject_set [of "own_entries ob" ob]
  by (metis obj_wf_def obj_wf_own_entries set_own_entries)

subsection \<open>Components that react to events\<close>

text \<open>
  The contract most components of the program share: a state, a handler that takes an event
  to the next state, and an invariant that every handler keeps.  Whatever a run of handlers
  starts from an invariant state ends in one.
\<close>

locale event_machine =
  fixes handle :: "'e \<Rightarrow> 's \<Rightarrow> 's" and invar :: "'s \<Rightarrow> bool"
  assumes handle_invar: "invar s \<Longrightarrow> invar (handle e s)"
begin

lemma run_invar: "invar s \<Longrightarrow> invar (fold handle es s)"
  by (induction es arbitrary: s) (auto simp: handle_invar)

lemma prefix_invar: "invar s \<Longrightarrow> invar (fold handle (take n es) s)"
  by (rule run_invar)

end

text \<open>
  A component whose handlers may throw (\<open>None\<close>): from an invariant state no handler does, the
  invariant stays, and an observation of the state is conserved.
\<close>

fun run_events :: "('e \<Rightarrow> 's \<Rightarrow> 's option) \<Rightarrow> 'e list \<Rightarrow> 's \<Rightarrow> 's option" where
  "run_events h [] s = Some s"
| "run_events h (e # es) s = Option.bind (h e s) (run_events h es)"

lemma run_events_append:
  "run_events h (es @ fs) s = Option.bind (run_events h es s) (run_events h fs)"
  by (induction es arbitrary: s) (auto split: bind_split)

locale conserving_machine =
  fixes handle :: "'e \<Rightarrow> 's \<Rightarrow> 's option" and invar :: "'s \<Rightarrow> bool" and obs :: "'s \<Rightarrow> 'o"
  assumes handle_ok: "invar s \<Longrightarrow> \<exists>s'. handle e s = Some s' \<and> invar s' \<and> obs s' = obs s"
begin

lemma run_ok: "invar s \<Longrightarrow> \<exists>s'. run_events handle es s = Some s' \<and> invar s' \<and> obs s' = obs s"
proof (induction es arbitrary: s)
  case (Cons e es)
  from handle_ok [OF Cons.prems] obtain s1
    where s1: "handle e s = Some s1" "invar s1" "obs s1 = obs s" by blast
  from Cons.IH [OF s1(2)] s1 show ?case by auto
qed simp

end

text \<open>A component some of whose events undo others.\<close>

locale reversible_machine = event_machine +
  fixes undo :: "'a \<Rightarrow> 'a"
  assumes undo_handle: "invar s \<Longrightarrow> handle (undo e) (handle e s) = s"
begin

lemma run_undo: "invar s \<Longrightarrow> fold handle (rev (map undo es)) (fold handle es s) = s"
proof (induction es arbitrary: s)
  case (Cons e es)
  then have "fold handle (rev (map undo es)) (fold handle es (handle e s)) = handle e s"
    by (simp add: handle_invar)
  with Cons.prems show ?case by (simp add: undo_handle)
qed simp

end

end
