(* ===== verification/JsUri.thy ===== *)
theory JsUri
  imports JsPrelude
begin

text \<open>
  \<open>encodeURIComponent\<close> and \<open>decodeURIComponent\<close>: percent-encoding of the UTF-8 bytes of a
  string, as the ECMAScript library defines them, on strings of code units below 256.
  \<open>None\<close> is a \<open>URIError\<close>, or a decoding that would leave that range.
\<close>

definition hex_digit :: "nat \<Rightarrow> char" where
  "hex_digit d = (if d < 10 then char_of (48 + d) else char_of (55 + d))"

definition hex_val :: "char \<Rightarrow> nat option" where
  "hex_val c =
     (if is_digit c then Some (code c - 48)
      else if 65 \<le> code c \<and> code c \<le> 70 then Some (code c - 55)
      else if 97 \<le> code c \<and> code c \<le> 102 then Some (code c - 87)
      else None)"

definition pct :: "nat \<Rightarrow> string" where
  "pct b = [CHR ''%'', hex_digit (b div 16), hex_digit (b mod 16)]"

definition uri_unescaped :: "char \<Rightarrow> bool" where
  "uri_unescaped c = (is_alpha c \<or> is_digit c \<or> c \<in> set ''-_.!~*()'' \<or> c = CHR 0x27)"

definition enc_char :: "char \<Rightarrow> string" where
  "enc_char c =
     (if uri_unescaped c then [c]
      else if code c < 128 then pct (code c)
      else pct (192 + code c div 64) @ pct (128 + code c mod 64))"

definition encodeURIComponent :: "string \<Rightarrow> string" where
  "encodeURIComponent s = concat (map enc_char s)"

fun take_pct :: "string \<Rightarrow> (nat \<times> string) option" where
  "take_pct (p # h # l # s) =
     (if p = CHR ''%'' then
        (case (hex_val h, hex_val l) of (Some a, Some b) \<Rightarrow> Some (16 * a + b, s) | _ \<Rightarrow> None)
      else None)"
| "take_pct _ = None"

lemma take_pct_length: "take_pct s = Some (n, t) \<Longrightarrow> length t < length s"
  by (induction s rule: take_pct.induct) (auto split: if_splits option.splits)

function decodeURIComponent :: "string \<Rightarrow> string option" where
  "decodeURIComponent s =
     (case s of [] \<Rightarrow> Some []
      | c # r \<Rightarrow>
          if c \<noteq> CHR ''%'' then map_option ((#) c) (decodeURIComponent r)
          else (case take_pct s of None \<Rightarrow> None
                | Some (n, t) \<Rightarrow>
                    if n < 128 then map_option ((#) (char_of n)) (decodeURIComponent t)
                    else if n = 194 \<or> n = 195 then
                      (case take_pct t of None \<Rightarrow> None
                       | Some (m, u) \<Rightarrow>
                           if 128 \<le> m \<and> m < 192
                           then map_option ((#) (char_of ((n - 192) * 64 + (m - 128))))
                                  (decodeURIComponent u)
                           else None)
                    else None))"
  by pat_completeness auto
termination
proof (relation "measure length", goal_cases)
  case (4 s c r x n t y m u)
  then show ?case by (metis in_measure order_less_trans take_pct_length)
qed (auto dest: take_pct_length)

declare decodeURIComponent.simps [simp del, code]

lemma code_less_256: "code c < 256"
  by simp

lemma hex_val_digit [simp]: "d < 16 \<Longrightarrow> hex_val (hex_digit d) = Some d"
  by (auto simp: hex_val_def hex_digit_def is_digit_def)

lemma take_pct_pct [simp]: "b < 256 \<Longrightarrow> take_pct (pct b @ s) = Some (b, s)"
  by (simp add: pct_def less_mult_imp_div_less)

lemma uri_unescaped_not_pct [simp]: "uri_unescaped c \<Longrightarrow> c \<noteq> CHR ''%''"
  by (auto simp: uri_unescaped_def char_class_defs)

lemma take_pct_Cons: "take_pct (c # r) = Some x \<Longrightarrow> c = CHR ''%''"
  by (induction "c # r" rule: take_pct.induct) (auto split: if_splits)

lemma decode_pct1:
  assumes "take_pct s = Some (n, t)" and "n < 128"
  shows "decodeURIComponent s = map_option ((#) (char_of n)) (decodeURIComponent t)"
proof (cases s)
  case (Cons c r)
  then show ?thesis
    using assms take_pct_Cons [of c r] by (subst decodeURIComponent.simps) simp
qed (use assms in simp)

lemma decode_pct2:
  assumes "take_pct s = Some (n, t)" and "n = 194 \<or> n = 195"
    and "take_pct t = Some (m, u)" and "128 \<le> m" and "m < 192"
  shows "decodeURIComponent s =
    map_option ((#) (char_of ((n - 192) * 64 + (m - 128)))) (decodeURIComponent u)"
proof (cases s)
  case (Cons c r)
  then show ?thesis
    using assms take_pct_Cons [of c r] by (subst decodeURIComponent.simps) auto
qed (use assms in simp)

lemma decode_enc_char:
  "decodeURIComponent (enc_char c @ s) = map_option ((#) c) (decodeURIComponent s)"
proof -
  consider "uri_unescaped c" | "\<not> uri_unescaped c" "code c < 128"
    | "\<not> uri_unescaped c" "\<not> code c < 128" by blast
  then show ?thesis
  proof cases
    case 1
    then show ?thesis
      by (simp add: enc_char_def decodeURIComponent.simps [of "c # s"])
  next
    case 2
    then show ?thesis
      using decode_pct1 [of "pct (code c) @ s" "code c" s] by (simp add: enc_char_def)
  next
    case 3
    have "code c < 4 * 64" using code_less_256 [of c] by simp
    then have "code c div 64 < 4" by (rule less_mult_imp_div_less)
    with 3 have n: "192 + code c div 64 = 194 \<or> 192 + code c div 64 = 195" by auto
    then have "take_pct (pct (192 + code c div 64) @ pct (128 + code c mod 64) @ s)
        = Some (192 + code c div 64, pct (128 + code c mod 64) @ s)"
      by (intro take_pct_pct) auto
    moreover have "take_pct (pct (128 + code c mod 64) @ s) = Some (128 + code c mod 64, s)"
      by (intro take_pct_pct) simp
    ultimately show ?thesis
      using 3 n by (auto simp: enc_char_def decode_pct2 simp del: take_pct_pct)
  qed
qed

lemma decode_encode_append:
  "decodeURIComponent (encodeURIComponent s @ t) = map_option ((@) s) (decodeURIComponent t)"
proof (induction s)
  case Nil
  then show ?case by (simp add: encodeURIComponent_def option.map_ident)
next
  case (Cons c s)
  then show ?case
    by (simp add: encodeURIComponent_def decode_enc_char option.map_comp comp_def)
qed

lemma decode_Nil [simp]: "decodeURIComponent [] = Some []"
  by (simp add: decodeURIComponent.simps)

lemma decode_encode [simp]: "decodeURIComponent (encodeURIComponent s) = Some s"
  using decode_encode_append [of s "[]"] by simp

lemma encode_inj: "encodeURIComponent s = encodeURIComponent t \<Longrightarrow> s = t"
  by (metis decode_encode option.inject)

lemma encode_Nil [simp]: "encodeURIComponent [] = []"
  by (simp add: encodeURIComponent_def)

lemma encode_eq_Nil [simp]: "encodeURIComponent s = [] \<longleftrightarrow> s = []"
  by (metis encode_Nil encode_inj)

text \<open>The alphabet of an encoded string: none of the characters that delimit a URL.\<close>

definition uri_safe :: "char \<Rightarrow> bool" where
  "uri_safe c = (uri_unescaped c \<or> c = CHR ''%'')"

lemma hex_digit_safe: "d < 16 \<Longrightarrow> uri_unescaped (hex_digit d)"
  by (auto simp: uri_unescaped_def hex_digit_def is_digit_def is_alpha_def is_upper_def)

lemma pct_safe: "b < 256 \<Longrightarrow> c \<in> set (pct b) \<Longrightarrow> uri_safe c"
  by (auto simp: pct_def uri_safe_def less_mult_imp_div_less intro!: hex_digit_safe)

lemma enc_char_safe:
  assumes "x \<in> set (enc_char c)"
  shows "uri_safe x"
proof -
  have "code c < 64 * 64" using code_less_256 [of c] by linarith
  then have "code c div 64 < 64" by (rule less_mult_imp_div_less)
  moreover have "code c < 256" by simp
  ultimately have "192 + code c div 64 < 256" "128 + code c mod 64 < 256"
    by auto
  with assms show ?thesis
    using pct_safe [of "code c" x] pct_safe [of "192 + code c div 64" x]
      pct_safe [of "128 + code c mod 64" x]
    by (auto simp: enc_char_def uri_safe_def split: if_splits)
qed

lemma encode_safe: "c \<in> set (encodeURIComponent s) \<Longrightarrow> uri_safe c"
  by (auto simp: encodeURIComponent_def dest: enc_char_safe)

lemma not_uri_safe [simp]:
  "\<not> uri_safe (CHR ''='')" "\<not> uri_safe (CHR ''&'')" "\<not> uri_safe (CHR ''?'')"
  "\<not> uri_safe (CHR ''/'')" "\<not> uri_safe (CHR ''#'')" "\<not> uri_safe (CHR '';'')"
  "\<not> uri_safe (CHR '','')" "\<not> uri_safe (CHR ''@'')" "\<not> uri_safe (CHR '':'')"
  "\<not> uri_safe (CHR '' '')" "\<not> uri_safe (CHR ''{'')" "\<not> uri_safe (CHR ''}'')"
  by (simp_all add: uri_safe_def uri_unescaped_def char_class_defs)

lemma encode_delims [simp]:
  "CHR ''='' \<notin> set (encodeURIComponent s)" "CHR ''&'' \<notin> set (encodeURIComponent s)"
  "CHR ''?'' \<notin> set (encodeURIComponent s)" "CHR ''/'' \<notin> set (encodeURIComponent s)"
  "CHR ''#'' \<notin> set (encodeURIComponent s)"
  using encode_safe not_uri_safe by blast+

end
