(* ===== verification/JsValue.thy ===== *)
theory JsValue
  imports JsPrelude
begin

text \<open>
  JavaScript values as the modelled programs exchange them: JSON data and \<open>undefined\<close>.
  Numbers are the safe integers (the programs count, index and report statuses).
  \<open>json\<close> is \<open>JSON.stringify\<close>; errors carry their class and message.
\<close>

datatype jsval =
    JUndef
  | JNull
  | JBool bool
  | JNum int
  | JStr string
  | JArr "jsval list"
  | JObj "(string \<times> jsval) list"

datatype error_class = GenericError | TypeError | SyntaxError | ParameterError
  | LinkLookupError | ErrorMessage | URIError | RangeError

record js_error =
  err_class :: error_class
  err_message :: string

abbreviation js_err :: "error_class \<Rightarrow> string \<Rightarrow> js_error" where
  "js_err k m \<equiv> \<lparr>err_class = k, err_message = m\<rparr>"

definition truthy :: "jsval \<Rightarrow> bool" where
  "truthy v =
     (case v of JUndef \<Rightarrow> False | JNull \<Rightarrow> False | JBool b \<Rightarrow> b | JNum n \<Rightarrow> n \<noteq> 0
      | JStr s \<Rightarrow> s \<noteq> [] | JArr _ \<Rightarrow> True | JObj _ \<Rightarrow> True)"

text \<open>\<open>a || b\<close>\<close>

definition js_or :: "jsval \<Rightarrow> jsval \<Rightarrow> jsval" where
  "js_or a b = (if truthy a then a else b)"

text \<open>\<open>String(v)\<close>; an array joins its elements, \<open>null\<close> and \<open>undefined\<close> among them empty.\<close>

fun to_string :: "jsval \<Rightarrow> string" where
  "to_string JUndef = ''undefined''"
| "to_string JNull = ''null''"
| "to_string (JBool b) = (if b then ''true'' else ''false'')"
| "to_string (JNum n) = show_int n"
| "to_string (JStr s) = s"
| "to_string (JArr vs) =
     join_with '','' (map (\<lambda>v. if v = JUndef \<or> v = JNull then [] else to_string v) vs)"
| "to_string (JObj ob) = ''[object Object]''"

text \<open>Reading a property: a \<open>TypeError\<close> on \<open>null\<close> and \<open>undefined\<close>, \<open>undefined\<close>
  when the value has no such property of its own.\<close>

definition get_prop :: "jsval \<Rightarrow> string \<Rightarrow> js_error + jsval" where
  "get_prop v k =
     (case v of
        JUndef \<Rightarrow> Inl (js_err TypeError
          (''Cannot read properties of undefined (reading '' @ [CHR 0x27] @ k @ [CHR 0x27] @ '')''))
      | JNull \<Rightarrow> Inl (js_err TypeError
          (''Cannot read properties of null (reading '' @ [CHR 0x27] @ k @ [CHR 0x27] @ '')''))
      | JObj ob \<Rightarrow> Inr (case map_of ob k of None \<Rightarrow> JUndef | Some w \<Rightarrow> w)
      | _ \<Rightarrow> Inr JUndef)"

subsection \<open>JSON.stringify\<close>

definition json_escape :: "char \<Rightarrow> string" where
  "json_escape c =
     (if c = CHR 0x22 then [CHR 0x5C, CHR 0x22]
      else if c = CHR 0x5C then [CHR 0x5C, CHR 0x5C]
      else if code c = 8 then [CHR 0x5C, CHR ''b'']
      else if code c = 12 then [CHR 0x5C, CHR ''f'']
      else if code c = 10 then [CHR 0x5C, CHR ''n'']
      else if code c = 13 then [CHR 0x5C, CHR ''r'']
      else if code c = 9 then [CHR 0x5C, CHR ''t'']
      else if code c < 32 then
        [CHR 0x5C] @ ''u00'' @ [if code c < 16 then CHR ''0'' else CHR ''1'',
           if code c mod 16 < 10 then char_of (48 + code c mod 16)
           else char_of (87 + code c mod 16)]
      else [c])"

definition json_quote :: "string \<Rightarrow> string" where
  "json_quote s = [CHR 0x22] @ concat (map json_escape s) @ [CHR 0x22]"

lemma own_entries_size [termination_simp]:
  "(k, v) \<in> set (own_entries ob) \<Longrightarrow> size v < Suc (size_list (size_prod (\<lambda>_. 0) size) ob)"
proof -
  assume "(k, v) \<in> set (own_entries ob)"
  then have "(k, v) \<in> set ob" by simp
  then show ?thesis by (induction ob) auto
qed

fun json :: "jsval \<Rightarrow> string" where
  "json JUndef = ''null''"
| "json JNull = ''null''"
| "json (JBool b) = (if b then ''true'' else ''false'')"
| "json (JNum n) = show_int n"
| "json (JStr s) = json_quote s"
| "json (JArr vs) = ''['' @ join_with '','' (map json vs) @ '']''"
| "json (JObj ob) =
     ''{'' @ join_with '',''
       (map (\<lambda>(k, v). json_quote k @ '':'' @ json v)
         (filter (\<lambda>(k, v). v \<noteq> JUndef) (own_entries ob))) @ ''}''"

text \<open>At top level \<open>JSON.stringify(undefined)\<close> is \<open>undefined\<close>, no string.\<close>

definition JSON_stringify :: "jsval \<Rightarrow> string option" where
  "JSON_stringify v = (if v = JUndef then None else Some (json v))"

lemma truthy_simps [simp]:
  "\<not> truthy JUndef" "\<not> truthy JNull" "truthy (JBool b) = b" "truthy (JNum n) = (n \<noteq> 0)"
  "truthy (JStr s) = (s \<noteq> [])" "truthy (JArr vs)" "truthy (JObj ob)"
  by (simp_all add: truthy_def)

end
