(* ===== verification/WaitlistApi.thy ===== *)
theory WaitlistApi
  imports JsUri JsValue
begin

text \<open>
  The front end's request layer (\<open>koded-cli/web/frontend/src/services/api.js\<close>).
  The browser's \<open>fetch\<close> and the server behind it are the parameter \<open>net\<close>: given the URL
  and the merged options it either fails (network error, with the browser's message) or gives a
  response, whose body reads as a JSON value or makes \<open>response.json()\<close> reject.
  A rejected promise is the left of the sum, with the error's class and message.
\<close>

record req_options =
  opt_method :: "string option"
  opt_headers :: "string obj option"
  opt_body :: "string option"

datatype resp_body = JsonBody jsval | BadBody string

record response =
  status :: int
  body :: resp_body

definition resp_ok :: "response \<Rightarrow> bool" where
  "resp_ok r = (200 \<le> status r \<and> status r \<le> 299)"

datatype fetch_result = NetworkError string | Response response

type_synonym net = "string \<Rightarrow> req_options \<Rightarrow> fetch_result"

definition API_BASE_URL :: string where
  "API_BASE_URL = ''https://koded-cli.onrender.com/api''"

abbreviation no_options :: req_options where
  "no_options \<equiv> \<lparr>opt_method = None, opt_headers = None, opt_body = None\<rparr>"

definition default_options :: req_options where
  "default_options =
     no_options\<lparr>opt_headers := Some [(''Content-Type'', ''application/json'')]\<rparr>"

text \<open>\<open>{...defaultOptions, ...options}\<close>: a property of the second argument replaces the first's.\<close>

definition merge_options :: "req_options \<Rightarrow> req_options \<Rightarrow> req_options" where
  "merge_options d p =
     \<lparr>opt_method = (case opt_method p of None \<Rightarrow> opt_method d | Some m \<Rightarrow> Some m),
      opt_headers = (case opt_headers p of None \<Rightarrow> opt_headers d | Some h \<Rightarrow> Some h),
      opt_body = (case opt_body p of None \<Rightarrow> opt_body d | Some b \<Rightarrow> Some b)\<rparr>"

definition http_error_fallback :: "int \<Rightarrow> jsval" where
  "http_error_fallback st =
     JObj [(''detail'', JStr (''HTTP error! status: '' @ show_int st))]"

text \<open>The branch for \<open>!response.ok\<close>: the value thrown.\<close>

definition error_of_response :: "response \<Rightarrow> js_error" where
  "error_of_response r =
     (let error = (case body r of JsonBody v \<Rightarrow> v | BadBody _ \<Rightarrow> http_error_fallback (status r))
      in case get_prop error ''detail'' of
           Inl e \<Rightarrow> e
         | Inr d \<Rightarrow>
             js_err GenericError (to_string (js_or d (JStr ''Something went wrong''))))"

definition fetchAPI :: "net \<Rightarrow> string \<Rightarrow> req_options \<Rightarrow> js_error + jsval" where
  "fetchAPI net endpoint options =
     (let url = API_BASE_URL @ endpoint; config = merge_options default_options options
      in case net url config of
           NetworkError m \<Rightarrow> Inl (js_err TypeError m)
         | Response r \<Rightarrow>
             if \<not> resp_ok r then Inl (error_of_response r)
             else (case body r of JsonBody v \<Rightarrow> Inr v | BadBody m \<Rightarrow> Inl (js_err SyntaxError m)))"

definition joinWaitlist :: "net \<Rightarrow> jsval \<Rightarrow> js_error + jsval" where
  "joinWaitlist net userData =
     fetchAPI net ''/waitlist/users/''
       (no_options\<lparr>opt_method := Some ''POST'', opt_body := JSON_stringify userData\<rparr>)"

definition checkEmail :: "net \<Rightarrow> string \<Rightarrow> js_error + jsval" where
  "checkEmail net email =
     fetchAPI net (''/waitlist/users/check/?email='' @ encodeURIComponent email) no_options"

definition getStats :: "net \<Rightarrow> js_error + jsval" where
  "getStats net = fetchAPI net ''/waitlist/users/stats/'' no_options"

definition getTotalUsers :: "net \<Rightarrow> js_error + jsval" where
  "getTotalUsers net = fetchAPI net ''/waitlist/total/'' no_options"

text \<open>Default parameters: \<open>skip = 0\<close>, \<open>limit = 100\<close> when the caller gives none.\<close>

definition getUsers :: "net \<Rightarrow> int option \<Rightarrow> int option \<Rightarrow> js_error + jsval" where
  "getUsers net skip limit =
     fetchAPI net
       (''/waitlist/users/?skip='' @ show_int (case skip of None \<Rightarrow> 0 | Some n \<Rightarrow> n)
        @ ''&limit='' @ show_int (case limit of None \<Rightarrow> 100 | Some n \<Rightarrow> n)) no_options"

subsection \<open>What a caller gets\<close>

text \<open>The error thrown for a refused request, read off the reply.\<close>

lemma error_of_response_cases:
  "error_of_response r =
     (case body r of
        BadBody _ \<Rightarrow> js_err GenericError (''HTTP error! status: '' @ show_int (status r))
      | JsonBody (JObj ob) \<Rightarrow>
          (case map_of ob ''detail'' of
             Some d \<Rightarrow>
               js_err GenericError (if truthy d then to_string d else ''Something went wrong'')
           | None \<Rightarrow> js_err GenericError ''Something went wrong'')
      | JsonBody JNull \<Rightarrow> js_err TypeError
          (''Cannot read properties of null (reading '' @ [CHR 0x27] @ ''detail'' @ [CHR 0x27] @ '')'')
      | JsonBody JUndef \<Rightarrow> js_err TypeError
          (''Cannot read properties of undefined (reading '' @ [CHR 0x27] @ ''detail'' @ [CHR 0x27] @ '')'')
      | JsonBody _ \<Rightarrow> js_err GenericError ''Something went wrong'')"
  by (auto simp: error_of_response_def get_prop_def js_or_def http_error_fallback_def
      split: resp_body.splits jsval.splits option.splits)

text \<open>
  A request resolves exactly when the server answered with a status in the 200s and a body
  that is JSON, and then with that body; in every other case it rejects.
\<close>

theorem fetchAPI_resolves_iff:
  "fetchAPI net ep p = Inr v \<longleftrightarrow>
     (\<exists>r. net (API_BASE_URL @ ep) (merge_options default_options p) = Response r
        \<and> resp_ok r \<and> body r = JsonBody v)"
  by (auto simp: fetchAPI_def Let_def split: fetch_result.splits resp_body.splits)

lemma joinWaitlist_eq:
  "joinWaitlist net (JObj user) =
     fetchAPI net ''/waitlist/users/''
       \<lparr>opt_method = Some ''POST'',
        opt_headers = None, opt_body = Some (json (JObj user))\<rparr>"
  by (simp add: joinWaitlist_def JSON_stringify_def)

text \<open>The shallow merge keeps the JSON content type for callers that give no headers.\<close>

lemma merge_default:
  "merge_options default_options \<lparr>opt_method = m, opt_headers = None, opt_body = b\<rparr>
     = \<lparr>opt_method = m,
        opt_headers = Some [(''Content-Type'', ''application/json'')], opt_body = b\<rparr>"
  by (simp add: merge_options_def default_options_def split: option.split)

text \<open>
  The e-mail check asks about exactly the address given.  Its URL is the check endpoint
  followed by a query value that holds no character with a meaning in a URL, and that decodes
  back to the address, whatever characters the address has.
\<close>

theorem checkEmail_query:
  "\<exists>q. checkEmail net email = fetchAPI net (''/waitlist/users/check/?email='' @ q) no_options
     \<and> decodeURIComponent q = Some email
     \<and> set q \<inter> set ''&=?#/ '' = {}"
proof (intro exI conjI)
  show "checkEmail net email =
      fetchAPI net (''/waitlist/users/check/?email='' @ encodeURIComponent email) no_options"
    by (simp add: checkEmail_def)
  have "CHR '' '' \<notin> set (encodeURIComponent email)"
    using encode_safe not_uri_safe by blast
  then show "set (encodeURIComponent email) \<inter> set ''&=?#/ '' = {}"
    by simp
qed simp

end
