(* ===== verification/JsView.thy ===== *)
theory JsView
  imports JsValue
begin

text \<open>
  What a React component renders: a tree of elements with their properties.  Class names and
  inline styles are left out; an event handler is a property whose value names the handler.
  A value in a child position renders as text, and \<open>null\<close>, \<open>undefined\<close> and booleans render as
  nothing.
\<close>

datatype node = Text string | Elem string "jsval obj" "node list"

definition render_value :: "jsval \<Rightarrow> node list" where
  "render_value v =
     (case v of JUndef \<Rightarrow> [] | JNull \<Rightarrow> [] | JBool _ \<Rightarrow> [] | _ \<Rightarrow> [Text (to_string v)])"

fun elements :: "node \<Rightarrow> node list" where
  "elements (Text s) = []"
| "elements (Elem t ps ns) = Elem t ps ns # concat (map elements ns)"

fun node_text :: "node \<Rightarrow> string" where
  "node_text (Text s) = s"
| "node_text (Elem t ps ns) = concat (map node_text ns)"

fun node_tag :: "node \<Rightarrow> string" where
  "node_tag (Text s) = []"
| "node_tag (Elem t ps ns) = t"

fun attr :: "string \<Rightarrow> node \<Rightarrow> jsval" where
  "attr k (Text s) = JUndef"
| "attr k (Elem t ps ns) = (case map_of ps k of None \<Rightarrow> JUndef | Some v \<Rightarrow> v)"

text \<open>The form controls of a tree: what the user can type into, choose from or press.\<close>

definition controls :: "node \<Rightarrow> node list" where
  "controls n = filter (\<lambda>m. node_tag m \<in> {''input'', ''select'', ''button''}) (elements n)"

definition control_named :: "string \<Rightarrow> node \<Rightarrow> node option" where
  "control_named k n = find (\<lambda>m. attr ''name'' m = JStr k) (controls n)"

end
