(* ===== verification/WaitlistForm.thy ===== *)
theory WaitlistForm
  imports JsView
begin

text \<open>
  The waitlist form (\<open>koded-cli/web/frontend/src/components/WaitlistForm.jsx\<close>): its controlled
  state \<open>formData\<close>, the change handler, the submit handler's two halves (before and after the
  \<open>await\<close>), and what it renders.
\<close>

type_synonym form = "jsval obj"

definition initial_form :: form where
  "initial_form =
     [(''name'', JStr []), (''email'', JStr []), (''source'', JStr []),
      (''newsletter'', JBool True)]"

text \<open>The part of a change event the handler reads.\<close>

record change_event =
  ev_name :: string
  ev_value :: string
  ev_type :: string
  ev_checked :: bool

definition handleChange :: "change_event \<Rightarrow> form \<Rightarrow> form" where
  "handleChange e prev =
     obj_set (ev_name e)
       (if ev_type e = ''checkbox'' then JBool (ev_checked e) else JStr (ev_value e)) prev"

text \<open>
  \<open>handleSubmit\<close> awaits \<open>onSubmit(formData)\<close> and then reads \<open>loading\<close>.  That name is the
  property the component was rendered with when the handler was made, so the value read after the
  \<open>await\<close> is the one of the submitting render: it is an argument of the second half.
\<close>

definition handleSubmit_rest :: "bool \<Rightarrow> form \<Rightarrow> form" where
  "handleSubmit_rest loading_at_submit fd =
     (if \<not> loading_at_submit then initial_form else fd)"

definition userAvatars :: "string list" where
  "userAvatars =
     [''https://api.dicebear.com/7.x/avataaars/svg?seed=Taylor&backgroundColor=0a140d'',
      ''https://api.dicebear.com/7.x/avataaars/svg?seed=Alex&backgroundColor=0a140d'',
      ''https://api.dicebear.com/7.x/avataaars/svg?seed=Jordan&backgroundColor=0a140d'',
      ''https://api.dicebear.com/7.x/avataaars/svg?seed=Casey&backgroundColor=0a140d'',
      ''https://api.dicebear.com/7.x/avataaars/svg?seed=Riley&backgroundColor=0a140d'']"

text \<open>The badge beside the avatars.  \<open>totalUsers\<close> is the number the server counts; a value
  that is no number is not compared with 2000 here, only shown.\<close>

definition count_label :: "jsval \<Rightarrow> string" where
  "count_label totalUsers =
     (case totalUsers of
        JNum n \<Rightarrow>
          if n > 2000 then ''+'' @ show_int (n div 1000) @ ''k'' else ''+'' @ show_int n
      | v \<Rightarrow> ''+'' @ to_string v)"

definition field :: "form \<Rightarrow> string \<Rightarrow> jsval" where
  "field fd k = (case map_of fd k of None \<Rightarrow> JUndef | Some v \<Rightarrow> v)"

definition text_input :: "form \<Rightarrow> bool \<Rightarrow> string \<Rightarrow> string \<Rightarrow> string \<Rightarrow> node" where
  "text_input fd loading nm ph ty =
     Elem ''input''
       [(''name'', JStr nm), (''value'', field fd nm), (''onChange'', JStr ''handleChange''),
        (''required'', JBool True), (''disabled'', JBool loading),
        (''placeholder'', JStr ph), (''type'', JStr ty)] []"

definition source_options :: "(string \<times> string) list" where
  "source_options =
     [(''twitter'', ''Twitter / X''), (''github'', ''GitHub''),
      (''friend'', ''Friend / Colleague''), (''blog'', ''Tech Blog''), (''other'', ''Other'')]"

definition source_select :: "form \<Rightarrow> bool \<Rightarrow> node" where
  "source_select fd loading =
     Elem ''select''
       [(''name'', JStr ''source''), (''value'', field fd ''source''),
        (''onChange'', JStr ''handleChange''), (''required'', JBool True),
        (''disabled'', JBool loading)]
       (Elem ''option'' [(''value'', JStr []), (''disabled'', JBool True)] [Text ''Select an option'']
        # map (\<lambda>(v, t). Elem ''option'' [(''value'', JStr v)] [Text t]) source_options)"

definition form_view :: "form \<Rightarrow> bool \<Rightarrow> node" where
  "form_view fd loading =
     Elem ''form'' [(''onSubmit'', JStr ''handleSubmit'')]
       [Elem ''label'' []
          [Elem ''span'' [] [Text ''Full Name''],
           text_input fd loading ''name'' ''Linus Torvalds'' ''text''],
        Elem ''label'' []
          [Elem ''span'' [] [Text ''Email Address''],
           text_input fd loading ''email'' ''dev@example.com'' ''email''],
        Elem ''label'' []
          [Elem ''span'' [] [Text ''Where did you hear about Koded?''],
           Elem ''div'' [] [source_select fd loading, Elem ''FaChevronDown'' [] []]],
        Elem ''label'' []
          [Elem ''input''
             [(''name'', JStr ''newsletter''), (''checked'', field fd ''newsletter''),
              (''onChange'', JStr ''handleChange''), (''disabled'', JBool loading),
              (''type'', JStr ''checkbox'')] [],
           Elem ''span'' [] [Text ''I want to receive news and updates'']],
        Elem ''button'' [(''type'', JStr ''submit''), (''disabled'', JBool loading)]
          (if loading
           then [Elem ''span'' [] [Elem ''svg'' [] [], Text ''Processing...'']]
           else [Text ''Join Waitlist''])]"

definition avatars_view :: "jsval \<Rightarrow> node" where
  "avatars_view totalUsers =
     Elem ''div'' []
       (map (\<lambda>(i, avatar).
           Elem ''img'' [(''key'', JNum (int i)), (''src'', JStr avatar),
             (''alt'', JStr (''Developer avatar '' @ show_nat (i + 1)))] [])
         (enumerate 0 userAvatars)
        @ [Elem ''div'' [] [Text (count_label totalUsers)]])"

definition WaitlistForm_view :: "form \<Rightarrow> jsval \<Rightarrow> bool \<Rightarrow> node" where
  "WaitlistForm_view fd totalUsers loading =
     Elem ''section'' [(''id'', JStr ''waitlist'')]
       [Elem ''div'' []
         [Elem ''div'' []
           [Elem ''h2'' [] [Text ''Join the Waitlist''],
            Elem ''p'' []
              [Text (''We are currently onboarding developers in batches to ensure stability. ''
                @ ''Sign up now to get early access to the binary and our private Discord community.'')],
            Elem ''div'' []
              [avatars_view totalUsers,
               Elem ''div'' []
                 [Elem ''span'' [] [Text ''Developers waiting''],
                  Elem ''span'' [] [Text ''Join the revolution'']]]],
          Elem ''div'' [] [form_view fd loading]]]"

subsection \<open>The form as a controlled component\<close>

definition form_keys :: "string set" where
  "form_keys = {''name'', ''email'', ''source'', ''newsletter''}"

text \<open>The shape of the state: exactly the four fields, in order, each of its type.\<close>

definition form_wf :: "form \<Rightarrow> bool" where
  "form_wf fd = (\<exists>n e s b. fd =
     [(''name'', JStr n), (''email'', JStr e), (''source'', JStr s), (''newsletter'', JBool b)])"

definition event_wf :: "change_event \<Rightarrow> bool" where
  "event_wf e =
     (ev_name e \<in> form_keys \<and> (ev_type e = ''checkbox'') = (ev_name e = ''newsletter''))"

lemma form_wf_initial [simp]: "form_wf initial_form"
  unfolding form_wf_def initial_form_def by blast

lemma form_wf_change: "form_wf fd \<Longrightarrow> event_wf e \<Longrightarrow> form_wf (handleChange e fd)"
  by (auto simp: form_wf_def event_wf_def form_keys_def handleChange_def)

lemma form_wf_rest: "form_wf fd \<Longrightarrow> form_wf (handleSubmit_rest b fd)"
  by (simp add: handleSubmit_rest_def)

lemma field_handleChange:
  "field (handleChange e fd) k =
     (if k = ev_name e
      then (if ev_type e = ''checkbox'' then JBool (ev_checked e) else JStr (ev_value e))
      else field fd k)"
  by (simp add: field_def handleChange_def)

text \<open>The controls the form renders, in order.\<close>

lemmas view_defs = WaitlistForm_view_def form_view_def avatars_view_def text_input_def
  source_select_def source_options_def userAvatars_def

lemma controls_form_view:
  "controls (WaitlistForm_view fd n b) =
     [text_input fd b ''name'' ''Linus Torvalds'' ''text'',
      text_input fd b ''email'' ''dev@example.com'' ''email'',
      source_select fd b,
      Elem ''input''
        [(''name'', JStr ''newsletter''), (''checked'', field fd ''newsletter''),
         (''onChange'', JStr ''handleChange''), (''disabled'', JBool b),
         (''type'', JStr ''checkbox'')] [],
      Elem ''button'' [(''type'', JStr ''submit''), (''disabled'', JBool b)]
        (if b then [Elem ''span'' [] [Elem ''svg'' [] [], Text ''Processing...'']]
         else [Text ''Join Waitlist''])]"
  by (simp add: controls_def view_defs)

text \<open>
  The form locks as a whole.  It renders five controls, and every one of them, the submit
  button included, is disabled exactly while a submission is loading, so nothing can be edited
  or sent again.
\<close>

theorem form_locked_while_loading:
  "map (attr ''disabled'') (controls (WaitlistForm_view fd n loading))
     = replicate 5 (JBool loading)"
  by (simp add: controls_form_view text_input_def source_select_def eval_nat_numeral)

text \<open>What a control shows: \<open>checked\<close> for the box, \<open>value\<close> for the others.\<close>

definition shown :: "string \<Rightarrow> node \<Rightarrow> jsval option" where
  "shown k n =
     map_option (\<lambda>c. attr (if attr ''type'' c = JStr ''checkbox'' then ''checked'' else ''value'') c)
       (control_named k n)"

lemma shown_simps [simp]:
  "shown ''name'' (WaitlistForm_view fd n b) = Some (field fd ''name'')"
  "shown ''email'' (WaitlistForm_view fd n b) = Some (field fd ''email'')"
  "shown ''source'' (WaitlistForm_view fd n b) = Some (field fd ''source'')"
  "shown ''newsletter'' (WaitlistForm_view fd n b) = Some (field fd ''newsletter'')"
  unfolding shown_def control_named_def controls_form_view text_input_def source_select_def
  by simp_all

lemma shown_field:
  "k \<in> form_keys \<Longrightarrow> shown k (WaitlistForm_view fd n b) = Some (field fd k)"
  unfolding form_keys_def by (elim insertE) simp_all

text \<open>
  The form is a controlled component.  After a change event from one of its controls, that
  control shows exactly what the user entered (the tick for the checkbox), every other control
  shows what it showed before, and the state keeps its four fields with their types.
\<close>

theorem change_shows_entered_value:
  assumes "form_wf fd" and "event_wf e" and "k \<in> form_keys"
  shows "form_wf (handleChange e fd)
    \<and> shown k (WaitlistForm_view (handleChange e fd) n b) =
        (if k = ev_name e
         then Some (if ev_name e = ''newsletter'' then JBool (ev_checked e) else JStr (ev_value e))
         else shown k (WaitlistForm_view fd n b))"
  using assms by (auto simp: form_wf_change shown_field field_handleChange event_wf_def)

theorem change_shows_entered_value_witness:
  "let e = \<lparr>ev_name = ''email'', ev_value = ''a@b.c'', ev_type = ''email'', ev_checked = False\<rparr> in
   form_wf (handleChange e initial_form)
   \<and> shown ''email'' (WaitlistForm_view (handleChange e initial_form) (JNum 3) False)
       = Some (JStr ''a@b.c'')"
  using change_shows_entered_value [of initial_form
      "\<lparr>ev_name = ''email'', ev_value = ''a@b.c'', ev_type = ''email'', ev_checked = False\<rparr>"
      "''email''" "JNum 3" False]
  by (simp add: event_wf_def form_keys_def)

end
