(* ===== verification/WaitlistApp.thy ===== *)
theory WaitlistApp
  imports WaitlistApi WaitlistForm
begin

text \<open>
  The page (\<open>koded-cli/web/frontend/src/App.jsx\<close>) with its dialog (\<open>components/Modal.jsx\<close>)
  and the form's state, as a machine.  A handler runs up to its first \<open>await\<close> as one step; the
  reply to an awaited request is a step of its own, and the replies of different requests come in
  any order and mixed with the user's events.  React renders between two events, so a control
  that the current state renders disabled sends no event.
\<close>

text \<open>A submission in flight: what \<open>handleSubmit\<close> closed over.\<close>

record submission =
  sub_data :: form
  sub_loading :: bool

record app =
  isModalOpen :: bool
  waitlistPosition :: jsval
  totalUsers :: jsval
  loading :: bool
  error :: jsval
  formData :: form
  joins :: "submission list"
  totals :: nat

text \<open>The state of the first render.\<close>

definition app_init :: app where
  "app_init = \<lparr>isModalOpen = False, waitlistPosition = JNull, totalUsers = JNum 0,
     loading = False, error = JNull, formData = initial_form, joins = [], totals = 0\<rparr>"

subsection \<open>Handlers\<close>

definition fetchTotalUsers :: "app \<Rightarrow> app" where
  "fetchTotalUsers s = s\<lparr>totals := Suc (totals s)\<rparr>"

text \<open>The rest of \<open>fetchTotalUsers\<close>: any error, a reply that is \<open>null\<close> included, falls back
  to the static number.\<close>

definition fetchTotalUsers_rest :: "js_error + jsval \<Rightarrow> app \<Rightarrow> app" where
  "fetchTotalUsers_rest r s =
     (let t = (case r of
                 Inl _ \<Rightarrow> JNum 2100
               | Inr data \<Rightarrow>
                   (case get_prop data ''total_users'' of
                      Inl _ \<Rightarrow> JNum 2100
                    | Inr v \<Rightarrow> js_or v (JNum 0)))
      in s\<lparr>totalUsers := t, totals := totals s - 1\<rparr>)"

definition api_data :: "form \<Rightarrow> jsval" where
  "api_data fd =
     JObj [(''email'', field fd ''email''),
           (''name'', field fd ''name''),
           (''referral_source'', js_or (field fd ''source'') (JStr ''other'')),
           (''wants_updates'', field fd ''newsletter'')]"

text \<open>\<open>handleSubmit\<close> and \<open>handleFormSubmit\<close> up to the request.\<close>

definition handleFormSubmit :: "app \<Rightarrow> app" where
  "handleFormSubmit s =
     s\<lparr>loading := True, error := JNull,
       joins := joins s @ [\<lparr>sub_data = formData s, sub_loading = loading s\<rparr>]\<rparr>"

text \<open>The body of the \<open>try\<close> after the reply, or its \<open>catch\<close>.\<close>

definition handleFormSubmit_rest :: "js_error + jsval \<Rightarrow> app \<Rightarrow> app" where
  "handleFormSubmit_rest r s =
     (let fail = (\<lambda>e. s\<lparr>error := js_or (JStr (err_message e))
                           (JStr ''Failed to join waitlist. Please try again.'')\<rparr>);
          s' = (case r of
                  Inl e \<Rightarrow> fail e
                | Inr response \<Rightarrow>
                    (case get_prop response ''position'' of
                       Inl e \<Rightarrow> fail e
                     | Inr p \<Rightarrow>
                         fetchTotalUsers (s\<lparr>waitlistPosition := p, isModalOpen := True\<rparr>)))
      in s'\<lparr>loading := False\<rparr>)"

text \<open>The whole continuation of the \<open>i\<close>-th submission in flight: \<open>handleFormSubmit\<close> never
  rejects, so \<open>handleSubmit\<close> goes on after its \<open>await\<close> in every case.\<close>

definition submission_reply :: "nat \<Rightarrow> js_error + jsval \<Rightarrow> app \<Rightarrow> app" where
  "submission_reply i r s =
     (let sub = joins s ! i;
          s1 = handleFormSubmit_rest r s
      in s1\<lparr>formData := handleSubmit_rest (sub_loading sub) (formData s1),
            joins := take i (joins s) @ drop (Suc i) (joins s)\<rparr>)"

definition onClose :: "app \<Rightarrow> app" where
  "onClose s = s\<lparr>isModalOpen := False\<rparr>"

definition app_change :: "change_event \<Rightarrow> app \<Rightarrow> app" where
  "app_change e s = s\<lparr>formData := handleChange e (formData s)\<rparr>"

subsection \<open>What is rendered\<close>

text \<open>The dialog; the parameter's default \<open>1337\<close> replaces only \<open>undefined\<close>.\<close>

definition Modal_view :: "bool \<Rightarrow> jsval \<Rightarrow> node list" where
  "Modal_view isOpen position =
     (if \<not> isOpen then []
      else let pos = (if position = JUndef then JNum 1337 else position) in
        [Elem ''div'' [] [],
         Elem ''div'' []
           [Elem ''div'' []
             [Elem ''div'' [] [],
              Elem ''div'' []
                [Elem ''div'' []
                   [Elem ''div'' [] [], Elem ''div'' [] [Elem ''FaTerminal'' [] []],
                    Elem ''div'' [] [Elem ''FaCheckCircle'' [] []]],
                 Elem ''div'' []
                   [Elem ''h2'' [] [Text (''You'' @ [CHR 0x27] @ ''re on the waitlist!'')],
                    Elem ''p'' [] [Text
                      ''Koded is coming soon. Watch your inbox for your deployment key.''],
                    Elem ''div'' [] [Elem ''div'' []
                      [Elem ''span'' [] [],
                       Elem ''p'' [] ([Text ''System ID: #''] @ render_value pos
                         @ [Text ''-KODED-V2''])]]],
                 Elem ''div'' []
                   [Elem ''button'' [(''onClick'', JStr ''onClose'')]
                      [Elem ''div'' [] [],
                       Elem ''span'' [] [Text ''Return to Terminal'', Elem ''FaArrowRight'' [] []]],
                    Elem ''button'' [(''onClick'', JStr ''onClose'')]
                      [Text ''Close this window'']]],
              Elem ''div'' [] []]]])"

text \<open>The banner (the warning sign before the message is written as an exclamation mark).\<close>

definition error_banner :: "jsval \<Rightarrow> node list" where
  "error_banner err =
     (if truthy err
      then [Elem ''div'' [] [Elem ''div'' []
              [Elem ''p'' [] (Text ''! '' # render_value err),
               Elem ''p'' [] [Text ''Please check your information and try again.'']]]]
      else render_value err)"

definition App_view :: "app \<Rightarrow> node" where
  "App_view s =
     Elem ''div'' []
       ([Elem ''Navbar'' [] [],
         Elem ''main'' []
           ([Elem ''Hero'' [] [], Elem ''Features'' [] []] @ error_banner (error s)
            @ [WaitlistForm_view (formData s) (totalUsers s) (loading s)]),
         Elem ''Footer'' [] []]
        @ Modal_view (isModalOpen s) (waitlistPosition s))"

subsection \<open>The machine\<close>

text \<open>
  \<open>app_step reply s t\<close>: one step.  The label is the reply to a join request that the step
  consumed, if it is one.  The step \<open>submit\<close> needs the browser's check of the required fields.
\<close>

definition required_filled :: "form \<Rightarrow> bool" where
  "required_filled fd =
     (\<forall>k \<in> {''name'', ''email'', ''source''}. field fd k \<noteq> JStr [])"

inductive app_step :: "(js_error + jsval) option \<Rightarrow> app \<Rightarrow> app \<Rightarrow> bool" where
  mount: "app_step None s (fetchTotalUsers s)"
| change: "\<not> loading s \<Longrightarrow> event_wf e \<Longrightarrow> app_step None s (app_change e s)"
| submit: "\<not> loading s \<Longrightarrow> required_filled (formData s) \<Longrightarrow>
     app_step None s (handleFormSubmit s)"
| join_reply: "i < length (joins s) \<Longrightarrow> app_step (Some r) s (submission_reply i r s)"
| total_reply: "0 < totals s \<Longrightarrow> app_step None s (fetchTotalUsers_rest r s)"
| close: "isModalOpen s \<Longrightarrow> app_step None s (onClose s)"

inductive_cases app_stepE: "app_step l s t"

text \<open>Runs from the first render, with the join replies received so far, newest first.\<close>

inductive app_reach :: "(js_error + jsval) list \<Rightarrow> app \<Rightarrow> bool" where
  start: "app_reach [] app_init"
| silent: "app_reach rs s \<Longrightarrow> app_step None s t \<Longrightarrow> app_reach rs t"
| reply: "app_reach rs s \<Longrightarrow> app_step (Some r) s t \<Longrightarrow> app_reach (r # rs) t"

subsection \<open>Safety of every interleaving\<close>

definition app_inv :: "(js_error + jsval) list \<Rightarrow> app \<Rightarrow> bool" where
  "app_inv rs s \<longleftrightarrow>
     length (joins s) = (if loading s then 1 else 0)
   \<and> (\<forall>sub \<in> set (joins s). \<not> sub_loading sub \<and> form_wf (sub_data sub))
   \<and> (loading s \<longrightarrow> error s = JNull)
   \<and> form_wf (formData s)
   \<and> (isModalOpen s \<longrightarrow> (\<exists>v. Inr v \<in> set rs \<and> get_prop v ''position'' = Inr (waitlistPosition s)))"

lemma app_inv_init: "app_inv [] app_init"
  by (simp add: app_inv_def app_init_def)

text \<open>A reply is consumed only while loading, and leaves the page ready for the next try.\<close>

lemma submission_reply_loading [simp]: "loading (submission_reply i r s) = False"
  by (simp add: submission_reply_def handleFormSubmit_rest_def Let_def)

lemma submission_reply_joins:
  "joins (submission_reply i r s) = take i (joins s) @ drop (Suc i) (joins s)"
  by (simp add: submission_reply_def handleFormSubmit_rest_def Let_def)

lemma submission_reply_form:
  "formData (submission_reply i r s) =
     handleSubmit_rest (sub_loading (joins s ! i)) (formData s)"
  by (simp add: submission_reply_def handleFormSubmit_rest_def fetchTotalUsers_def Let_def
      split: sum.split)

lemma submission_reply_modal:
  "isModalOpen (submission_reply i r s) \<Longrightarrow>
     (\<exists>v p. r = Inr v \<and> get_prop v ''position'' = Inr p
        \<and> waitlistPosition (submission_reply i r s) = p)
   \<or> (isModalOpen s \<and> waitlistPosition (submission_reply i r s) = waitlistPosition s)"
  by (auto simp: submission_reply_def handleFormSubmit_rest_def fetchTotalUsers_def Let_def
      split: sum.splits)

lemma app_step_inv:
  assumes "app_step l s t" and "app_inv rs s"
  shows "app_inv (case l of None \<Rightarrow> rs | Some r \<Rightarrow> r # rs) t"
  using assms
proof (induction rule: app_step.induct)
  case (change s e)
  then show ?case by (simp add: app_inv_def app_change_def form_wf_change)
next
  case (join_reply i s r)
  then have "length (joins s) = 1" "i = 0" by (auto simp: app_inv_def split: if_splits)
  then have "joins (submission_reply i r s) = []" by (simp add: submission_reply_joins)
  moreover have "isModalOpen (submission_reply i r s) \<longrightarrow>
      (\<exists>v. Inr v \<in> set (r # rs)
         \<and> get_prop v ''position'' = Inr (waitlistPosition (submission_reply i r s)))"
  proof
    assume "isModalOpen (submission_reply i r s)"
    from submission_reply_modal [OF this] show "\<exists>v. Inr v \<in> set (r # rs)
         \<and> get_prop v ''position'' = Inr (waitlistPosition (submission_reply i r s))"
    proof (elim disjE conjE)
      assume "isModalOpen s" "waitlistPosition (submission_reply i r s) = waitlistPosition s"
      moreover from this join_reply.prems obtain v
        where "Inr v \<in> set rs" "get_prop v ''position'' = Inr (waitlistPosition s)"
        unfolding app_inv_def by blast
      ultimately show ?thesis by auto
    qed auto
  qed
  ultimately show ?case
    using join_reply.prems by (simp add: app_inv_def submission_reply_form form_wf_rest)
qed (auto simp: app_inv_def fetchTotalUsers_def handleFormSubmit_def fetchTotalUsers_rest_def
      onClose_def Let_def)

lemma app_reach_inv: "app_reach rs s \<Longrightarrow> app_inv rs s"
proof (induction rule: app_reach.induct)
  case (silent rs s t)
  then show ?case using app_step_inv [of None s t rs] by simp
next
  case (reply rs s r t)
  then show ?case using app_step_inv [of "Some r" s t rs] by simp
qed (rule app_inv_init)

text \<open>
  C1: whatever the order of user events and replies, the page shows its spinner exactly while
  one submission is in flight, never two, no error banner stands beside the spinner, and the
  dialog is open only with a position that the server gave in the reply to a submission.
\<close>

theorem app_safe:
  assumes "app_reach rs s"
  shows "length (joins s) = (if loading s then 1 else 0)
    \<and> (error_banner (error s) = [] \<or> \<not> loading s)
    \<and> (isModalOpen s = False \<or>
        (\<exists>v. Inr v \<in> set rs \<and> get_prop v ''position'' = Inr (waitlistPosition s)))"
  using app_reach_inv [OF assms]
  by (auto simp: app_inv_def error_banner_def render_value_def)

text \<open>A run to a state with the dialog open: the witness of the property above.\<close>

definition sample_form :: form where
  "sample_form =
     [(''name'', JStr ''Ada''), (''email'', JStr ''ada@x.org''), (''source'', JStr ''github''),
      (''newsletter'', JBool True)]"

abbreviation sample_change :: "string \<Rightarrow> string \<Rightarrow> change_event" where
  "sample_change k v \<equiv> \<lparr>ev_name = k, ev_value = v, ev_type = ''text'', ev_checked = False\<rparr>"

abbreviation sample_filled :: app where
  "sample_filled \<equiv> app_change (sample_change ''source'' ''github'')
     (app_change (sample_change ''email'' ''ada@x.org'')
       (app_change (sample_change ''name'' ''Ada'') app_init))"

lemma sample_filled_form: "formData sample_filled = sample_form"
  by (simp add: app_change_def handleChange_def app_init_def initial_form_def sample_form_def)

lemma reach_sample_submitted: "app_reach [] (handleFormSubmit sample_filled)"
proof -
  have "app_reach [] sample_filled"
    by (intro app_reach.silent [OF _ app_step.change] app_reach.start)
      (simp_all add: app_init_def app_change_def event_wf_def form_keys_def)
  moreover have "required_filled (formData sample_filled)" "\<not> loading sample_filled"
    by (simp add: sample_filled_form required_filled_def sample_form_def field_def)
      (simp add: app_change_def app_init_def)
  ultimately show ?thesis by (blast intro: app_reach.silent app_step.submit)
qed

lemma reach_sample_reply:
  "app_reach [r] (submission_reply 0 r (handleFormSubmit sample_filled))"
  by (rule app_reach.reply [OF reach_sample_submitted app_step.join_reply])
    (simp add: handleFormSubmit_def)

theorem app_safe_witness:
  "let s = submission_reply 0 (Inr (JObj [(''position'', JNum 8)])) (handleFormSubmit sample_filled)
   in isModalOpen s \<and> waitlistPosition s = JNum 8 \<and> joins s = []"
  using app_safe [OF reach_sample_reply, of "Inr (JObj [(''position'', JNum 8)])"]
  by (simp add: submission_reply_def handleFormSubmit_rest_def fetchTotalUsers_def get_prop_def)

subsection \<open>The outcome of a submission\<close>

text \<open>
  C27: what the reply to a submission does, in any reachable state.  An accepted one opens the
  dialog with the server's position and asks for the total again; a refused one leaves the dialog
  as it was and raises the error banner; both end the spinner.  And both clear the form: the code
  means to do so on success only, but it tests a \<open>loading\<close> captured before the request was sent,
  so what the user typed is lost on a refusal too.
\<close>

theorem submission_outcome:
  assumes "app_reach rs s" and "i < length (joins s)"
  shows "let t = submission_reply i r s in
      \<not> loading t \<and> joins t = [] \<and> formData t = initial_form
    \<and> (case r of
         Inl e \<Rightarrow> isModalOpen t = isModalOpen s \<and> waitlistPosition t = waitlistPosition s
             \<and> totals t = totals s \<and> error_banner (error t) \<noteq> []
       | Inr v \<Rightarrow> (case get_prop v ''position'' of
             Inr p \<Rightarrow> isModalOpen t \<and> waitlistPosition t = p \<and> totals t = Suc (totals s)
               \<and> error_banner (error t) = []
           | Inl e \<Rightarrow> isModalOpen t = isModalOpen s \<and> error_banner (error t) \<noteq> []))"
proof -
  have inv: "app_inv rs s" by (rule app_reach_inv [OF assms(1)])
  with assms(2) have one: "length (joins s) = 1" "i = 0" "loading s" "error s = JNull"
    by (auto simp: app_inv_def split: if_splits)
  then obtain sub where sub: "joins s = [sub]" by (auto simp: length_Suc_conv)
  with inv have "\<not> sub_loading sub" by (simp add: app_inv_def)
  with sub one show ?thesis
    by (auto simp: submission_reply_def handleFormSubmit_rest_def fetchTotalUsers_def
        handleSubmit_rest_def error_banner_def js_or_def render_value_def Let_def split: sum.split)
qed

theorem submission_outcome_witness:
  "let s = handleFormSubmit sample_filled;
       t = submission_reply 0 (Inl (js_err GenericError ''Something went wrong'')) s
   in formData s = sample_form \<and> formData t = initial_form \<and> \<not> isModalOpen t
      \<and> error_banner (error t) \<noteq> []"
  using submission_outcome [OF reach_sample_submitted, of 0
      "Inl (js_err GenericError ''Something went wrong'')"] sample_filled_form
  by (simp add: handleFormSubmit_def Let_def) (simp add: app_change_def app_init_def)

end
