(* ===== verification/Dom.thy ===== *)
theory Dom
  imports JsView
begin

text \<open>
  The page as a tree of elements, for the code that builds and searches it: the elements that pass a
  test in the order of the document, the places they stand at, and edits at a place.  Tests look at
  the tag and the attributes of an element.  Tags are written small here.
\<close>

subsection \<open>Elements and their attributes\<close>

type_synonym test = "string \<Rightarrow> jsval obj \<Rightarrow> bool"

fun passes :: "test \<Rightarrow> JsView.node \<Rightarrow> bool" where
  "passes P (Text s) = False"
| "passes P (Elem t a ns) = P t a"

definition attr_text :: "string \<Rightarrow> jsval obj \<Rightarrow> string" where
  "attr_text k a = (case map_of a k of Some (JStr s) \<Rightarrow> s | _ \<Rightarrow> [])"

definition with_attr :: "string \<Rightarrow> string \<Rightarrow> test" where
  "with_attr k v t a \<longleftrightarrow> map_of a k = Some (JStr v)"

definition with_tag :: "string \<Rightarrow> test" where
  "with_tag tg t a \<longleftrightarrow> t = tg"

definition class_list :: "jsval obj \<Rightarrow> string list" where
  "class_list a = filter (\<lambda>w. w \<noteq> []) (split_by is_ws (attr_text ''class'' a))"

definition with_class :: "string \<Rightarrow> test" where
  "with_class c t a \<longleftrightarrow> c \<in> set (class_list a)"

fun set_attr :: "string \<Rightarrow> string \<Rightarrow> JsView.node \<Rightarrow> JsView.node" where
  "set_attr k v (Text s) = Text s"
| "set_attr k v (Elem t a ns) = Elem t (obj_set k (JStr v) a) ns"

fun get_attr :: "string \<Rightarrow> JsView.node \<Rightarrow> string" where
  "get_attr k (Text s) = []"
| "get_attr k (Elem t a ns) = attr_text k a"

subsection \<open>Searching\<close>

text \<open>A place is the way to it from the root, by the indices among the children.\<close>

fun places :: "test \<Rightarrow> JsView.node \<Rightarrow> nat list list"
  and places_from :: "test \<Rightarrow> nat \<Rightarrow> JsView.node list \<Rightarrow> nat list list" where
  "places P (Text s) = []"
| "places P (Elem t a ns) = (if P t a then [[]] else []) @ places_from P 0 ns"
| "places_from P k [] = []"
| "places_from P k (n # ns) = map ((#) k) (places P n) @ places_from P (Suc k) ns"

fun count_els :: "test \<Rightarrow> JsView.node \<Rightarrow> nat" where
  "count_els P (Text s) = 0"
| "count_els P (Elem t a ns) = (if P t a then 1 else 0) + sum_list (map (count_els P) ns)"

fun node_at :: "nat list \<Rightarrow> JsView.node \<Rightarrow> JsView.node option" where
  "node_at [] n = Some n"
| "node_at (k # p) (Text s) = None"
| "node_at (k # p) (Elem t a ns) = (if k < length ns then node_at p (ns ! k) else None)"

text \<open>The elements below one that pass a test: \<open>querySelectorAll\<close>, or jQuery's \<open>find\<close>.\<close>

definition find_places :: "test \<Rightarrow> JsView.node \<Rightarrow> nat list list" where
  "find_places P n = filter (\<lambda>p. p \<noteq> []) (places P n)"

definition find_els :: "test \<Rightarrow> JsView.node \<Rightarrow> JsView.node list" where
  "find_els P n = map (\<lambda>p. the (node_at p n)) (find_places P n)"

subsection \<open>Editing\<close>

fun update_at :: "nat list \<Rightarrow> (JsView.node \<Rightarrow> JsView.node) \<Rightarrow> JsView.node \<Rightarrow> JsView.node" where
  "update_at [] f n = f n"
| "update_at (k # p) f (Text s) = Text s"
| "update_at (k # p) f (Elem t a ns) = Elem t a (if k < length ns then ns[k := update_at p f (ns ! k)] else ns)"

definition remove_nth :: "nat \<Rightarrow> 'a list \<Rightarrow> 'a list" where
  "remove_nth k xs = take k xs @ drop (Suc k) xs"

fun remove_at :: "nat list \<Rightarrow> JsView.node \<Rightarrow> JsView.node" where
  "remove_at [] n = n"
| "remove_at (k # p) (Text s) = Text s"
| "remove_at (k # p) (Elem t a ns) =
     Elem t a (if p = [] then remove_nth k ns
               else if k < length ns then ns[k := remove_at p (ns ! k)] else ns)"

definition prepend :: "JsView.node \<Rightarrow> JsView.node \<Rightarrow> JsView.node" where
  "prepend c n = (case n of Text s \<Rightarrow> Text s | Elem t a ns \<Rightarrow> Elem t a (c # ns))"

subsection \<open>Counting\<close>

lemma length_places: "length (places P n) = count_els P n"
  and length_places_from: "length (places_from P k ns) = sum_list (map (count_els P) ns)"
  by (induction P n and P k ns rule: places_places_from.induct) simp_all

lemma places_at:
  "p \<in> set (places P n) \<Longrightarrow> \<exists>m. node_at p n = Some m \<and> passes P m"
  and places_from_at:
  "p \<in> set (places_from P k ns) \<Longrightarrow>
     \<exists>i q m. p = (k + i) # q \<and> i < length ns \<and> node_at q (ns ! i) = Some m \<and> passes P m"
proof (induction P n and P k ns arbitrary: p and p rule: places_places_from.induct)
  case (2 P t a ns)
  then show ?case by (fastforce split: if_splits)
next
  case (4 P k n ns)
  from 4(3) consider q where "p = k # q" "q \<in> set (places P n)" | "p \<in> set (places_from P (Suc k) ns)"
    by auto
  then show ?case
  proof cases
    case 1
    with 4(1) show ?thesis by (intro exI [of _ 0]) auto
  next
    case 2
    from 4(2) [OF 2] obtain i q m where "p = (Suc k + i) # q" "i < length ns"
      "node_at q (ns ! i) = Some m" "passes P m" by blast
    then show ?thesis by (intro exI [of _ "Suc i"] exI [of _ q]) auto
  qed
qed auto

lemma sum_list_update_nat:
  fixes xs :: "nat list"
  shows "k < length xs \<Longrightarrow> sum_list (xs[k := y]) + xs ! k = sum_list xs + y"
  by (induction xs arbitrary: k) (auto split: nat.split)

lemma sum_list_remove_nth:
  fixes xs :: "nat list"
  shows "k < length xs \<Longrightarrow> sum_list (remove_nth k xs) + xs ! k = sum_list xs"
proof -
  assume "k < length xs"
  then have "xs = take k xs @ xs ! k # drop (Suc k) xs" by (rule id_take_nth_drop)
  then have "sum_list xs = sum_list (take k xs) + (xs ! k + sum_list (drop (Suc k) xs))"
    by (metis sum_list.append sum_list.Cons)
  then show ?thesis by (simp add: remove_nth_def)
qed

lemma map_remove_nth: "map f (remove_nth k xs) = remove_nth k (map f xs)"
  by (simp add: remove_nth_def take_map drop_map)

lemma count_update:
  "node_at p n = Some m \<Longrightarrow> count_els P (update_at p f n) + count_els P m = count_els P n + count_els P (f m)"
proof (induction p f n rule: update_at.induct)
  case (3 k p f t a ns)
  then have k: "k < length ns" and "node_at p (ns ! k) = Some m" by (auto split: if_splits)
  then show ?case
    using 3 sum_list_update_nat [of k "map (count_els P) ns" "count_els P (update_at p f (ns ! k))"]
    by (simp add: map_update)
qed auto

lemma count_remove:
  "node_at p n = Some m \<Longrightarrow> p \<noteq> [] \<Longrightarrow> count_els P (remove_at p n) + count_els P m = count_els P n"
proof (induction p n rule: remove_at.induct)
  case (3 k p t a ns)
  then have k: "k < length ns" and m: "node_at p (ns ! k) = Some m" by (auto split: if_splits)
  show ?case
  proof (cases "p = []")
    case True
    with m k sum_list_remove_nth [of k "map (count_els P) ns"] show ?thesis
      by (simp add: map_remove_nth)
  next
    case False
    with 3 k m sum_list_update_nat [of k "map (count_els P) ns" "count_els P (remove_at p (ns ! k))"]
    show ?thesis by (simp add: map_update)
  qed
qed auto

lemma count_prepend: "passes (with_tag t) n \<Longrightarrow> count_els P (prepend c n) = count_els P c + count_els P n"
  by (cases n) (simp_all add: prepend_def)

subsection \<open>The elements that pass, in the order of the page\<close>

fun els :: "test \<Rightarrow> JsView.node \<Rightarrow> JsView.node list" where
  "els P (Text s) = []"
| "els P (Elem t a ns) = (if P t a then [Elem t a ns] else []) @ concat (map (els P) ns)"

lemma els_places: "map (\<lambda>p. node_at p n) (places P n) = map Some (els P n)"
  and els_places_from:
  "k = length pre \<Longrightarrow>
     map (\<lambda>p. node_at p (Elem t a (pre @ ns))) (places_from P k ns) = map Some (concat (map (els P) ns))"
proof (induction P n and P k ns arbitrary: and t a pre rule: places_places_from.induct)
  case (2 P t a ns)
  show ?case using 2 [of "[]" t a] by simp
next
  case (4 P k n ns)
  from 4(2) [of "pre @ [n]" t a] 4(1,3) show ?case by (simp add: o_def)
qed simp_all

lemma length_els: "length (els P n) = count_els P n"
  using arg_cong [OF els_places [of n P], of length] by (simp add: length_places)

lemma els_nth: "k < count_els P n \<Longrightarrow> node_at (places P n ! k) n = Some (els P n ! k)"
  using arg_cong [OF els_places [of n P], of "\<lambda>xs. xs ! k"] by (simp add: length_places length_els)

definition getElementById :: "string \<Rightarrow> JsView.node \<Rightarrow> JsView.node option" where
  "getElementById x n = (case els (with_attr ''id'' x) n of [] \<Rightarrow> None | m # ms \<Rightarrow> Some m)"

end
