(* ===== verification/Landing.thy ===== *)
theory Landing
  imports WaitlistApp Dom
begin

text \<open>
  The whole page of the waiting list: the components around the form
  (\<open>Navbar.jsx\<close>, \<open>Hero.jsx\<close>, \<open>Features.jsx\<close> and \<open>Footer.jsx\<close> under \<open>koded-cli/web/frontend/src/components/\<close>)
  in their places in \<open>App_view\<close>, and the button that scrolls to the form.  As in \<open>JsView\<close>, class names are left out,
  and an icon is an element with its component's name; the arrow before a prompt is written as \<open>>\<close>.
\<close>

subsection \<open>The components\<close>

definition link_el :: "jsval obj \<Rightarrow> JsView.node list \<Rightarrow> JsView.node" where
  "link_el a ns = Elem ''a'' a ns"

definition new_tab :: "string \<Rightarrow> jsval obj" where
  "new_tab u = [(''href'', JStr u), (''target'', JStr ''_blank''), (''rel'', JStr ''noopener noreferrer'')]"

definition Navbar_view :: JsView.node where
  "Navbar_view =
     Elem ''nav'' []
       [Elem ''div'' []
         [Elem ''div'' []
           [Elem ''div'' [] [Elem ''FaTerminal'' [] []],
            Elem ''span'' [] [Text ''Koded'', Elem ''span'' [] [Text ''_'']]],
          Elem ''div'' []
           [link_el [(''href'', JStr ''#documentation'')]
              [Elem ''FaBook'' [] [], Elem ''span'' [] [Text ''Documentation'']],
            link_el (new_tab ''https://github.com/Koded0214h/koded-cli'')
              [Elem ''FaGithub'' [] [], Elem ''span'' [] [Text ''GitHub'']]]]]"

definition progress_row :: "string \<Rightarrow> string \<Rightarrow> JsView.node" where
  "progress_row nm done_text =
     Elem ''div'' []
       [Elem ''span'' [] [Text nm], Elem ''div'' [] [Elem ''div'' [] []], Elem ''span'' [] [Text done_text]]"

definition terminal_demo :: JsView.node where
  "terminal_demo =
     Elem ''div'' []
       [Elem ''div'' []
          [Elem ''div'' [] [Elem ''div'' [] [], Elem ''div'' [] [], Elem ''div'' [] []],
           Elem ''div'' [] [Text ''user@dev-machine:~'']],
        Elem ''div'' []
          [Elem ''div'' []
             [Elem ''span'' [] [Text ''>''], Elem ''span'' [] [Text ''koded install --optimize react-native'']],
           Elem ''div'' []
             [Text ''Analyzing dependencies... '', Elem ''span'' [] [Text ''Done (0.4s)''], Elem ''br'' [] [],
              Text ''Optimization engine active.''],
           Elem ''div'' []
             [progress_row ''core-pkg'' ''100%'', progress_row ''native-bridge'' ''75%'', progress_row ''assets'' ''[ PAUSED ]''],
           Elem ''div'' []
             [Elem ''span'' [] [Text ''>''], Elem ''span'' [] [Elem ''span'' [] []]]]]"

definition Hero_view :: JsView.node where
  "Hero_view =
     Elem ''section'' []
       [Elem ''div'' [] [], Elem ''div'' [] [], Elem ''div'' [] [],
        Elem ''div'' []
          [Elem ''div'' []
             [Elem ''span'' [] [Elem ''span'' [] [], Elem ''span'' [] []], Text ''v1.0 Public Beta Soon''],
           Elem ''h1'' []
             [Text ''The CLI that puts you in '', Elem ''br'' [] [], Elem ''span'' [] [Text ''control''],
              Text '' of installations.''],
           Elem ''p'' []
             [Text ''Pause downloads. Resume anywhere. Cross-platform speed. '', Elem ''br'' [] [],
              Text ''Say goodbye to broken dependencies and half-finished builds.''],
           Elem ''div'' []
             [Elem ''button'' [(''onClick'', JStr ''scrollToWaitlist'')] [Elem ''FaRocket'' [] [], Text ''Get Early Access''],
              link_el [(''href'', JStr ''#documentation'')]
                [Elem ''FaBook'' [] [], Text ''Documentation'', Elem ''FaArrowRight'' [] []]],
           terminal_demo]]"

text \<open>A card of \<open>Features\<close>, from its icon, title and description.\<close>

definition FeatureCard :: "string \<times> string \<times> string \<Rightarrow> JsView.node" where
  "FeatureCard f =
     (case f of (icon, title, description) \<Rightarrow>
        Elem ''div'' []
          [Elem ''div'' [] [Elem icon [] []], Elem ''h3'' [] [Text title], Elem ''p'' [] [Text description]])"

definition features :: "(string \<times> string \<times> string) list" where
  "features =
     [(''FaPauseCircle'', ''Pause & Resume'',
       ''Network flakey? Pause your install and resume exactly where you left off, even days later.''),
      (''FaBolt'', ''Hyper Speed'',
       ''Parallelized downloads and optimized caching make Koded up to 5x faster than npm or yarn.''),
      (''FaShieldAlt'', ''Secure Core'',
       ''Every package is scanned in real-time. We sandbox execution scripts to keep your machine safe.''),
      (''FaDesktop'', ''Cross Platform'',
       ''Works identically on macOS, Linux, and Windows. One config file to rule them all.'')]"

definition Features_view :: JsView.node where
  "Features_view = Elem ''section'' [] [Elem ''div'' [] (map FeatureCard features)]"

definition Footer_view :: "int \<Rightarrow> JsView.node" where
  "Footer_view currentYear =
     Elem ''footer'' []
       [Elem ''div'' []
         [Elem ''div'' []
           [Elem ''FaTerminal'' [] [], Elem ''span'' [] [Text ''Koded_''],
            Elem ''span'' [] ([Text [CHR 0xA9, CHR '' '']] @ render_value (JNum currentYear) @ [Text '' Koded CLI Inc.''])],
          Elem ''div'' []
           [link_el [(''href'', JStr ''#'')] [Text ''Privacy''],
            link_el [(''href'', JStr ''#'')] [Text ''Terms''],
            link_el [(''href'', JStr ''#'')] [Elem ''FaTwitter'' [] [], Text ''Twitter''],
            link_el (new_tab ''https://github.com/Koded0214h/koded-cli'') [Elem ''FaGithub'' [] [], Text ''GitHub'']]]]"

subsection \<open>The page\<close>

text \<open>The tree of \<open>App_view\<close> with what its components render.\<close>

fun rendered :: "int \<Rightarrow> JsView.node \<Rightarrow> JsView.node" where
  "rendered y (Text s) = Text s"
| "rendered y (Elem t a ns) =
     (if t = ''Navbar'' then Navbar_view else if t = ''Hero'' then Hero_view
      else if t = ''Features'' then Features_view else if t = ''Footer'' then Footer_view y
      else Elem t a (map (rendered y) ns))"

definition page_view :: "int \<Rightarrow> app \<Rightarrow> JsView.node" where
  "page_view y s = rendered y (App_view s)"

text \<open>The element scrolled into view; \<open>None\<close> for the error on \<open>null\<close>.\<close>

definition scrollToWaitlist :: "JsView.node \<Rightarrow> JsView.node option" where
  "scrollToWaitlist page = getElementById ''waitlist'' page"

lemma rendered_plain:
  "\<forall>m \<in> set (elements n). node_tag m \<notin> {''Navbar'', ''Hero'', ''Features'', ''Footer''} \<Longrightarrow> rendered y n = n"
proof (induction y n rule: rendered.induct)
  case (2 y t a ns)
  then have "map (rendered y) ns = ns" by (intro map_idI) auto
  with 2(2) show ?case by simp
qed simp

lemma value_plain: "map (rendered y) (render_value v) = render_value v"
  by (cases v) (simp_all add: render_value_def)

lemma value_els: "concat (map (els P) (render_value v)) = []" "concat (map elements (render_value v)) = []"
  by (cases v; simp add: render_value_def)+

lemma value_text: "m \<in> set (render_value v) \<Longrightarrow> els P m = [] \<and> elements m = []"
  by (cases v) (auto simp: render_value_def)

lemma banner_plain: "map (rendered y) (error_banner v) = error_banner v"
  by (simp add: error_banner_def value_plain)

lemma dialog_plain: "map (rendered y) (Modal_view b v) = Modal_view b v"
  by (simp add: Modal_view_def value_plain Let_def)

lemma form_plain: "rendered y (WaitlistForm_view fd n b) = WaitlistForm_view fd n b"
  by (simp add: view_defs o_def)

lemma page_eq:
  "page_view y s =
     Elem ''div'' []
       ([Navbar_view,
         Elem ''main'' []
           ([Hero_view, Features_view] @ error_banner (error s) @ [WaitlistForm_view (formData s) (totalUsers s) (loading s)]),
         Footer_view y]
        @ Modal_view (isModalOpen s) (waitlistPosition s))"
  by (simp add: page_view_def App_view_def form_plain banner_plain dialog_plain)

subsection \<open>The form is found\<close>

lemmas landing_defs = Navbar_view_def Hero_view_def terminal_demo_def progress_row_def Features_view_def features_def FeatureCard_def
  Footer_view_def link_el_def new_tab_def

lemma form_root: "\<exists>ns. WaitlistForm_view fd n b = Elem ''section'' [(''id'', JStr ''waitlist'')] ns
    \<and> (\<forall>x. concat (map (els (with_attr ''id'' x)) ns) = [])"
  by (simp add: view_defs with_attr_def o_def)

lemma other_ids:
  "els (with_attr ''id'' x) Navbar_view = []" "els (with_attr ''id'' x) Hero_view = []"
  "els (with_attr ''id'' x) Features_view = []" "els (with_attr ''id'' x) (Footer_view y) = []"
  by (simp_all add: landing_defs with_attr_def value_els)

lemma banner_ids:
  "concat (map (els (with_attr ''id'' x)) (error_banner v)) = []"
  "concat (map (els (with_attr ''id'' x)) (Modal_view b v)) = []"
  by (auto simp: error_banner_def Modal_view_def with_attr_def value_els value_text Let_def)

lemma page_ids:
  "els (with_attr ''id'' x) (page_view y s) =
     (if x = ''waitlist'' then [WaitlistForm_view (formData s) (totalUsers s) (loading s)] else [])"
proof -
  obtain ns where "WaitlistForm_view (formData s) (totalUsers s) (loading s) = Elem ''section'' [(''id'', JStr ''waitlist'')] ns"
    "\<forall>x. concat (map (els (with_attr ''id'' x)) ns) = []" using form_root by blast
  then show ?thesis by (simp add: page_eq other_ids banner_ids with_attr_def)
qed

text \<open>The place the two links to a documentation name is not on the page.\<close>

definition hash_links :: "JsView.node \<Rightarrow> string list" where
  "hash_links n = map (\<lambda>h. drop 1 h)
     (filter (\<lambda>h. take 1 h = ''#'') (map (\<lambda>m. to_string (attr ''href'' m)) (els (with_tag ''a'') n)))"

lemma link_els:
  "els (with_tag ''a'') (WaitlistForm_view fd n b) = []"
  "concat (map (els (with_tag ''a'')) (error_banner v)) = []"
  "concat (map (els (with_tag ''a'')) (Modal_view b' v)) = []"
  by (auto simp: view_defs error_banner_def Modal_view_def with_tag_def value_els value_text o_def Let_def)

lemma documentation_missing:
  "hash_links (page_view y s) = [''documentation'', ''documentation'', [], [], []]"
  "getElementById ''documentation'' (page_view y s) = None"
proof -
  have "els (with_tag ''a'') (page_view y s)
      = els (with_tag ''a'') Navbar_view @ els (with_tag ''a'') Hero_view @ els (with_tag ''a'') (Footer_view y)"
    by (simp add: page_eq link_els) (simp add: with_tag_def Features_view_def features_def FeatureCard_def)
  then show "hash_links (page_view y s) = [''documentation'', ''documentation'', [], [], []]"
    by (simp add: hash_links_def landing_defs with_tag_def value_els)
  show "getElementById ''documentation'' (page_view y s) = None"
    by (simp only: getElementById_def page_ids) simp
qed

subsection \<open>The controls of the page\<close>

definition enabled :: "JsView.node \<Rightarrow> bool" where
  "enabled n \<longleftrightarrow> attr ''disabled'' n \<noteq> JBool True"

definition hero_button :: JsView.node where
  "hero_button = Elem ''button'' [(''onClick'', JStr ''scrollToWaitlist'')] [Elem ''FaRocket'' [] [], Text ''Get Early Access'']"

definition dialog_controls :: "bool \<Rightarrow> JsView.node list" where
  "dialog_controls isOpen =
     (if isOpen
      then [Elem ''button'' [(''onClick'', JStr ''onClose'')]
              [Elem ''div'' [] [], Elem ''span'' [] [Text ''Return to Terminal'', Elem ''FaArrowRight'' [] []]],
            Elem ''button'' [(''onClick'', JStr ''onClose'')] [Text ''Close this window'']]
      else [])"

lemma part_controls:
  "controls Navbar_view = []" "controls Hero_view = [hero_button]" "controls Features_view = []" "controls (Footer_view y) = []"
  "concat (map controls (error_banner v)) = []" "concat (map controls (Modal_view b v)) = dialog_controls b"
  by (auto simp: controls_def [abs_def] landing_defs hero_button_def error_banner_def Modal_view_def dialog_controls_def value_els value_text
      Let_def)

lemma controls_Elem:
  "controls (Elem t a ns) = (if t \<in> {''input'', ''select'', ''button''} then [Elem t a ns] else []) @ concat (map controls ns)"
  by (simp add: controls_def [abs_def] filter_concat o_def)

lemma page_controls:
  "controls (page_view y s) =
     hero_button # controls (WaitlistForm_view (formData s) (totalUsers s) (loading s)) @ dialog_controls (isModalOpen s)"
  by (simp add: page_eq controls_Elem part_controls)

text \<open>
  C12: nothing is sent twice, and the button above finds the form.  In every reachable state the button of the first
  section scrolls to the form, which is there once; and while the reply to a submission is awaited, this button and
  those that close the dialog, if it is open, are the only controls of the whole page that can be used.
\<close>

theorem page_while_sending:
  assumes "app_reach rs s"
  shows "scrollToWaitlist (page_view y s) = Some (WaitlistForm_view (formData s) (totalUsers s) (loading s))
    \<and> (joins s \<noteq> [] \<longrightarrow> filter enabled (controls (page_view y s)) = hero_button # dialog_controls (isModalOpen s))"
proof -
  have "loading s" if "joins s \<noteq> []"
    using app_reach_inv [OF assms] that by (auto simp: app_inv_def split: if_splits)
  moreover have "filter enabled (controls (WaitlistForm_view fd n True)) = []" for fd n
    by (simp add: controls_form_view enabled_def text_input_def source_select_def)
  moreover have "filter enabled (dialog_controls b) = dialog_controls b" "enabled hero_button" for b
    by (simp_all add: dialog_controls_def enabled_def hero_button_def)
  ultimately show ?thesis
    by (simp add: scrollToWaitlist_def getElementById_def page_ids page_controls)
qed

theorem page_while_sending_witness:
  "\<forall>y. filter enabled (controls (page_view y (handleFormSubmit sample_filled))) = [hero_button]"
proof
  fix y
  have "joins (handleFormSubmit sample_filled) \<noteq> []" "\<not> isModalOpen (handleFormSubmit sample_filled)"
    by code_simp+
  then show "filter enabled (controls (page_view y (handleFormSubmit sample_filled))) = [hero_button]"
    using page_while_sending [OF reach_sample_submitted, of y] by (simp add: dialog_controls_def)
qed

end
