(* ===== verification/JsDate.thy ===== *)
theory JsDate
  imports JsPrelude
begin

text \<open>
  JavaScript dates, by the algorithms of the language's specification: a day is its number
  counted from 1 January 1970 in the proleptic Gregorian calendar, months are numbered from 0.
\<close>

definition leap_year :: "int \<Rightarrow> bool" where
  "leap_year y = (4 dvd y \<and> (\<not> 100 dvd y \<or> 400 dvd y))"

definition day_from_year :: "int \<Rightarrow> int" where
  "day_from_year y =
     365 * (y - 1970) + (y - 1969) div 4 - (y - 1901) div 100 + (y - 1601) div 400"

definition year_length :: "int \<Rightarrow> int" where
  "year_length y = (if leap_year y then 366 else 365)"

text \<open>The days of a year before its month \<open>m\<close>.\<close>

definition month_start :: "bool \<Rightarrow> int \<Rightarrow> int" where
  "month_start l m =
     (if m = 0 then 0 else if m = 1 then 31
      else [59, 90, 120, 151, 181, 212, 243, 273, 304, 334] ! nat (m - 2) + (if l then 1 else 0))"

definition month_length :: "int \<Rightarrow> int \<Rightarrow> int" where
  "month_length y m =
     (if m = 11 then 31 else month_start (leap_year y) (m + 1) - month_start (leap_year y) m)"

text \<open>\<open>MakeDay\<close>: months and days out of range carry over.\<close>

definition make_day :: "int \<Rightarrow> int \<Rightarrow> int \<Rightarrow> int" where
  "make_day y m d =
     (let ym = y + m div 12; mn = m mod 12
      in day_from_year ym + month_start (leap_year ym) mn + d - 1)"

definition week_day :: "int \<Rightarrow> int" where
  "week_day n = (n + 4) mod 7"

definition year_of_day :: "int \<Rightarrow> int" where
  "year_of_day n =
     (let e = 1970 + (400 * n) div 146097
      in if n < day_from_year e then e - 1
         else if day_from_year (e + 1) \<le> n then e + 1 else e)"

definition day_in_year :: "int \<Rightarrow> int" where
  "day_in_year n = n - day_from_year (year_of_day n)"

definition month_of_day :: "int \<Rightarrow> int" where
  "month_of_day n =
     (let l = leap_year (year_of_day n); d = day_in_year n
      in int (length (filter (\<lambda>m. month_start l m \<le> d) [1, 2, 3, 4, 5, 6, 7, 8, 9, 10, 11])))"

definition date_of_day :: "int \<Rightarrow> int" where
  "date_of_day n =
     day_in_year n - month_start (leap_year (year_of_day n)) (month_of_day n) + 1"

text \<open>The constructors read a year from 0 to 99 as one of the twentieth century.\<close>

definition full_year :: "int \<Rightarrow> int" where
  "full_year y = (if 0 \<le> y \<and> y \<le> 99 then 1900 + y else y)"

text \<open>\<open>new Date(Date.UTC(y, m, d))\<close>: its day, or \<open>None\<close> for an invalid date, which an
  argument that is not a number or a time beyond the representable range gives.\<close>

definition date_utc :: "int option \<Rightarrow> int option \<Rightarrow> int option \<Rightarrow> int option" where
  "date_utc y m d =
     (case (y, m, d) of
        (Some y, Some m, Some d) \<Rightarrow>
          (let n = make_day (full_year y) m d in if \<bar>n\<bar> \<le> 100000000 then Some n else None)
      | _ \<Rightarrow> None)"

definition valid_date :: "int \<Rightarrow> int \<Rightarrow> int \<Rightarrow> bool" where
  "valid_date y m d = (0 \<le> m \<and> m < 12 \<and> 1 \<le> d \<and> d \<le> month_length y m)"

subsection \<open>The fields of a day are those it was made from\<close>

lemma div_mult_bounds: "(0::int) < b \<Longrightarrow> b * (a div b) \<le> a \<and> a < b * (a div b) + b"
  using mult_div_mod_eq [of b a] pos_mod_bound [of b a] pos_mod_sign [of b a] by linarith

lemma day_bounds:
  fixes A B C y :: int
  assumes "4 * A \<le> y - 1969 \<and> y - 1969 < 4 * A + 4"
    and "100 * B \<le> y - 1901 \<and> y - 1901 < 100 * B + 100"
    and "400 * C \<le> y - 1601 \<and> y - 1601 < 400 * C + 400"
  shows "146097 * (y - 1970) - 506 \<le> 400 * (365 * (y - 1970) + A - B + C)"
    and "400 * (365 * (y - 1970) + A - B + C) \<le> 146097 * (y - 1970) + 589"
  using assms by (simp_all add: algebra_simps)

lemma day_from_year_bounds:
  "146097 * (y - 1970) - 506 \<le> 400 * day_from_year y"
  "400 * day_from_year y \<le> 146097 * (y - 1970) + 589"
  unfolding day_from_year_def
  by (rule day_bounds; rule div_mult_bounds; simp)+

lemma div_next:
  assumes "(0::int) < b"
  shows "(x + 1) div b = x div b + (if b dvd x + 1 then 1 else 0)"
proof -
  define q r where "q = x div b" and "r = x mod b"
  have x: "x = b * q + r" and r: "0 \<le> r" "r < b"
    using assms by (simp_all add: q_def r_def)
  show ?thesis
  proof (cases "r + 1 = b")
    case True
    with x have e: "x + 1 = b * (q + 1)" by (simp add: algebra_simps)
    then have "b dvd x + 1" by simp
    moreover have "(x + 1) div b = q + 1" unfolding e using assms by simp
    ultimately show ?thesis by (simp add: q_def)
  next
    case False
    with r x have e: "x + 1 = b * q + (r + 1)" "0 \<le> r + 1" "r + 1 < b" by simp_all
    then have d: "(x + 1) div b = q" and "(x + 1) mod b = r + 1"
      by (auto intro: int_div_pos_eq int_mod_pos_eq)
    with r have "\<not> b dvd x + 1" by (simp add: dvd_eq_mod_eq_0)
    with d show ?thesis by (simp add: q_def)
  qed
qed

lemma div_next_offset:
  assumes "(0::int) < b" and "b dvd k - 1"
  shows "(y + 1 - k) div b = (y - k) div b + (if b dvd y then 1 else 0)"
proof -
  have "y - k + 1 = y - (k - 1)" by simp
  then have "b dvd y - k + 1 \<longleftrightarrow> b dvd y"
    using assms(2) by (metis dvd_diff_right_iff dvd_diff_left_iff)
  moreover have "y + 1 - k = y - k + 1" by simp
  ultimately show ?thesis using div_next [OF assms(1), of "y - k"] by metis
qed

lemma leap_count:
  fixes A B C y :: int
  assumes "r \<Longrightarrow> q" and "q \<Longrightarrow> p"
  shows "365 * (y + 1 - 1970) + (A + (if p then 1 else 0)) - (B + (if q then 1 else 0))
      + (C + (if r then 1 else 0))
    = 365 * (y - 1970) + A - B + C + (if p \<and> (\<not> q \<or> r) then 366 else 365)"
proof -
  have "(if p \<and> (\<not> q \<or> r) then 366 else 365) =
      365 + (if p then 1 else 0) - (if q then 1 else 0) + (if r then 1 else (0::int))"
    using assms by (cases p; cases q; cases r) simp_all
  moreover have "365 * (y + 1 - 1970) + (A + u) - (B + v) + (C + w)
      = 365 * (y - 1970) + A - B + C + (365 + u - v + w)" for u v w
    by simp
  ultimately show ?thesis by (simp only:)
qed

lemma day_from_year_next: "day_from_year (y + 1) = day_from_year y + year_length y"
proof -
  have a: "(y + 1 - 1969) div 4 = (y - 1969) div 4 + (if 4 dvd y then 1 else 0)"
    by (rule div_next_offset) simp_all
  have b: "(y + 1 - 1901) div 100 = (y - 1901) div 100 + (if 100 dvd y then 1 else 0)"
    by (rule div_next_offset) simp_all
  have c: "(y + 1 - 1601) div 400 = (y - 1601) div 400 + (if 400 dvd y then 1 else 0)"
    by (rule div_next_offset) simp_all
  have d: "(100::int) dvd 400" "(4::int) dvd 100" by simp_all
  show ?thesis
    unfolding day_from_year_def a b c year_length_def leap_year_def
    by (rule leap_count) (rule dvd_trans [OF d(1)] dvd_trans [OF d(2)], assumption)+
qed

lemma day_from_year_step: "day_from_year y < day_from_year (y + 1)"
  by (simp add: day_from_year_next year_length_def)

lemma day_from_year_mono: "a \<le> b \<Longrightarrow> day_from_year a \<le> day_from_year b"
proof (induction "nat (b - a)" arbitrary: b)
  case (Suc k)
  then have "k = nat (b - 1 - a)" "a \<le> b - 1" by auto
  from Suc.hyps(1) [OF this] have "day_from_year a \<le> day_from_year (b - 1)" .
  with day_from_year_step [of "b - 1"] show ?case by simp
qed simp

lemma year_of_day_eq:
  assumes "day_from_year y \<le> n" and "n < day_from_year (y + 1)"
  shows "year_of_day n = y"
proof -
  define e where "e = 1970 + (400 * n) div 146097"
  have e: "146097 * (e - 1970) \<le> 400 * n" "400 * n < 146097 * (e - 1970) + 146097"
    using div_mult_bounds [of 146097 "400 * n", OF zero_less_numeral] by (simp_all add: e_def)
  from day_from_year_bounds(1) [of y] assms(1) e(2) have "y \<le> e + 1"
    by (simp add: algebra_simps)
  moreover from day_from_year_bounds(2) [of "y + 1"] assms(2) e(1) have "e \<le> y + 1"
    by (simp add: algebra_simps)
  ultimately consider "e = y" | "e = y + 1" | "e = y - 1" by linarith
  then show ?thesis
  proof cases
    case 1
    with assms show ?thesis by (simp add: year_of_day_def flip: e_def)
  next
    case 2
    with assms show ?thesis by (simp add: year_of_day_def flip: e_def)
  next
    case 3
    with assms day_from_year_step [of "y - 1"] show ?thesis
      by (simp add: year_of_day_def flip: e_def)
  qed
qed

lemma month_cases:
  assumes "(0::int) \<le> m" and "m < 12"
  shows "m \<in> {0, 1, 2, 3, 4, 5, 6, 7, 8, 9, 10, 11}"
  using assms by simp presburger

lemmas month_eval = month_start_def month_length_def

lemma make_day_in_year:
  "0 \<le> m \<Longrightarrow> m < 12 \<Longrightarrow>
     make_day y m d = day_from_year y + month_start (leap_year y) m + d - 1"
  by (simp add: make_day_def div_pos_pos_trivial)

lemma valid_date_day:
  assumes "valid_date y m d"
  shows "0 \<le> month_start (leap_year y) m + d - 1"
    and "month_start (leap_year y) m + d - 1 < year_length y"
  using assms month_cases [of m]
  by (auto simp: valid_date_def month_eval year_length_def split: if_splits)

lemma year_of_make_day:
  assumes "valid_date y m d"
  shows "year_of_day (make_day y m d) = y"
proof (rule year_of_day_eq)
  from assms have m: "0 \<le> m" "m < 12" by (simp_all add: valid_date_def)
  show "day_from_year y \<le> make_day y m d" "make_day y m d < day_from_year (y + 1)"
    using valid_date_day [OF assms] by (simp_all add: make_day_in_year [OF m] day_from_year_next)
qed

lemma day_in_year_make_day:
  "valid_date y m d \<Longrightarrow> day_in_year (make_day y m d) = month_start (leap_year y) m + d - 1"
  using year_of_make_day [of y m d]
  by (simp add: day_in_year_def make_day_in_year valid_date_def)

lemma month_index:
  assumes "m \<in> {0, 1, 2, 3, 4, 5, 6, 7, 8, 9, 10, 11}"
    and "month_start l m \<le> k" and "m = 11 \<or> k < month_start l (m + 1)"
  shows "int (length (filter (\<lambda>j. month_start l j \<le> k) [1, 2, 3, 4, 5, 6, 7, 8, 9, 10, 11])) = m"
  using assms by (cases l; elim insertE emptyE) (simp_all add: month_start_def)

lemma month_of_make_day:
  assumes "valid_date y m d"
  shows "month_of_day (make_day y m d) = m"
proof -
  have "month_start (leap_year y) m \<le> month_start (leap_year y) m + d - 1"
    "m = 11 \<or> month_start (leap_year y) m + d - 1 < month_start (leap_year y) (m + 1)"
    using assms by (auto simp: valid_date_def month_length_def split: if_splits)
  moreover have "0 \<le> m" "m < 12" using assms by (simp_all add: valid_date_def)
  ultimately show ?thesis
    unfolding month_of_day_def Let_def year_of_make_day [OF assms] day_in_year_make_day [OF assms]
    by (intro month_index month_cases)
qed

lemma date_of_make_day:
  "valid_date y m d \<Longrightarrow> date_of_day (make_day y m d) = d"
  by (simp add: date_of_day_def month_of_make_day year_of_make_day day_in_year_make_day)

text \<open>Going a day on goes to the next column of the week.\<close>

lemma week_day_add: "week_day (n + k) = (week_day n + k) mod 7"
  by (simp add: week_day_def mod_simps ac_simps)

lemma make_day_add: "make_day y m (d + k) = make_day y m d + k"
  by (simp add: make_day_def Let_def)

lemma make_day_bound:
  assumes "valid_date y m d" and "\<bar>y\<bar> \<le> 200000"
  shows "\<bar>make_day y m d\<bar> \<le> 100000000"
proof -
  from assms(1) have "make_day y m d = day_from_year y + (month_start (leap_year y) m + d - 1)"
    by (simp add: make_day_in_year valid_date_def)
  moreover have "year_length y \<le> 366" by (simp add: year_length_def)
  ultimately show ?thesis
    using valid_date_day [OF assms(1)] day_from_year_bounds [of y] assms(2)
    by (simp add: abs_le_iff algebra_simps)
qed

text \<open>Every day is the one its fields name.\<close>

lemma year_of_day_bounds:
  "day_from_year (year_of_day n) \<le> n" "n < day_from_year (year_of_day n + 1)"
proof -
  define e where "e = 1970 + (400 * n) div 146097"
  have e: "146097 * (e - 1970) \<le> 400 * n" "400 * n < 146097 * (e - 1970) + 146097"
    using div_mult_bounds [of 146097 "400 * n", OF zero_less_numeral] by (simp_all add: e_def)
  have lo: "day_from_year (e - 1) \<le> n"
    using day_from_year_bounds(2) [of "e - 1"] e(1) by (simp add: algebra_simps)
  have hi: "n < day_from_year (e + 1 + 1)"
    using day_from_year_bounds(1) [of "e + 1 + 1"] e(2) by (simp add: algebra_simps)
  show "day_from_year (year_of_day n) \<le> n" "n < day_from_year (year_of_day n + 1)"
    using lo hi by (auto simp: year_of_day_def simp flip: e_def)
qed

lemma month_exists:
  assumes "0 \<le> k" and "k < (if l then 366 else 365)"
  shows "\<exists>m \<in> {0, 1, 2, 3, 4, 5, 6, 7, 8, 9, 10, 11}.
    month_start l m \<le> k \<and> (m = 11 \<or> k < month_start l (m + 1))"
proof (rule ccontr)
  assume n: "\<not> ?thesis"
  have step: "m \<noteq> 11 \<and> month_start l (m + 1) \<le> k"
    if "m \<in> {0, 1, 2, 3, 4, 5, 6, 7, 8, 9, 10, 11}" "month_start l m \<le> k" for m
  proof -
    from n that have "\<not> (m = 11 \<or> k < month_start l (m + 1))" by blast
    then show ?thesis by (simp only: de_Morgan_disj not_less not_False_eq_True)
  qed
  have m0: "month_start l 0 \<le> k" using assms(1) by (simp add: month_start_def)
  from step [of 0] m0 have m1: "month_start l 1 \<le> k" by simp
  from step [of 1] m1 have m2: "month_start l 2 \<le> k" by simp
  from step [of 2] m2 have m3: "month_start l 3 \<le> k" by simp
  from step [of 3] m3 have m4: "month_start l 4 \<le> k" by simp
  from step [of 4] m4 have m5: "month_start l 5 \<le> k" by simp
  from step [of 5] m5 have m6: "month_start l 6 \<le> k" by simp
  from step [of 6] m6 have m7: "month_start l 7 \<le> k" by simp
  from step [of 7] m7 have m8: "month_start l 8 \<le> k" by simp
  from step [of 8] m8 have m9: "month_start l 9 \<le> k" by simp
  from step [of 9] m9 have m10: "month_start l 10 \<le> k" by simp
  from step [of 10] m10 have m11: "month_start l 11 \<le> k" by simp
  from step [of 11] m11 show False by simp
qed

lemma fields_of_day:
  "valid_date (year_of_day n) (month_of_day n) (date_of_day n)
   \<and> make_day (year_of_day n) (month_of_day n) (date_of_day n) = n"
proof -
  let ?l = "leap_year (year_of_day n)"
  have k: "0 \<le> day_in_year n" "day_in_year n < year_length (year_of_day n)"
    using year_of_day_bounds [of n] by (simp_all add: day_in_year_def day_from_year_next)
  from month_exists [OF k(1) k(2) [unfolded year_length_def]] obtain m where
    m: "m \<in> {0, 1, 2, 3, 4, 5, 6, 7, 8, 9, 10, 11}" "month_start ?l m \<le> day_in_year n"
      "m = 11 \<or> day_in_year n < month_start ?l (m + 1)"
    by (elim bexE conjE)
  have mo: "month_of_day n = m"
    unfolding month_of_day_def Let_def by (rule month_index) fact+
  have r: "0 \<le> m" "m < 12" using m(1) by auto
  have "day_in_year n - month_start ?l m + 1 \<le> month_length (year_of_day n) m"
    using m(3) k(2) by (auto simp: month_length_def year_length_def month_start_def split: if_splits)
  with m(2) r have "valid_date (year_of_day n) m (date_of_day n)"
    by (simp add: valid_date_def date_of_day_def mo)
  moreover have "make_day (year_of_day n) m (date_of_day n) = n"
    by (simp add: make_day_in_year [OF r] date_of_day_def mo day_in_year_def)
  ultimately show ?thesis by (simp add: mo)
qed

end
