(* ===== verification/AdminCore.thy ===== *)
theory AdminCore
  imports JsDate JsView
begin

text \<open>
  The helper functions of the admin (\<open>koded-cli/web/backend/staticfiles/admin/js/core.js\<close>):
  building elements, positions on the page, and formatting and parsing dates.
\<close>

subsection \<open>Elements\<close>

text \<open>\<open>quickElement(tag, parent, text, k, v, \<dots>)\<close> without the call that appends the element to
  its parent; an empty text makes no text node.\<close>

definition quickElement :: "string \<Rightarrow> string \<Rightarrow> jsval obj \<Rightarrow> node" where
  "quickElement tag txt ats =
     Elem tag (obj_assign [] ats) (if txt = [] then [] else [Text txt])"

definition appendChild :: "node \<Rightarrow> node \<Rightarrow> node" where
  "appendChild p c = (case p of Text s \<Rightarrow> Text s | Elem t ats ns \<Rightarrow> Elem t ats (ns @ [c]))"

fun childNodes :: "node \<Rightarrow> node list" where
  "childNodes (Text s) = []"
| "childNodes (Elem t ats ns) = ns"

function removeChildren :: "node \<Rightarrow> node" where
  "removeChildren (Text s) = Text s"
| "removeChildren (Elem t ats ns) =
     (if ns \<noteq> [] then removeChildren (Elem t ats (butlast ns)) else Elem t ats ns)"
  by pat_completeness auto
termination
  by (relation "measure (\<lambda>n. length (childNodes n))") auto

declare removeChildren.simps [simp del]

text \<open>An element and its chain of offset parents, the last one without a parent of its own.\<close>

record placed =
  offsetLeft :: int
  offsetTop :: int
  scrollLeft :: int
  scrollTop :: int
  pos_x :: int
  pos_y :: int

fun sum_offsets :: "(placed \<Rightarrow> int) \<Rightarrow> placed list \<Rightarrow> int" where
  "sum_offsets f (e # p # ps) = f e + sum_offsets f (p # ps)"
| "sum_offsets f es = 0"

fun findPosX :: "placed list \<Rightarrow> int" where
  "findPosX [e] = (if pos_x e \<noteq> 0 then pos_x e else 0)"
| "findPosX es = sum_offsets (\<lambda>e. offsetLeft e - scrollLeft e) es"

fun findPosY :: "placed list \<Rightarrow> int" where
  "findPosY [e] = (if pos_y e \<noteq> 0 then pos_y e else 0)"
| "findPosY es = sum_offsets (\<lambda>e. offsetTop e - scrollTop e) es"

subsection \<open>Dates\<close>

text \<open>The local fields of a date, and its three renderings that depend on the locale.\<close>

record local_date =
  getFullYear :: int
  getMonth :: int
  getDate :: int
  getHours :: int
  getMinutes :: int
  getSeconds :: int
  getDay :: int
  date_toString :: string
  toLocaleDateString :: string
  toLocaleTimeString :: string

text \<open>The names of \<open>CalendarNamespace\<close>, when that script is loaded.\<close>

record calendar_names =
  daysOfWeek :: "string list"
  daysOfWeekAbbrev :: "string list"
  monthsOfYear :: "string list"
  monthsOfYearAbbrev :: "string list"

definition getTwelveHours :: "local_date \<Rightarrow> int" where
  "getTwelveHours d = (if getHours d mod 12 \<noteq> 0 then getHours d mod 12 else 12)"

definition getTwoDigitMonth :: "local_date \<Rightarrow> string" where
  "getTwoDigitMonth d =
     (if getMonth d < 9 then ''0'' @ show_int (getMonth d + 1) else show_int (getMonth d + 1))"

definition getTwoDigitDate :: "local_date \<Rightarrow> string" where
  "getTwoDigitDate d =
     (if getDate d < 10 then ''0'' @ show_int (getDate d) else show_int (getDate d))"

definition getTwoDigitTwelveHour :: "local_date \<Rightarrow> string" where
  "getTwoDigitTwelveHour d =
     (if getTwelveHours d < 10 then ''0'' @ show_int (getTwelveHours d)
      else show_int (getTwelveHours d))"

definition getTwoDigitHour :: "local_date \<Rightarrow> string" where
  "getTwoDigitHour d =
     (if getHours d < 10 then ''0'' @ show_int (getHours d) else show_int (getHours d))"

definition getTwoDigitMinute :: "local_date \<Rightarrow> string" where
  "getTwoDigitMinute d =
     (if getMinutes d < 10 then ''0'' @ show_int (getMinutes d) else show_int (getMinutes d))"

definition getTwoDigitSecond :: "local_date \<Rightarrow> string" where
  "getTwoDigitSecond d =
     (if getSeconds d < 10 then ''0'' @ show_int (getSeconds d) else show_int (getSeconds d))"

text \<open>Reading an array out of range gives \<open>undefined\<close>.\<close>

definition name_at :: "string list \<Rightarrow> int \<Rightarrow> string" where
  "name_at xs i = (if 0 \<le> i \<and> i < int (length xs) then xs ! nat i else ''undefined'')"

definition getAbbrevDayName :: "calendar_names option \<Rightarrow> local_date \<Rightarrow> string" where
  "getAbbrevDayName ns d =
     (case ns of None \<Rightarrow> ''0'' @ show_int (getDay d) | Some n \<Rightarrow> name_at (daysOfWeekAbbrev n) (getDay d))"

definition getFullDayName :: "calendar_names option \<Rightarrow> local_date \<Rightarrow> string" where
  "getFullDayName ns d =
     (case ns of None \<Rightarrow> ''0'' @ show_int (getDay d) | Some n \<Rightarrow> name_at (daysOfWeek n) (getDay d))"

definition getAbbrevMonthName :: "calendar_names option \<Rightarrow> local_date \<Rightarrow> string" where
  "getAbbrevMonthName ns d =
     (case ns of None \<Rightarrow> getTwoDigitMonth d | Some n \<Rightarrow> name_at (monthsOfYearAbbrev n) (getMonth d))"

definition getFullMonthName :: "calendar_names option \<Rightarrow> local_date \<Rightarrow> string" where
  "getFullMonthName ns d =
     (case ns of None \<Rightarrow> getTwoDigitMonth d | Some n \<Rightarrow> name_at (monthsOfYear n) (getMonth d))"

text \<open>The table of \<open>strftime\<close>; a letter that is not in it reads \<open>undefined\<close>.\<close>

definition strftime_field :: "calendar_names option \<Rightarrow> local_date \<Rightarrow> char \<Rightarrow> string" where
  "strftime_field ns d c =
     (case map_of
        [(CHR ''a'', getAbbrevDayName ns d), (CHR ''A'', getFullDayName ns d),
         (CHR ''b'', getAbbrevMonthName ns d), (CHR ''B'', getFullMonthName ns d),
         (CHR ''c'', date_toString d), (CHR ''d'', getTwoDigitDate d),
         (CHR ''H'', getTwoDigitHour d), (CHR ''I'', getTwoDigitTwelveHour d),
         (CHR ''m'', getTwoDigitMonth d), (CHR ''M'', getTwoDigitMinute d),
         (CHR ''p'', if getHours d \<ge> 12 then ''PM'' else ''AM''),
         (CHR ''S'', getTwoDigitSecond d), (CHR ''w'', ''0'' @ show_int (getDay d)),
         (CHR ''x'', toLocaleDateString d), (CHR ''X'', toLocaleTimeString d),
         (CHR ''y'', take 4 (drop 2 (show_int (getFullYear d)))),
         (CHR ''Y'', show_int (getFullYear d)), (CHR ''%'', ''%'')] c
      of None \<Rightarrow> ''undefined'' | Some s \<Rightarrow> s)"

fun strftime :: "calendar_names option \<Rightarrow> local_date \<Rightarrow> string \<Rightarrow> string" where
  "strftime ns d [] = []"
| "strftime ns d [c] = (if c = CHR ''%'' then ''undefined'' else [c])"
| "strftime ns d (c # e # fmt) =
     (if c = CHR ''%'' then strftime_field ns d e @ strftime ns d fmt
      else c # strftime ns d (e # fmt))"

text \<open>
  The conversion of an argument of \<open>Date.UTC\<close> to a number, on the decimal integers (an empty
  string is 0); any other text is no number here, which leaves out the literals with an exponent
  or a radix prefix.
\<close>

definition to_number :: "string \<Rightarrow> int option" where
  "to_number s =
     (let t = trim s;
          neg = starts_with t ''-'';
          u = (if starts_with t ''-'' \<or> starts_with t ''+'' then drop 1 t else t)
      in if t = [] then Some 0
         else if u = [] \<or> \<not> list_all is_digit u then None
         else Some (if neg then - int (digits_val u) else int (digits_val u)))"

definition date_sep :: "char \<Rightarrow> bool" where
  "date_sep c = (c = CHR ''.'' \<or> c = CHR ''-'' \<or> c = CHR ''/'')"

text \<open>
  The two branches of \<open>%y\<close>.  A missing part is \<open>undefined\<close>, no number; in the second branch the
  year read back from the date of the part's year is moved on by a century.
\<close>

definition short_year :: "string option \<Rightarrow> int option" where
  "short_year part =
     (let n = Option.bind part to_number in
      if (case Option.bind part parse_int of None \<Rightarrow> False | Some i \<Rightarrow> i \<ge> 69) then n
      else map_option (\<lambda>day. year_of_day day + 100) (date_utc n (Some 0) (Some 1)))"

fun strptime_loop ::
  "string list \<Rightarrow> string list \<Rightarrow> int option \<times> int option \<times> int option
     \<Rightarrow> int option \<times> int option \<times> int option" where
  "strptime_loop [] parts r = r"
| "strptime_loop (f # fs) parts (y, m, d) =
     (let part = (case parts of [] \<Rightarrow> None | p # _ \<Rightarrow> Some p);
          n = Option.bind part to_number
      in strptime_loop fs (drop 1 parts)
           (if f = ''%d'' then (y, m, n)
            else if f = ''%m'' then (y, map_option (\<lambda>i. i - 1) n, d)
            else if f = ''%Y'' then (n, m, d)
            else if f = ''%y'' then (short_year part, m, d)
            else (y, m, d)))"

text \<open>The day of \<open>s.strptime(format)\<close>, \<open>None\<close> for an invalid date.\<close>

definition strptime :: "string \<Rightarrow> string \<Rightarrow> int option" where
  "strptime s fmt =
     (case strptime_loop (split_by date_sep fmt) (split_by date_sep s) (None, None, None)
      of (y, m, d) \<Rightarrow> date_utc y m d)"

subsection \<open>Printing and parsing a date\<close>

lemma removeChildren_Elem: "removeChildren (Elem t ats ns) = Elem t ats []"
  by (induction ns rule: rev_induct)
    (subst removeChildren.simps, simp add: removeChildren.simps(2) [of _ _ "[]"])+

lemma trim_digits:
  assumes "\<forall>c \<in> set s. is_digit c"
  shows "trim s = s"
proof -
  have "dropWhile is_ws u = u" if "\<forall>c \<in> set u. is_digit c" for u
    using that by (cases u) auto
  from this [of s] this [of "rev s"] assms show ?thesis by (simp add: trim_def)
qed

lemma to_number_digits:
  assumes "s \<noteq> []" and "\<forall>c \<in> set s. is_digit c"
  shows "to_number s = Some (int (digits_val s))"
proof -
  from assms obtain c u where s: "s = c # u" "is_digit c" by (cases s) auto
  then have "\<not> starts_with s ''-''" "\<not> starts_with s ''+''"
    by (auto simp: starts_with_def is_digit_def)
  then show ?thesis
    using assms by (simp add: to_number_def trim_digits list_all_iff Let_def)
qed

lemma digits_val_zero [simp]: "digits_val (CHR ''0'' # s) = digits_val s"
  by (simp add: digits_val_def digit_val_def)

lemma zero_digit [simp]: "is_digit (CHR ''0'')"
  by (simp add: is_digit_def)

text \<open>A number printed with or without a leading zero.\<close>

definition digits_of :: "int \<Rightarrow> string \<Rightarrow> bool" where
  "digits_of n s = (s \<noteq> [] \<and> (\<forall>c \<in> set s. is_digit c) \<and> int (digits_val s) = n)"

lemma digits_of_show [simp]: "0 \<le> n \<Longrightarrow> digits_of n (show_int n)"
  by (auto simp: digits_of_def show_int_def dest: show_nat_digits)

lemma digits_of_zero: "digits_of n s \<Longrightarrow> digits_of n (CHR ''0'' # s)"
  by (simp add: digits_of_def)

lemma digits_of_number: "digits_of n s \<Longrightarrow> to_number s = Some n"
  by (simp add: digits_of_def to_number_digits)

lemma digits_of_parse: "digits_of n s \<Longrightarrow> parse_int s = Some n"
  by (simp add: digits_of_def parse_int_digits)

lemma digits_of_no_sep: "digits_of n s \<Longrightarrow> \<forall>c \<in> set s. \<not> date_sep c"
  by (auto simp: digits_of_def date_sep_def is_digit_def)

lemma digits_of_date: "0 \<le> getDate d \<Longrightarrow> digits_of (getDate d) (getTwoDigitDate d)"
  by (simp add: getTwoDigitDate_def digits_of_zero)

lemma digits_of_month: "0 \<le> getMonth d \<Longrightarrow> digits_of (getMonth d + 1) (getTwoDigitMonth d)"
  by (simp add: getTwoDigitMonth_def digits_of_zero)

lemma show_nat_4:
  assumes "1000 \<le> n" and "n < 10000"
  shows "show_nat n = [digit_char (n div 1000), digit_char (n div 100 mod 10),
    digit_char (n div 10 mod 10), digit_char (n mod 10)]"
proof -
  have "n div 1000 < 10" "\<not> n div 100 < 10" "\<not> n div 10 < 10" "\<not> n < 10" using assms by simp_all
  then show ?thesis
    by (simp add: show_nat.simps [of n] show_nat.simps [of "n div 10"] show_nat.simps [of "n div 100"]
        show_nat.simps [of "n div 1000"] div_mult2_eq [symmetric])
qed

lemma short_year_digits:
  assumes "1000 \<le> y" and "y < 10000"
  shows "digits_of (y mod 100) (take 4 (drop 2 (show_int y)))"
proof -
  obtain n where n: "y = int n" "1000 \<le> n" "n < 10000"
    using assms by (metis nonneg_int_cases of_nat_less_iff of_nat_numeral of_nat_le_iff
        order_trans zero_le_numeral)
  have "n mod 100 = 10 * (n div 10 mod 10) + n mod 10"
    using mod_mult2_eq [of n 10 10] by simp
  then have "digits_val (take 4 (drop 2 (show_int y))) = n mod 100"
    using n by (simp add: show_int_def show_nat_4 digits_val_def)
  moreover have "y mod 100 = int (n mod 100)" by (simp add: n(1) zmod_int)
  ultimately show ?thesis
    using n by (simp add: digits_of_def show_int_def show_nat_4)
qed

lemma short_year_back:
  assumes "1969 \<le> y" and "y \<le> 2068" and "digits_of (y mod 100) s"
  shows "\<exists>r. short_year (Some s) = Some r \<and> full_year r = y"
proof (cases "y mod 100 \<ge> 69")
  case True
  with assms(1,2) have "1900 + y mod 100 = y" by presburger
  then have "full_year (y mod 100) = y" by (simp add: full_year_def)
  with True assms(3) show ?thesis
    by (simp add: short_year_def digits_of_number digits_of_parse)
next
  case False
  have k: "0 \<le> y mod 100" "y mod 100 \<le> 99" "1900 + y mod 100 + 100 = y"
    using False assms(1,2) by presburger+
  have v: "valid_date (1900 + y mod 100) 0 1"
    by (simp add: valid_date_def month_length_def month_start_def)
  with k have "date_utc (Some (y mod 100)) (Some 0) (Some 1)
      = Some (make_day (1900 + y mod 100) 0 1)"
    using make_day_bound [OF v] by (simp add: date_utc_def full_year_def)
  with False assms(3) show ?thesis
    using k assms(1,2) year_of_make_day [OF v]
    by (simp add: short_year_def digits_of_number digits_of_parse full_year_def)
qed

lemma strftime_two: "strftime ns d (CHR ''%'' # e # fmt) = strftime_field ns d e @ strftime ns d fmt"
  by simp

lemma strftime_sep: "date_sep c \<Longrightarrow> strftime ns d (c # fmt) = c # strftime ns d fmt"
  by (cases fmt) (auto simp: date_sep_def)

text \<open>A format of three parts, and the text it prints.\<close>

definition format3 :: "char \<Rightarrow> char \<Rightarrow> char \<Rightarrow> char \<Rightarrow> char \<Rightarrow> string" where
  "format3 f a g b h = [CHR ''%'', f, a, CHR ''%'', g, b, CHR ''%'', h]"

lemma split3:
  assumes "date_sep a" and "date_sep b" and "\<forall>c \<in> set u. \<not> date_sep c"
    and "\<forall>c \<in> set v. \<not> date_sep c" and "\<forall>c \<in> set w. \<not> date_sep c"
  shows "split_by date_sep (u @ a # v @ b # w) = [u, v, w]"
  using assms by (simp add: split_by_append split_by_none)

lemma perm3:
  assumes "{f, g, h} = {x, y, z}" and "x \<noteq> y" and "x \<noteq> z" and "y \<noteq> z"
  shows "f = x \<and> g = y \<and> h = z \<or> f = x \<and> g = z \<and> h = y \<or> f = y \<and> g = x \<and> h = z
    \<or> f = y \<and> g = z \<and> h = x \<or> f = z \<and> g = x \<and> h = y \<or> f = z \<and> g = y \<and> h = x"
proof -
  have m: "f \<in> {x, y, z}" "g \<in> {x, y, z}" "h \<in> {x, y, z}"
    and n: "x \<in> {f, g, h}" "y \<in> {f, g, h}" "z \<in> {f, g, h}"
    using assms(1) by blast+
  from m show ?thesis
    by (elim insertE emptyE) (use n assms(2-4) in \<open>simp_all\<close>)
qed

lemma strftime_format3:
  assumes "date_sep a" and "date_sep b"
  shows "strftime ns d (format3 f a g b h) =
    strftime_field ns d f @ a # strftime_field ns d g @ b # strftime_field ns d h"
  unfolding format3_def strftime_two strftime_sep [OF assms(1)] strftime_sep [OF assms(2)]
  by simp

lemma split_format3:
  assumes "date_sep a" and "date_sep b" and "{f, g, h} = {CHR ''d'', CHR ''m'', yc}"
    and "yc \<in> {CHR ''Y'', CHR ''y''}"
  shows "split_by date_sep (format3 f a g b h) = [[CHR ''%'', f], [CHR ''%'', g], [CHR ''%'', h]]"
proof -
  have "\<not> date_sep c" if "c \<in> {CHR ''%'', f, g, h}" for c
    using that assms(3,4) by (auto simp: date_sep_def)
  then show ?thesis
    using split3 [OF assms(1,2), of "[CHR ''%'', f]" "[CHR ''%'', g]" "[CHR ''%'', h]"]
    by (simp add: format3_def)
qed

text \<open>What the year code prints reads back as the year.\<close>

definition year_code_ok :: "char \<Rightarrow> int \<Rightarrow> bool" where
  "year_code_ok yc y =
     (yc = CHR ''Y'' \<and> 100 \<le> y \<and> y \<le> 200000 \<or> yc = CHR ''y'' \<and> 1969 \<le> y \<and> y \<le> 2068)"

lemma year_code_field:
  assumes "year_code_ok yc (getFullYear d)"
  shows "\<exists>n. digits_of n (strftime_field ns d yc)
    \<and> full_year (case if yc = CHR ''Y'' then Some n else short_year (Some (strftime_field ns d yc))
                 of None \<Rightarrow> 0 | Some r \<Rightarrow> r) = getFullYear d
    \<and> (yc = CHR ''y'' \<longrightarrow> short_year (Some (strftime_field ns d yc)) \<noteq> None)"
proof (cases "yc = CHR ''Y''")
  case True
  with assms have "100 \<le> getFullYear d" by (simp add: year_code_ok_def)
  then have "digits_of (getFullYear d) (strftime_field ns d yc)"
    using True by (simp add: strftime_field_def)
  with True \<open>100 \<le> getFullYear d\<close> show ?thesis by (auto simp: full_year_def)
next
  case False
  with assms have y: "yc = CHR ''y''" "1969 \<le> getFullYear d" "getFullYear d \<le> 2068"
    by (auto simp: year_code_ok_def)
  then have f: "digits_of (getFullYear d mod 100) (strftime_field ns d yc)"
    using short_year_digits [of "getFullYear d"] by (simp add: strftime_field_def)
  from short_year_back [OF y(2,3) f] f False show ?thesis by auto
qed

lemma date_utc_valid:
  assumes "valid_date y m d" and "\<bar>y\<bar> \<le> 200000" and "full_year r = y"
  shows "date_utc (Some r) (Some m) (Some d) = Some (make_day y m d)"
  using make_day_bound [OF assms(1,2)] assms(3) by (simp add: date_utc_def)

lemma loop_step:
  "strptime_loop ([CHR ''%'', CHR ''d''] # fs) (p # ps) (y, m, d) =
     strptime_loop fs ps (y, m, to_number p)"
  "strptime_loop ([CHR ''%'', CHR ''m''] # fs) (p # ps) (y, m, d) =
     strptime_loop fs ps (y, map_option (\<lambda>i. i - 1) (to_number p), d)"
  "strptime_loop ([CHR ''%'', CHR ''Y''] # fs) (p # ps) (y, m, d) =
     strptime_loop fs ps (to_number p, m, d)"
  "strptime_loop ([CHR ''%'', CHR ''y''] # fs) (p # ps) (y, m, d) =
     strptime_loop fs ps (short_year (Some p), m, d)"
  by (simp_all add: Let_def)

text \<open>What \<open>strptime\<close> reads in the text of a date, for every order of the three parts.\<close>

lemma strptime_format3:
  assumes "valid_date (getFullYear d) (getMonth d) (getDate d)"
    and "year_code_ok yc (getFullYear d)" and "{f, g, h} = {CHR ''d'', CHR ''m'', yc}"
    and "date_sep a" and "date_sep b"
  shows "strptime (strftime ns d (format3 f a g b h)) (format3 f a g b h)
    = Some (make_day (getFullYear d) (getMonth d) (getDate d))"
proof -
  let ?F = "strftime_field ns d"
  have nd: "?F CHR ''d'' = getTwoDigitDate d" "?F CHR ''m'' = getTwoDigitMonth d"
    by (simp_all add: strftime_field_def)
  from assms(1) have dm: "digits_of (getDate d) (?F CHR ''d'')"
    "digits_of (getMonth d + 1) (?F CHR ''m'')"
    unfolding nd by (auto simp: valid_date_def intro: digits_of_date digits_of_month)
  from year_code_field [OF assms(2), of ns] obtain n where y: "digits_of n (?F yc)"
    "full_year (case if yc = CHR ''Y'' then Some n else short_year (Some (?F yc))
                of None \<Rightarrow> 0 | Some r \<Rightarrow> r) = getFullYear d"
    "yc = CHR ''y'' \<longrightarrow> short_year (Some (?F yc)) \<noteq> None" by blast
  have yc: "yc = CHR ''Y'' \<or> yc = CHR ''y''" using assms(2) by (auto simp: year_code_ok_def)
  obtain r where r: "(if yc = CHR ''Y'' then Some n else short_year (Some (?F yc))) = Some r"
    "full_year r = getFullYear d"
    using y(2,3) yc by (cases "yc = CHR ''Y''") auto
  have sep: "\<forall>c \<in> set (?F e). \<not> date_sep c" if "e \<in> {f, g, h}" for e
    using that assms(3) dm y(1) by (auto dest: digits_of_no_sep)
  have parts: "split_by date_sep (strftime ns d (format3 f a g b h)) = [?F f, ?F g, ?F h]"
    unfolding strftime_format3 [OF assms(4,5)] by (rule split3 [OF assms(4,5)]) (rule sep, simp)+
  have fmt: "split_by date_sep (format3 f a g b h) = [[CHR ''%'', f], [CHR ''%'', g], [CHR ''%'', h]]"
    using split_format3 [OF assms(4,5,3)] yc by blast
  have num: "to_number (?F CHR ''d'') = Some (getDate d)"
    "to_number (?F CHR ''m'') = Some (getMonth d + 1)" "to_number (?F yc) = Some n"
    using dm y(1) by (simp_all add: digits_of_number)
  have read: "strptime_loop [[CHR ''%'', f], [CHR ''%'', g], [CHR ''%'', h]] [?F f, ?F g, ?F h]
      (None, None, None) = (Some r, Some (getMonth d), Some (getDate d))"
  proof (cases "yc = CHR ''Y''")
    case True
    with r(1) num(3) have y: "to_number (?F CHR ''Y'') = Some r" by simp
    from perm3 [OF assms(3)] True show ?thesis
      by auto (simp_all only: loop_step strptime_loop.simps num(1,2) y option.map, simp_all)
  next
    case False
    with yc r(1) have y: "yc = CHR ''y''" "short_year (Some (?F CHR ''y'')) = Some r" by simp_all
    from perm3 [OF assms(3)] y(1) show ?thesis
      by auto (simp_all only: loop_step strptime_loop.simps num(1,2) y(2) option.map, simp_all)
  qed
  have "\<bar>getFullYear d\<bar> \<le> 200000" using assms(2) by (auto simp: year_code_ok_def)
  then show ?thesis
    unfolding strptime_def parts fmt read by (simp add: date_utc_valid [OF assms(1) _ r(2)])
qed

text \<open>
  C21: a printed date parses back.  For any format made of the day, the month and the year in any
  order, with any of the three separators between them, \<open>strptime\<close> reads what \<open>strftime\<close> prints as
  the same day: with \<open>%Y\<close> for every year from 100 on, with \<open>%y\<close> for the years 1969 to 2068.
\<close>

theorem strptime_strftime:
  assumes "valid_date (getFullYear d) (getMonth d) (getDate d)"
    and "year_code_ok yc (getFullYear d)" and "{f, g, h} = {CHR ''d'', CHR ''m'', yc}"
    and "date_sep a" and "date_sep b"
  shows "strptime (strftime ns d (format3 f a g b h)) (format3 f a g b h)
    = Some (make_day (getFullYear d) (getMonth d) (getDate d))"
  by (rule strptime_format3 [OF assms])

definition sample_date :: local_date where
  "sample_date = \<lparr>getFullYear = 2026, getMonth = 1, getDate = 7, getHours = 13, getMinutes = 5,
     getSeconds = 9, getDay = 6, date_toString = ''s'', toLocaleDateString = ''d'',
     toLocaleTimeString = ''t''\<rparr>"

theorem strptime_strftime_witness:
  "strptime (strftime None sample_date ''%m/%d.%y'') ''%m/%d.%y'' = Some (make_day 2026 1 7)"
proof -
  have v: "valid_date (getFullYear sample_date) (getMonth sample_date) (getDate sample_date)"
    "year_code_ok CHR ''y'' (getFullYear sample_date)" "date_sep CHR ''/''" "date_sep CHR ''.''"
    by (simp_all add: sample_date_def valid_date_def month_length_def month_start_def
        year_code_ok_def date_sep_def)
  from strptime_strftime [OF v(1,2) _ v(3,4), of "CHR ''m''" "CHR ''d''" "CHR ''y''" None]
  show ?thesis by (simp add: format3_def sample_date_def insert_commute)
qed

end
