(* ===== verification/Calendar.thy ===== *)
theory Calendar
  imports AdminCore
begin

text \<open>
  The date picker's calendar (\<open>koded-cli/web/backend/staticfiles/admin/js/calendar.js\<close>): the
  tables of names, the month drawn as a table of weeks, and the object that goes from month to
  month.  \<open>tr\<close> is the translation catalogue's \<open>gettext\<close>, \<open>ptr\<close> its \<open>pgettext\<close>, and
  \<open>fdw\<close> the first day of the week of the page's locale.
\<close>

type_synonym translate = "string \<Rightarrow> string"
type_synonym ptranslate = "string \<Rightarrow> string \<Rightarrow> string"

subsection \<open>CalendarNamespace\<close>

definition cal_monthsOfYear :: "translate \<Rightarrow> string list" where
  "cal_monthsOfYear tr = map tr
     [''January'', ''February'', ''March'', ''April'', ''May'', ''June'', ''July'', ''August'',
      ''September'', ''October'', ''November'', ''December'']"

definition cal_monthsOfYearAbbrev :: "ptranslate \<Rightarrow> string list" where
  "cal_monthsOfYearAbbrev ptr =
     [ptr ''abbrev. month January'' ''Jan'', ptr ''abbrev. month February'' ''Feb'',
      ptr ''abbrev. month March'' ''Mar'', ptr ''abbrev. month April'' ''Apr'',
      ptr ''abbrev. month May'' ''May'', ptr ''abbrev. month June'' ''Jun'',
      ptr ''abbrev. month July'' ''Jul'', ptr ''abbrev. month August'' ''Aug'',
      ptr ''abbrev. month September'' ''Sep'', ptr ''abbrev. month October'' ''Oct'',
      ptr ''abbrev. month November'' ''Nov'', ptr ''abbrev. month December'' ''Dec'']"

definition cal_daysOfWeek :: "translate \<Rightarrow> string list" where
  "cal_daysOfWeek tr = map tr
     [''Sunday'', ''Monday'', ''Tuesday'', ''Wednesday'', ''Thursday'', ''Friday'', ''Saturday'']"

definition cal_daysOfWeekAbbrev :: "ptranslate \<Rightarrow> string list" where
  "cal_daysOfWeekAbbrev ptr =
     [ptr ''abbrev. day Sunday'' ''Sun'', ptr ''abbrev. day Monday'' ''Mon'',
      ptr ''abbrev. day Tuesday'' ''Tue'', ptr ''abbrev. day Wednesday'' ''Wed'',
      ptr ''abbrev. day Thursday'' ''Thur'', ptr ''abbrev. day Friday'' ''Fri'',
      ptr ''abbrev. day Saturday'' ''Sat'']"

definition cal_daysOfWeekInitial :: "ptranslate \<Rightarrow> string list" where
  "cal_daysOfWeekInitial ptr =
     [ptr ''one letter Sunday'' ''S'', ptr ''one letter Monday'' ''M'',
      ptr ''one letter Tuesday'' ''T'', ptr ''one letter Wednesday'' ''W'',
      ptr ''one letter Thursday'' ''T'', ptr ''one letter Friday'' ''F'',
      ptr ''one letter Saturday'' ''S'']"

definition isLeapYear :: "int \<Rightarrow> bool" where
  "isLeapYear year = (year mod 4 = 0 \<and> year mod 100 \<noteq> 0 \<or> year mod 400 = 0)"

definition getDaysInMonth :: "int \<Rightarrow> int \<Rightarrow> int" where
  "getDaysInMonth month year =
     (if month = 1 \<or> month = 3 \<or> month = 5 \<or> month = 7 \<or> month = 8 \<or> month = 10 \<or> month = 12
      then 31
      else if month = 4 \<or> month = 6 \<or> month = 9 \<or> month = 11 then 30
      else if month = 2 \<and> isLeapYear year then 29
      else 28)"

subsection \<open>Drawing a month\<close>

text \<open>What a drawing depends on besides its arguments.\<close>

record cal_env =
  tr :: translate
  ptr :: ptranslate
  fdw :: int
  today :: local_date

text \<open>The selected date is absent, or a date that may be invalid; an invalid date's fields are
  no numbers, equal to nothing.\<close>

type_synonym selection = "int option option"

definition isSelectedMonth :: "selection \<Rightarrow> int \<Rightarrow> int \<Rightarrow> bool" where
  "isSelectedMonth sel month year =
     (case sel of
        Some (Some n) \<Rightarrow> year_of_day n = year \<and> month_of_day n + 1 = month
      | _ \<Rightarrow> False)"

definition startingPos :: "int \<Rightarrow> int \<Rightarrow> int \<Rightarrow> int" where
  "startingPos f month year = week_day (make_day (full_year year) (month - 1) (1 - f))"

definition nonDayCell :: node where
  "nonDayCell = Elem ''td'' [(''class'', JStr ''nonday'')] [Text '' '']"

definition day_class :: "local_date \<Rightarrow> selection \<Rightarrow> int \<Rightarrow> int \<Rightarrow> int \<Rightarrow> string" where
  "day_class td sel month year currentDay =
     (let todayClass = (if currentDay = getDate td \<and> month = getMonth td + 1
                           \<and> year = getFullYear td then ''today'' else [])
      in if isSelectedMonth sel month year
            \<and> (case sel of Some (Some n) \<Rightarrow> currentDay = date_of_day n | _ \<Rightarrow> False)
         then (if todayClass \<noteq> [] then todayClass @ '' '' else todayClass) @ ''selected''
         else todayClass)"

text \<open>A day's cell.  The link's listener calls back with the year and the month it was made with
  and the link's text.\<close>

definition day_cell :: "local_date \<Rightarrow> selection \<Rightarrow> int \<Rightarrow> int \<Rightarrow> int \<Rightarrow> node" where
  "day_cell td sel month year currentDay =
     appendChild (quickElement ''td'' [] [(''class'', JStr (day_class td sel month year currentDay))])
       (quickElement ''a'' (show_int currentDay)
          [(''href'', JStr ''#''), (''onclick'', JArr [JNum year, JNum month])])"

text \<open>The two loops over the rows, each a list of cells; the last row is the current one.\<close>

definition add_cell :: "node list list \<Rightarrow> node \<Rightarrow> node list list" where
  "add_cell rows c = butlast rows @ [last rows @ [c]]"

fun day_loop :: "(int \<Rightarrow> node) \<Rightarrow> int \<Rightarrow> int \<Rightarrow> nat \<Rightarrow> node list list \<Rightarrow> node list list" where
  "day_loop cell i currentDay 0 rows = rows"
| "day_loop cell i currentDay (Suc n) rows =
     (let rows = (if i mod 7 = 0 \<and> currentDay \<noteq> 1 then rows @ [[]] else rows)
      in day_loop cell (i + 1) (currentDay + 1) n (add_cell rows (cell currentDay)))"

function pad_row :: "node list \<Rightarrow> node list" where
  "pad_row row = (if length row < 7 then pad_row (row @ [nonDayCell]) else row)"
  by pat_completeness auto
termination
  by (relation "measure (\<lambda>row. 7 - length row)") auto

declare pad_row.simps [simp del]

definition month_rows :: "cal_env \<Rightarrow> selection \<Rightarrow> int \<Rightarrow> int \<Rightarrow> node list list" where
  "month_rows env sel month year =
     (let pos = startingPos (fdw env) month year;
          rows = day_loop (day_cell (today env) sel month year) pos 1
                   (nat (getDaysInMonth month year)) [replicate (nat pos) nonDayCell]
      in butlast rows @ [pad_row (last rows)])"

definition header_row :: "cal_env \<Rightarrow> node" where
  "header_row env = Elem ''tr'' []
     (map (\<lambda>i. quickElement ''th''
         (name_at (cal_daysOfWeekInitial (ptr env)) ((i + fdw env) mod 7)) []) [0..6])"

definition draw :: "cal_env \<Rightarrow> int \<Rightarrow> int \<Rightarrow> selection \<Rightarrow> node \<Rightarrow> node" where
  "draw env month year sel calDiv =
     appendChild (removeChildren calDiv)
       (Elem ''table'' []
          [quickElement ''caption''
             (name_at (cal_monthsOfYear (tr env)) (month - 1) @ '' '' @ show_int year) [],
           Elem ''tbody'' []
             (header_row env # map (Elem ''tr'' []) (month_rows env sel month year))])"

subsection \<open>The calendar object\<close>

record calendar =
  currentMonth :: int
  currentYear :: int
  cal_selected :: selection
  cal_div :: node

definition new_calendar :: "cal_env \<Rightarrow> selection \<Rightarrow> node \<Rightarrow> calendar" where
  "new_calendar env sel dv =
     \<lparr>currentMonth = getMonth (today env) + 1, currentYear = getFullYear (today env),
      cal_selected = sel, cal_div = dv\<rparr>"

definition drawCurrent :: "cal_env \<Rightarrow> calendar \<Rightarrow> calendar" where
  "drawCurrent env c =
     c\<lparr>cal_div := draw env (currentMonth c) (currentYear c) (cal_selected c) (cal_div c)\<rparr>"

definition drawDate :: "cal_env \<Rightarrow> int \<Rightarrow> int \<Rightarrow> selection \<Rightarrow> calendar \<Rightarrow> calendar" where
  "drawDate env month year sel c =
     (let c = c\<lparr>currentMonth := month, currentYear := year\<rparr>;
          c = (if sel \<noteq> None then c\<lparr>cal_selected := sel\<rparr> else c)
      in drawCurrent env c)"

definition drawPreviousMonth :: "cal_env \<Rightarrow> calendar \<Rightarrow> calendar" where
  "drawPreviousMonth env c =
     drawCurrent env
       (if currentMonth c = 1 then c\<lparr>currentMonth := 12, currentYear := currentYear c - 1\<rparr>
        else c\<lparr>currentMonth := currentMonth c - 1\<rparr>)"

definition drawNextMonth :: "cal_env \<Rightarrow> calendar \<Rightarrow> calendar" where
  "drawNextMonth env c =
     drawCurrent env
       (if currentMonth c = 12 then c\<lparr>currentMonth := 1, currentYear := currentYear c + 1\<rparr>
        else c\<lparr>currentMonth := currentMonth c + 1\<rparr>)"

definition drawPreviousYear :: "cal_env \<Rightarrow> calendar \<Rightarrow> calendar" where
  "drawPreviousYear env c = drawCurrent env (c\<lparr>currentYear := currentYear c - 1\<rparr>)"

definition drawNextYear :: "cal_env \<Rightarrow> calendar \<Rightarrow> calendar" where
  "drawNextYear env c = drawCurrent env (c\<lparr>currentYear := currentYear c + 1\<rparr>)"

subsection \<open>The calendar's arithmetic is the dates'\<close>

lemma isLeapYear_eq: "isLeapYear y = leap_year y"
  by (auto simp: isLeapYear_def leap_year_def dvd_eq_mod_eq_0 [symmetric])

lemma days_in_month:
  assumes "1 \<le> month" and "month \<le> 12"
  shows "getDaysInMonth month year = month_length year (month - 1)"
proof -
  have "month - 1 \<in> {0, 1, 2, 3, 4, 5, 6, 7, 8, 9, 10, 11}"
    using assms by (intro month_cases) simp_all
  then have "month \<in> {1, 2, 3, 4, 5, 6, 7, 8, 9, 10, 11, 12}" by (elim insertE emptyE) simp_all
  then show ?thesis
    by (elim insertE emptyE)
      (simp_all add: getDaysInMonth_def isLeapYear_eq month_length_def month_start_def)
qed

text \<open>
  The month lengths.  For every month from 1 to 12 of every year, \<open>getDaysInMonth\<close> is the
  number of days of that month in the calendar JavaScript's dates compute with: that many days
  after the first of the month comes the first of the next, over the end of the year too.
\<close>

theorem getDaysInMonth_correct:
  assumes "1 \<le> month" and "month \<le> 12"
  shows "getDaysInMonth month year = month_length year (month - 1)
    \<and> make_day year month 1 = make_day year (month - 1) 1 + getDaysInMonth month year"
proof -
  have m: "month - 1 \<in> {0, 1, 2, 3, 4, 5, 6, 7, 8, 9, 10, 11}"
    using assms by (intro month_cases) simp_all
  have "make_day year month 1 = make_day year (month - 1) 1 + month_length year (month - 1)"
  proof (cases "month = 12")
    case True
    then show ?thesis
      using day_from_year_next [of year]
      by (simp add: make_day_def month_eval year_length_def Let_def)
  next
    case False
    with assms have "0 \<le> month" "month < 12" by simp_all
    then show ?thesis using assms(1) False by (simp add: make_day_in_year month_length_def)
  qed
  then show ?thesis by (simp add: days_in_month [OF assms])
qed

theorem getDaysInMonth_correct_witness:
  "getDaysInMonth 12 2000 = month_length 2000 (12 - 1)
   \<and> make_day 2000 12 1 = make_day 2000 (12 - 1) 1 + getDaysInMonth 12 2000"
  by (rule getDaysInMonth_correct) simp_all

lemma getDays_pos: "28 \<le> getDaysInMonth month year" "getDaysInMonth month year \<le> 31"
  by (auto simp: getDaysInMonth_def)

subsection \<open>The rows of a month\<close>

text \<open>The rows while the days are drawn: all full but the last, whose length follows from the
  position \<open>i\<close> of the next cell.\<close>

definition rows_ok :: "int \<Rightarrow> int \<Rightarrow> node list list \<Rightarrow> bool" where
  "rows_ok i cur rows =
     (rows \<noteq> [] \<and> list_all (\<lambda>r. length r = 7) (butlast rows)
      \<and> int (length (last rows)) = (if cur = 1 then i else (i - 1) mod 7 + 1)
      \<and> (cur = 1 \<longrightarrow> 0 \<le> i \<and> i < 7))"

lemma concat_add_cell: "rows \<noteq> [] \<Longrightarrow> concat (add_cell rows c) = concat rows @ [c]"
  by (cases rows rule: rev_cases) (auto simp: add_cell_def)

lemma int_mod_7: "(i::int) mod 7 \<noteq> 0 \<Longrightarrow> (i - 1) mod 7 + 1 = i mod 7"
  by presburger

lemma day_loop_step:
  assumes "rows_ok i cur rows" and "1 \<le> cur"
  defines "rows' \<equiv> (if i mod 7 = 0 \<and> cur \<noteq> 1 then rows @ [[]] else rows)"
  shows "rows_ok (i + 1) (cur + 1) (add_cell rows' c)"
proof (cases "i mod 7 = 0 \<and> cur \<noteq> 1")
  case True
  then have "(i - 1) mod 7 = 6" by presburger
  with True assms(1) have "int (length (last rows)) = 7" by (simp add: rows_ok_def)
  with assms(1) have "list_all (\<lambda>r. length r = 7) rows"
    by (cases rows rule: rev_cases) (auto simp: rows_ok_def)
  with True assms(2) show ?thesis by (simp add: rows_ok_def rows'_def add_cell_def)
next
  case False
  have "int (length (last rows)) = i mod 7"
  proof (cases "cur = 1")
    case True
    with assms(1) show ?thesis by (simp add: rows_ok_def)
  next
    case c: False
    with False have "i mod 7 \<noteq> 0" by simp
    from int_mod_7 [OF this] c assms(1) show ?thesis by (simp add: rows_ok_def)
  qed
  moreover have "rows' = rows" using False by (simp only: rows'_def if_False)
  ultimately show ?thesis using assms(1,2) by (simp add: rows_ok_def add_cell_def)
qed

lemma day_loop_rows:
  assumes "rows_ok i cur rows" and "1 \<le> cur"
  shows "rows_ok (i + int n) (cur + int n) (day_loop cell i cur n rows)
    \<and> concat (day_loop cell i cur n rows) = concat rows @ map (\<lambda>k. cell (cur + int k)) [0..<n]"
  using assms
proof (induction n arbitrary: i cur rows)
  case (Suc n)
  let ?rows = "if i mod 7 = 0 \<and> cur \<noteq> 1 then rows @ [[]] else rows"
  have ne: "?rows \<noteq> []" and c: "concat ?rows = concat rows"
    using Suc.prems(1) by (auto simp: rows_ok_def)
  from Suc.IH [OF day_loop_step [OF Suc.prems, of "cell cur"]] Suc.prems(2)
  have "rows_ok (i + 1 + int n) (cur + 1 + int n)
        (day_loop cell (i + 1) (cur + 1) n (add_cell ?rows (cell cur)))"
    "concat (day_loop cell (i + 1) (cur + 1) n (add_cell ?rows (cell cur)))
       = concat (add_cell ?rows (cell cur)) @ map (\<lambda>k. cell (cur + 1 + int k)) [0..<n]"
    by simp_all
  moreover have "cell cur # map (\<lambda>k. cell (cur + 1 + int k)) [0..<n]
      = map (\<lambda>k. cell (cur + int k)) [0..<Suc n]"
    by (simp add: upt_conv_Cons map_Suc_upt [symmetric] del: upt_Suc)
      (simp add: algebra_simps)
  ultimately show ?case
    unfolding concat_add_cell [OF ne] c day_loop.simps Let_def by (simp add: add.assoc)
qed simp

lemma pad_row_eq: "pad_row row = row @ replicate (7 - length row) nonDayCell"
proof (induction row rule: pad_row.induct)
  case (1 row)
  show ?case
  proof (cases "length row < 7")
    case True
    then have "7 - length row = Suc (7 - length (row @ [nonDayCell]))" by simp
    then have "replicate (7 - length row) nonDayCell
        = nonDayCell # replicate (7 - length (row @ [nonDayCell])) nonDayCell"
      by (simp only: replicate_Suc)
    with True 1 [OF True] show ?thesis by (simp add: pad_row.simps [of row])
  next
    case False
    then show ?thesis by (simp add: pad_row.simps [of row])
  qed
qed

text \<open>A month's rows: full weeks that hold, between blanks, the days in order.\<close>

lemma month_rows_shape:
  fixes env sel month year
  defines "p \<equiv> nat (startingPos (fdw env) month year)"
    and "n \<equiv> nat (getDaysInMonth month year)"
  shows "list_all (\<lambda>r. length r = 7) (month_rows env sel month year)
    \<and> (\<exists>b < 7. concat (month_rows env sel month year) = replicate p nonDayCell
         @ map (\<lambda>k. day_cell (today env) sel month year (1 + int k)) [0..<n]
         @ replicate b nonDayCell)"
proof -
  have sp: "0 \<le> startingPos (fdw env) month year" "startingPos (fdw env) month year < 7"
    by (simp_all add: startingPos_def week_day_def)
  then have pi: "int p = startingPos (fdw env) month year" by (simp add: p_def)
  let ?cell = "day_cell (today env) sel month year"
  define rows where "rows = day_loop ?cell (int p) 1 n [replicate p nonDayCell]"
  have "rows_ok (int p) 1 [replicate p nonDayCell]" using sp pi by (simp add: rows_ok_def)
  from day_loop_rows [OF this, of n ?cell]
  have ok: "rows_ok (int p + int n) (1 + int n) rows"
    and con: "concat rows = replicate p nonDayCell @ map (\<lambda>k. ?cell (1 + int k)) [0..<n]"
    by (simp_all add: rows_def)
  have n0: "n > 0" using getDays_pos(1) [of month year] by (simp add: n_def)
  from ok n0 have len: "int (length (last rows)) = (int p + int n - 1) mod 7 + 1" and ne: "rows \<noteq> []"
    and full: "list_all (\<lambda>r. length r = 7) (butlast rows)" by (simp_all add: rows_ok_def)
  define b where "b = 7 - length (last rows)"
  have l: "1 \<le> length (last rows)" "length (last rows) \<le> 7" using len by presburger+
  have m: "month_rows env sel month year = butlast rows @ [last rows @ replicate b nonDayCell]"
    by (simp add: month_rows_def Let_def pi [symmetric] rows_def [symmetric] n_def [symmetric]
        pad_row_eq b_def)
  have "concat (butlast rows) @ last rows = concat rows"
    using ne by (metis append_butlast_last_id concat.simps concat_append append_Nil2)
  then have "concat (month_rows env sel month year) = concat rows @ replicate b nonDayCell"
    by (simp add: m flip: append_assoc)
  moreover have "b < 7" using l by (simp add: b_def)
  moreover have "list_all (\<lambda>r. length r = 7) (month_rows env sel month year)"
    using full l by (simp add: m b_def)
  ultimately show ?thesis by (auto simp: con)
qed

lemma concat_nth_7:
  "list_all (\<lambda>r. length r = 7) rows \<Longrightarrow> j < length (concat rows) \<Longrightarrow>
     j div 7 < length rows \<and> rows ! (j div 7) ! (j mod 7) = concat rows ! j"
proof (induction rows arbitrary: j)
  case (Cons r rows)
  show ?case
  proof (cases "j < 7")
    case True
    with Cons.prems show ?thesis by (simp add: nth_append)
  next
    case False
    then have "j div 7 = Suc ((j - 7) div 7)" "j mod 7 = (j - 7) mod 7"
      by (simp_all add: div_if [of j] le_mod_geq)
    with False Cons.prems Cons.IH [of "j - 7"] show ?thesis by (simp add: nth_append)
  qed
qed simp

lemma day_cell_not_blank: "day_cell td sel month year d \<noteq> nonDayCell"
  by (simp add: day_cell_def nonDayCell_def quickElement_def appendChild_def)

lemma grid_position:
  fixes env :: cal_env
  assumes "1 \<le> d" and "d \<le> getDaysInMonth month year"
  defines "j \<equiv> nat (startingPos (fdw env) month year + d - 1)"
  shows "j div 7 < length (month_rows env sel month year)
    \<and> month_rows env sel month year ! (j div 7) ! (j mod 7) = day_cell (today env) sel month year d"
proof -
  let ?p = "nat (startingPos (fdw env) month year)" and ?n = "nat (getDaysInMonth month year)"
  let ?c = "day_cell (today env) sel month year"
  have j: "j = ?p + nat (d - 1)" and dn: "nat (d - 1) < ?n"
    using assms(1,2) by (auto simp: j_def startingPos_def week_day_def)
  from month_rows_shape [of env sel month year] obtain b where
    full: "list_all (\<lambda>r. length r = 7) (month_rows env sel month year)"
    and con: "concat (month_rows env sel month year) = replicate ?p nonDayCell
        @ map (\<lambda>k. ?c (1 + int k)) [0..<?n] @ replicate b nonDayCell" by blast
  have "concat (month_rows env sel month year) ! j = ?c (1 + int (nat (d - 1)))"
    unfolding con j using dn by (simp add: nth_append)
  moreover have "length (concat (month_rows env sel month year)) = ?p + ?n + b"
    unfolding con by simp
  then have "j < length (concat (month_rows env sel month year))" using j dn by linarith
  ultimately show ?thesis using concat_nth_7 [OF full] assms(1) by simp
qed

lemma column_weekday:
  assumes "100 \<le> year" and "1 \<le> month" and "month \<le> 12" and "1 \<le> d"
  shows "(int (nat (startingPos f month year + d - 1) mod 7) + f) mod 7
    = week_day (make_day year (month - 1) d)"
proof -
  let ?w = "week_day (make_day year (month - 1) (1 - f))"
  have sp: "startingPos f month year = ?w" using assms(1) by (simp add: startingPos_def full_year_def)
  have "0 \<le> ?w" by (simp add: week_day_def)
  then have "int (nat (?w + d - 1) mod 7) = (?w + d - 1) mod 7"
    using assms(4) by (simp add: zmod_int)
  then have "(int (nat (?w + d - 1) mod 7) + f) mod 7 = (?w + (d - 1 + f)) mod 7"
    by (simp add: mod_simps algebra_simps)
  also have "\<dots> = week_day (make_day year (month - 1) (1 - f) + (d - 1 + f))"
    by (simp add: week_day_add)
  also have "make_day year (month - 1) (1 - f) + (d - 1 + f) = make_day year (month - 1) d"
    by (simp flip: make_day_add)
  finally show ?thesis by (simp add: sp)
qed

text \<open>
  C20: the month's grid.  For every month of every year from 100 on and every first day of the
  week, the drawn month has rows of exactly seven cells; its cells that are not blank are the days
  of the month, once each and in order; and each day stands in the column whose heading is the
  initial of its day of the week.
\<close>

theorem month_grid:
  assumes "100 \<le> year" and "1 \<le> month" and "month \<le> 12" and "0 \<le> fdw env" and "fdw env \<le> 6"
    and "1 \<le> d" and "d \<le> getDaysInMonth month year"
  shows "list_all (\<lambda>r. length r = 7) (month_rows env sel month year)
    \<and> filter (\<lambda>c. c \<noteq> nonDayCell) (concat (month_rows env sel month year))
        = map (day_cell (today env) sel month year) [1..getDaysInMonth month year]
    \<and> (\<exists>i j. i < length (month_rows env sel month year) \<and> j < 7
        \<and> month_rows env sel month year ! i ! j = day_cell (today env) sel month year d
        \<and> childNodes (header_row env) ! j = quickElement ''th''
            (name_at (cal_daysOfWeekInitial (ptr env)) (week_day (make_day year (month - 1) d))) [])"
proof (intro conjI)
  let ?n = "nat (getDaysInMonth month year)"
  let ?c = "day_cell (today env) sel month year"
  from month_rows_shape [of env sel month year] obtain b where
    full: "list_all (\<lambda>r. length r = 7) (month_rows env sel month year)"
    and con: "concat (month_rows env sel month year) =
        replicate (nat (startingPos (fdw env) month year)) nonDayCell
        @ map (\<lambda>k. ?c (1 + int k)) [0..<?n] @ replicate b nonDayCell" by blast
  show "list_all (\<lambda>r. length r = 7) (month_rows env sel month year)" by (rule full)
  have "map (\<lambda>k. ?c (1 + int k)) [0..<?n] = map ?c [1..getDaysInMonth month year]"
    by (rule nth_equalityI) (simp_all add: nth_upto)
  moreover have "filter (\<lambda>c. c \<noteq> nonDayCell) (map ?c xs) = map ?c xs" for xs
    by (induction xs) (simp_all add: day_cell_not_blank)
  ultimately show "filter (\<lambda>c. c \<noteq> nonDayCell) (concat (month_rows env sel month year))
      = map ?c [1..getDaysInMonth month year]"
    by (simp add: con)
  let ?j = "nat (startingPos (fdw env) month year + d - 1)"
  have "childNodes (header_row env) ! (?j mod 7) = quickElement ''th''
      (name_at (cal_daysOfWeekInitial (ptr env)) ((int (?j mod 7) + fdw env) mod 7)) []"
    by (simp add: header_row_def nth_upto less_Suc_eq_le)
  then show "\<exists>i j. i < length (month_rows env sel month year) \<and> j < 7
        \<and> month_rows env sel month year ! i ! j = ?c d
        \<and> childNodes (header_row env) ! j = quickElement ''th''
            (name_at (cal_daysOfWeekInitial (ptr env)) (week_day (make_day year (month - 1) d))) []"
    using grid_position [OF assms(6,7), of env sel] column_weekday [OF assms(1,2,3,6), of "fdw env"]
    by (intro exI [of _ "?j div 7"] exI [of _ "?j mod 7"]) simp
qed

definition sample_env :: cal_env where
  "sample_env = \<lparr>tr = id, ptr = (\<lambda>_ s. s), fdw = 1, today = sample_date\<rparr>"

theorem month_grid_witness:
  "\<exists>i j. i < length (month_rows sample_env None 2 2026) \<and> j < 7
     \<and> month_rows sample_env None 2 2026 ! i ! j = day_cell sample_date None 2 2026 7
     \<and> childNodes (header_row sample_env) ! j = quickElement ''th'' ''S'' []"
proof -
  have h: "fdw sample_env = 1" "ptr sample_env = (\<lambda>_ s. s)" "today sample_env = sample_date"
    by (simp_all add: sample_env_def)
  have w: "name_at (cal_daysOfWeekInitial (\<lambda>_ s. s)) (week_day (make_day 2026 1 7)) = ''S''"
    by code_simp
  from month_grid [of 2026 2 sample_env 7 None] show ?thesis
    by (simp add: h w getDaysInMonth_def)
qed

text \<open>The years below 100, which the drawing's comment admits, are placed as years of the
  twentieth century: 1 January of the year 1, a Monday, would be drawn as a Tuesday.\<close>

lemma small_year_misplaced:
  "startingPos 0 1 1 = 2 \<and> week_day (make_day 1 0 1) = 1"
  by code_simp

text \<open>
  The selected day.  In a drawn month the cell of a day is marked as selected exactly when the
  selected date is that day, and every drawing of another month marks none.
\<close>

theorem selected_mark:
  assumes "1 \<le> month" and "month \<le> 12" and "1 \<le> d" and "d \<le> getDaysInMonth month year"
  shows "day_class td (Some (Some n)) month year d \<in> {''selected'', ''today selected''}
    \<longleftrightarrow> n = make_day year (month - 1) d"
proof -
  have v: "valid_date year (month - 1) d"
    using assms month_rows_shape
    by (auto simp: valid_date_def days_in_month [OF assms(1,2)])
  have "n = make_day year (month - 1) d \<longleftrightarrow>
      year_of_day n = year \<and> month_of_day n + 1 = month \<and> date_of_day n = d"
    using fields_of_day [of n] year_of_make_day [OF v] month_of_make_day [OF v]
      date_of_make_day [OF v] by force
  then show ?thesis by (auto simp: day_class_def isSelectedMonth_def Let_def)
qed

theorem selected_mark_witness:
  "day_class sample_date (Some (Some 20491)) 2 2026 7 \<in> {''selected'', ''today selected''}
     \<longleftrightarrow> 20491 = make_day 2026 (2 - 1) 7"
  by (rule selected_mark) (simp_all add: getDaysInMonth_def)

subsection \<open>Going from month to month\<close>

datatype nav = NextMonth | PreviousMonth | NextYear | PreviousYear

fun navigate :: "cal_env \<Rightarrow> nav \<Rightarrow> calendar \<Rightarrow> calendar" where
  "navigate env NextMonth = drawNextMonth env"
| "navigate env PreviousMonth = drawPreviousMonth env"
| "navigate env NextYear = drawNextYear env"
| "navigate env PreviousYear = drawPreviousYear env"

fun nav_undo :: "nav \<Rightarrow> nav" where
  "nav_undo NextMonth = PreviousMonth"
| "nav_undo PreviousMonth = NextMonth"
| "nav_undo NextYear = PreviousYear"
| "nav_undo PreviousYear = NextYear"

fun nav_months :: "nav \<Rightarrow> int" where
  "nav_months NextMonth = 1"
| "nav_months PreviousMonth = -1"
| "nav_months NextYear = 12"
| "nav_months PreviousYear = -12"

text \<open>A calendar in use: its month is one, and the page shows it.\<close>

definition cal_ok :: "cal_env \<Rightarrow> calendar \<Rightarrow> bool" where
  "cal_ok env c = (1 \<le> currentMonth c \<and> currentMonth c \<le> 12
     \<and> (\<exists>t ats ns. cal_div c = Elem t ats ns)
     \<and> cal_div c = draw env (currentMonth c) (currentYear c) (cal_selected c) (cal_div c))"

definition month_number :: "calendar \<Rightarrow> int" where
  "month_number c = 12 * currentYear c + currentMonth c"

lemma draw_Elem: "\<exists>ns. draw env month year sel (Elem t ats ns0) = Elem t ats ns"
  by (auto simp: draw_def removeChildren_Elem appendChild_def)

lemma draw_draw: "draw env month year sel (draw env m y s (Elem t ats ns)) =
    draw env month year sel (Elem t ats ns)"
  by (simp add: draw_def removeChildren_Elem appendChild_def)

lemma drawCurrent_ok:
  assumes "cal_div c = Elem t ats ns" and "1 \<le> currentMonth c" and "currentMonth c \<le> 12"
  shows "cal_ok env (drawCurrent env c)"
  using assms draw_Elem [of env "currentMonth c" "currentYear c" "cal_selected c" t ats ns]
  by (auto simp: cal_ok_def drawCurrent_def draw_draw)

lemma split_12:
  assumes "k = 12 * y + r" and "(0::int) \<le> r" and "r < 12"
  shows "k mod 12 = r" and "k div 12 = y"
  using assms by simp_all

lemma navigate_eq:
  fixes e :: nav
  assumes "cal_ok env c"
  defines "k \<equiv> month_number c + nav_months e - 1"
  shows "navigate env e c =
    drawCurrent env (c\<lparr>currentMonth := k mod 12 + 1, currentYear := k div 12\<rparr>)"
proof -
  have m: "0 \<le> currentMonth c - 1" "currentMonth c - 1 < 12" using assms(1) by (simp_all add: cal_ok_def)
  have k: "k = 12 * currentYear c + (currentMonth c - 1 + nav_months e)"
    by (simp add: k_def month_number_def)
  show ?thesis
  proof (cases e)
    case NextMonth
    show ?thesis
    proof (cases "currentMonth c = 12")
      case True
      with NextMonth k have "k = 12 * (currentYear c + 1) + 0" by simp
      then have "k mod 12 = 0" "k div 12 = currentYear c + 1" by simp_all
      with True NextMonth show ?thesis by (simp add: drawNextMonth_def)
    next
      case False
      with m NextMonth k have "k mod 12 = currentMonth c" "k div 12 = currentYear c" by simp_all
      with False NextMonth show ?thesis by (simp add: drawNextMonth_def)
    qed
  next
    case PreviousMonth
    show ?thesis
    proof (cases "currentMonth c = 1")
      case True
      with PreviousMonth k have "k = 12 * (currentYear c - 1) + 11" by simp
      then have "k mod 12 = 11" "k div 12 = currentYear c - 1" by presburger+
      with True PreviousMonth show ?thesis by (simp add: drawPreviousMonth_def)
    next
      case False
      with m PreviousMonth k have "k mod 12 = currentMonth c - 2" "k div 12 = currentYear c"
        by simp_all
      with False PreviousMonth show ?thesis by (simp add: drawPreviousMonth_def)
    qed
  next
    case NextYear
    with k have "k = 12 * (currentYear c + 1) + (currentMonth c - 1)" by simp
    note split_12 [OF this m]
    with NextYear show ?thesis by (simp add: drawNextYear_def del: mod_mult_self1)
  next
    case PreviousYear
    with k have "k = 12 * (currentYear c - 1) + (currentMonth c - 1)" by simp
    note split_12 [OF this m]
    with PreviousYear show ?thesis by (simp add: drawPreviousYear_def)
  qed
qed

lemma navigate_ok:
  assumes "cal_ok env c"
  shows "cal_ok env (navigate env e c)"
    and "month_number (navigate env e c) = month_number c + nav_months e"
proof -
  let ?k = "month_number c + nav_months e - 1"
  obtain t ats ns where d: "cal_div c = Elem t ats ns" using assms by (auto simp: cal_ok_def)
  have b: "0 \<le> ?k mod 12" "?k mod 12 < 12" by simp_all
  show "cal_ok env (navigate env e c)"
    unfolding navigate_eq [OF assms] by (rule drawCurrent_ok [of _ t ats ns]) (use d b in simp_all)
  show "month_number (navigate env e c) = month_number c + nav_months e"
    unfolding navigate_eq [OF assms]
    by (simp add: drawCurrent_def month_number_def mult_div_mod_eq)
qed

lemma navigate_undo:
  assumes "cal_ok env c"
  shows "navigate env (nav_undo e) (navigate env e c) = c"
proof -
  from assms have shown: "\<exists>t ats ns. cal_div c = Elem t ats ns"
    "cal_div c = draw env (currentMonth c) (currentYear c) (cal_selected c) (cal_div c)"
    unfolding cal_ok_def by blast+
  then obtain t ats ns where d: "cal_div c = Elem t ats ns"
    "draw env (currentMonth c) (currentYear c) (cal_selected c) (Elem t ats ns) = Elem t ats ns"
    by metis
  have u: "nav_months (nav_undo e) = - nav_months e" by (cases e) simp_all
  have m: "(month_number c - 1) mod 12 + 1 = currentMonth c" "(month_number c - 1) div 12 = currentYear c"
  proof -
    have "month_number c - 1 = 12 * currentYear c + (currentMonth c - 1)" "0 \<le> currentMonth c - 1"
      "currentMonth c - 1 < 12" using assms by (auto simp: month_number_def cal_ok_def)
    note split_12 [OF this]
    then show "(month_number c - 1) mod 12 + 1 = currentMonth c"
      "(month_number c - 1) div 12 = currentYear c" by linarith+
  qed
  have "navigate env (nav_undo e) (navigate env e c) =
      drawCurrent env ((navigate env e c)\<lparr>currentMonth := currentMonth c, currentYear := currentYear c\<rparr>)"
    by (subst navigate_eq [OF navigate_ok(1) [OF assms]]) (simp add: navigate_ok(2) [OF assms] u m)
  also have "\<dots> = c"
    unfolding navigate_eq [OF assms] drawCurrent_def using d by (simp add: draw_draw)
  finally show ?thesis .
qed

interpretation calnav: reversible_machine "navigate env" "cal_ok env" nav_undo for env
  by unfold_locales (simp_all add: navigate_ok(1) navigate_undo)

lemma navigate_fold:
  "cal_ok env c \<Longrightarrow>
     month_number (fold (navigate env) es c) = month_number c + sum_list (map nav_months es)"
  by (induction es arbitrary: c) (simp_all add: navigate_ok)

lemma drawDate_ok:
  assumes "1 \<le> month" and "month \<le> 12"
  shows "cal_ok env (drawDate env month year sel (new_calendar env sel0 (Elem t ats ns)))"
    and "month_number (drawDate env month year sel (new_calendar env sel0 (Elem t ats ns)))
      = 12 * year + month"
proof -
  let ?c = "new_calendar env sel0 (Elem t ats ns)"
  let ?c' = "(if sel \<noteq> None then ?c\<lparr>currentMonth := month, currentYear := year, cal_selected := sel\<rparr>
      else ?c\<lparr>currentMonth := month, currentYear := year\<rparr>)"
  have d: "drawDate env month year sel ?c = drawCurrent env ?c'"
    by (simp add: drawDate_def)
  show "cal_ok env (drawDate env month year sel ?c)"
    unfolding d by (rule drawCurrent_ok [of _ t ats ns]) (use assms in \<open>simp_all add: new_calendar_def\<close>)
  show "month_number (drawDate env month year sel ?c) = 12 * year + month"
    unfolding d by (simp add: month_number_def drawCurrent_def)
qed

text \<open>
  Going through the months.  From a calendar opened at a month, any sequence of steps by a
  month or a year, forward or back, ends at the month that many months away, counted over the year
  ends, and the page shows that month; undoing the steps in reverse order brings back the very
  calendar it started from.
\<close>

theorem calendar_navigation:
  assumes "1 \<le> month" and "month \<le> 12"
  shows "(let c0 = drawDate env month year sel (new_calendar env sel0 (Elem t ats ns));
              c = fold (navigate env) es c0 in
      1 \<le> currentMonth c \<and> currentMonth c \<le> 12
      \<and> 12 * currentYear c + currentMonth c = 12 * year + month + sum_list (map nav_months es)
      \<and> cal_div c = draw env (currentMonth c) (currentYear c) (cal_selected c) (cal_div c)
      \<and> fold (navigate env) (rev (map nav_undo es)) c = c0)"
proof -
  note ok = drawDate_ok [OF assms, of env year sel sel0 t ats ns]
  show ?thesis
    unfolding Let_def
    using calnav.run_invar [OF ok(1), of es, unfolded cal_ok_def] calnav.run_undo [OF ok(1), of es]
      navigate_fold [OF ok(1), of es, unfolded ok(2), unfolded month_number_def]
    by blast
qed

theorem calendar_navigation_witness:
  "let c = fold (navigate sample_env) [NextMonth, NextYear]
        (drawDate sample_env 12 2025 None (new_calendar sample_env None (Elem ''div'' [] [])))
   in 12 * currentYear c + currentMonth c = 12 * 2025 + 12 + 13"
  using calendar_navigation [where month = 12 and year = 2025 and sel = None and ?sel0.0 = None
      and t = "''div''" and ats = "[]" and ns = "[]" and env = sample_env
      and es = "[NextMonth, NextYear]"]
  unfolding Let_def by simp

end
