(* ===== verification/DateShortcuts.thy ===== *)
theory DateShortcuts
  imports Calendar
begin

text \<open>
  The shortcuts beside the date and time fields of the admin
  (\<open>koded-cli/web/backend/staticfiles/admin/js/admin/DateTimeShortcuts.js\<close>): clocks and calendars
  that open beside a field, links that enter the present time or a day, and the warning that the
  browser and the server are in different time zones.
\<close>

subsection \<open>Time\<close>

text \<open>
  A time is a number of milliseconds.  The browser's time zone is a parameter: its offset from UTC
  in seconds at a time (\<open>getTimezoneOffset() * -60\<close>), the time of a local time, and the three
  renderings of a date that depend on the locale.
\<close>

record zone =
  zone_offset :: "int \<Rightarrow> int"
  zone_time :: "int \<Rightarrow> int"
  zone_text :: "int \<Rightarrow> string \<times> string \<times> string"

abbreviation ms_per_day :: int where
  "ms_per_day \<equiv> 86400000"

definition local_time :: "zone \<Rightarrow> int \<Rightarrow> int" where
  "local_time z t = t + 1000 * zone_offset z t"

definition local_day :: "zone \<Rightarrow> int \<Rightarrow> int" where
  "local_day z t = local_time z t div ms_per_day"

definition local_date_of :: "zone \<Rightarrow> int \<Rightarrow> local_date" where
  "local_date_of z t =
     (let n = local_day z t; r = local_time z t mod ms_per_day
      in \<lparr>getFullYear = year_of_day n, getMonth = month_of_day n, getDate = date_of_day n,
          getHours = r div 3600000, getMinutes = r div 60000 mod 60, getSeconds = r div 1000 mod 60,
          getDay = week_day n, date_toString = fst (zone_text z t),
          toLocaleDateString = fst (snd (zone_text z t)),
          toLocaleTimeString = snd (snd (zone_text z t))\<rparr>)"

text \<open>\<open>new Date(y, m, d, h, 0, 0, 0)\<close> and \<open>d.setDate(k)\<close>, which keeps the time of day.\<close>

definition new_date :: "zone \<Rightarrow> int \<Rightarrow> int \<Rightarrow> int \<Rightarrow> int \<Rightarrow> int" where
  "new_date z y m d h = zone_time z (make_day (full_year y) m d * ms_per_day + h * 3600000)"

definition setDate :: "zone \<Rightarrow> int \<Rightarrow> int \<Rightarrow> int" where
  "setDate z k t =
     (let n = local_day z t
      in zone_time z (make_day (year_of_day n) (month_of_day n) k * ms_per_day
                      + local_time z t mod ms_per_day))"

subsection \<open>The page\<close>

text \<open>
  What the page is given: its zone, the server's offset (the attribute \<open>data-admin-utc-offset\<close>, a
  whole number of seconds, or none), the formats, the name tables, the choices of the clocks, and
  the translations.  \<open>hours_text\<close> and \<open>plural\<close> print and decline the hours of a number of seconds:
  the quotient by 3600 stays in seconds here.
\<close>

record dt_env =
  dt_zone :: zone
  serverOffset :: "int option"
  time_format :: string
  date_format :: string
  dt_names :: "calendar_names option"
  clockHours :: "(string \<times> (string \<times> int) list) list"
  dt_cal :: cal_env
  hours_text :: "int \<Rightarrow> string"
  plural :: "string \<Rightarrow> string \<Rightarrow> int \<Rightarrow> string"
  interpolate1 :: "string \<Rightarrow> string \<Rightarrow> string"

definition default_hours :: "(string \<times> int) list" where
  "default_hours =
     [(''Now'', -1), (''Midnight'', 0), (''6 a.m.'', 6), (''Noon'', 12), (''6 p.m.'', 18)]"

record dt_field =
  fd_type :: string
  fd_classes :: "string list"
  fd_name :: string
  fd_value :: string
  fd_parent :: nat

text \<open>
  A box that opens: whether it is shown and where, and whether its dismissal listens to clicks on
  the document.  A clock and a calendar belong to a field, by its number.
\<close>

record box =
  bx_field :: nat
  bx_open :: bool
  bx_listening :: bool
  bx_left :: int
  bx_top :: int

record dt_state =
  inputs :: "dt_field list"
  clocks :: "(box \<times> (string \<times> int) list) list"
  cals :: "(box \<times> calendar) list"
  warnings :: "nat \<rightharpoonup> string"
  timezoneOffset :: int
  focused :: "nat option"

definition new_box :: "nat \<Rightarrow> box" where
  "new_box i = \<lparr>bx_field = i, bx_open = False, bx_listening = False, bx_left = 0, bx_top = 0\<rparr>"

text \<open>\<open>now()\<close>: the browser's time moved so that its local fields are the server's.\<close>

definition server_now :: "dt_env \<Rightarrow> int \<Rightarrow> int" where
  "server_now e t =
     (case serverOffset e of
        Some so \<Rightarrow> t + 1000 * (so - zone_offset (dt_zone e) t)
      | None \<Rightarrow> t)"

definition addTimezoneWarning :: "dt_env \<Rightarrow> nat \<Rightarrow> dt_state \<Rightarrow> dt_state" where
  "addTimezoneWarning e i s =
     (let off = timezoneOffset s; p = fd_parent (inputs s ! i)
      in if off = 0 \<or> warnings s p \<noteq> None then s
         else let (secs, message) =
                (if off > 0
                 then (off, plural e ''Note: You are %s hour ahead of server time.''
                              ''Note: You are %s hours ahead of server time.'' off)
                 else (- off, plural e ''Note: You are %s hour behind server time.''
                                ''Note: You are %s hours behind server time.'' (- off)))
              in s\<lparr>warnings := (warnings s)(p \<mapsto> interpolate1 e message (hours_text e secs))\<rparr>)"

definition clock_choices :: "dt_env \<Rightarrow> string \<Rightarrow> (string \<times> int) list" where
  "clock_choices e name =
     map (\<lambda>(l, h). (tr (dt_cal e) l, h))
       (case map_of (clockHours e) name of None \<Rightarrow> default_hours | Some h \<Rightarrow> h)"

definition addClock :: "dt_env \<Rightarrow> nat \<Rightarrow> dt_state \<Rightarrow> dt_state" where
  "addClock e i s = s\<lparr>clocks := clocks s @ [(new_box i, clock_choices e (fd_name (inputs s ! i)))]\<rparr>"

text \<open>The calendar's idea of today is the browser's, at the moment of drawing.\<close>

definition cal_env_at :: "dt_env \<Rightarrow> int \<Rightarrow> cal_env" where
  "cal_env_at e t = (dt_cal e)\<lparr>today := local_date_of (dt_zone e) t\<rparr>"

definition addCalendar :: "dt_env \<Rightarrow> int \<Rightarrow> nat \<Rightarrow> dt_state \<Rightarrow> dt_state" where
  "addCalendar e t i s =
     (let env = cal_env_at e t;
          num = length (cals s);
          main = quickElement ''div'' []
            [(''id'', JStr (''calendarin'' @ show_nat num)), (''class'', JStr ''calendar'')]
      in s\<lparr>cals := cals s @ [(new_box i, drawCurrent env (new_calendar env None main))]\<rparr>)"

definition add_shortcuts :: "dt_env \<Rightarrow> int \<Rightarrow> nat \<Rightarrow> dt_state \<Rightarrow> dt_state" where
  "add_shortcuts e t i s =
     (let f = inputs s ! i
      in if fd_type f = ''text'' \<and> ''vTimeField'' \<in> set (fd_classes f)
         then addTimezoneWarning e i (addClock e i s)
         else if fd_type f = ''text'' \<and> ''vDateField'' \<in> set (fd_classes f)
         then addTimezoneWarning e i (addCalendar e t i s)
         else s)"

definition dt_init :: "dt_env \<Rightarrow> int \<Rightarrow> dt_field list \<Rightarrow> dt_state" where
  "dt_init e t fs =
     (let off = (case serverOffset e of
                   Some so \<Rightarrow> zone_offset (dt_zone e) t - so | None \<Rightarrow> 0)
      in fold (add_shortcuts e t) [0..<length fs]
           \<lparr>inputs = fs, clocks = [], cals = [], warnings = Map.empty, timezoneOffset = off,
            focused = None\<rparr>)"

subsection \<open>The handlers\<close>

definition set_value :: "nat \<Rightarrow> string \<Rightarrow> dt_state \<Rightarrow> dt_state" where
  "set_value i v s = s\<lparr>inputs := (inputs s)[i := (inputs s ! i)\<lparr>fd_value := v\<rparr>], focused := Some i\<rparr>"

definition on_clock :: "nat \<Rightarrow> (box \<Rightarrow> box) \<Rightarrow> dt_state \<Rightarrow> dt_state" where
  "on_clock num f s = s\<lparr>clocks := (clocks s)[num := map_prod f id (clocks s ! num)]\<rparr>"

definition on_cal :: "nat \<Rightarrow> (box \<Rightarrow> box) \<Rightarrow> dt_state \<Rightarrow> dt_state" where
  "on_cal num f s = s\<lparr>cals := (cals s)[num := map_prod f id (cals s ! num)]\<rparr>"

definition on_calendar :: "nat \<Rightarrow> (calendar \<Rightarrow> calendar) \<Rightarrow> dt_state \<Rightarrow> dt_state" where
  "on_calendar num f s = s\<lparr>cals := (cals s)[num := map_prod id f (cals s ! num)]\<rparr>"

text \<open>
  A box is placed beside its link, further to the left where the page reads from the right:
  17 pixels, or back by the width of the box, and higher by part of its height.
\<close>

definition show_box :: "int \<Rightarrow> int \<Rightarrow> bool \<Rightarrow> placed list \<Rightarrow> box \<Rightarrow> box" where
  "show_box width up rtl link b =
     b\<lparr>bx_left := (if \<not> rtl then findPosX link + 17 else findPosX link - width),
       bx_top := max 0 (findPosY link - up), bx_open := True, bx_listening := True\<rparr>"

definition hide_box :: "box \<Rightarrow> box" where
  "hide_box b = b\<lparr>bx_open := False, bx_listening := False\<rparr>"

definition openClock :: "nat \<Rightarrow> bool \<Rightarrow> placed list \<Rightarrow> dt_state \<Rightarrow> dt_state" where
  "openClock num rtl link = on_clock num (show_box 110 30 rtl link)"

definition dismissClock :: "nat \<Rightarrow> dt_state \<Rightarrow> dt_state" where
  "dismissClock num = on_clock num hide_box"

definition handleClockQuicklink :: "dt_env \<Rightarrow> int \<Rightarrow> nat \<Rightarrow> int \<Rightarrow> dt_state \<Rightarrow> dt_state" where
  "handleClockQuicklink e t num val s =
     (let d = (if val = -1 then server_now e t else new_date (dt_zone e) 1970 1 1 val);
          txt = strftime (dt_names e) (local_date_of (dt_zone e) d) (time_format e)
      in dismissClock num (set_value (bx_field (fst (clocks s ! num))) txt s))"

text \<open>The test \<open>/\d{4}/\<close>: four digits in a row.\<close>

fun four_digits :: "string \<Rightarrow> bool" where
  "four_digits (a # b # c # d # s) =
     (is_digit a \<and> is_digit b \<and> is_digit c \<and> is_digit d \<or> four_digits (b # c # d # s))"
| "four_digits s = False"

definition openCalendar :: "dt_env \<Rightarrow> int \<Rightarrow> nat \<Rightarrow> bool \<Rightarrow> placed list \<Rightarrow> dt_state \<Rightarrow> dt_state" where
  "openCalendar e t num rtl link s =
     (let v = fd_value (inputs s ! bx_field (fst (cals s ! num)));
          s1 = (if v = [] then s
                else (case strptime v (date_format e) of
                    None \<Rightarrow> s
                  | Some n \<Rightarrow>
                      (let year = year_of_day n; month = month_of_day n + 1
                       in if four_digits (show_int year) \<and> 1 \<le> month \<and> month \<le> 12
                          then on_calendar num (drawDate (cal_env_at e t) month year (Some (Some n))) s
                          else s)))
      in on_cal num (show_box 180 75 rtl link) s1)"

definition dismissCalendar :: "nat \<Rightarrow> dt_state \<Rightarrow> dt_state" where
  "dismissCalendar num = on_cal num hide_box"

definition drawPrev :: "dt_env \<Rightarrow> int \<Rightarrow> nat \<Rightarrow> dt_state \<Rightarrow> dt_state" where
  "drawPrev e t num = on_calendar num (drawPreviousMonth (cal_env_at e t))"

definition drawNext :: "dt_env \<Rightarrow> int \<Rightarrow> nat \<Rightarrow> dt_state \<Rightarrow> dt_state" where
  "drawNext e t num = on_calendar num (drawNextMonth (cal_env_at e t))"

text \<open>The callback of a day's link hides the box and leaves the listener.\<close>

definition handleCalendarCallback :: "dt_env \<Rightarrow> nat \<Rightarrow> int \<Rightarrow> int \<Rightarrow> int \<Rightarrow> dt_state \<Rightarrow> dt_state" where
  "handleCalendarCallback e num y m d s =
     (let txt = strftime (dt_names e)
            (local_date_of (dt_zone e) (new_date (dt_zone e) y (m - 1) d 0)) (date_format e)
      in on_cal num (\<lambda>b. b\<lparr>bx_open := False\<rparr>)
           (set_value (bx_field (fst (cals s ! num))) txt s))"

definition handleCalendarQuickLink :: "dt_env \<Rightarrow> int \<Rightarrow> nat \<Rightarrow> int \<Rightarrow> dt_state \<Rightarrow> dt_state" where
  "handleCalendarQuickLink e t num offset s =
     (let now = server_now e t;
          d = setDate (dt_zone e) (date_of_day (local_day (dt_zone e) now) + offset) now;
          txt = strftime (dt_names e) (local_date_of (dt_zone e) d) (date_format e)
      in dismissCalendar num (set_value (bx_field (fst (cals s ! num))) txt s))"

subsection \<open>Events\<close>

text \<open>
  A click that reaches the document runs the dismissals that listen there; the links that open
  a box, and everything inside a box, stop the click.  The escape key dismisses every box.
\<close>

definition dismiss_listening :: "box \<Rightarrow> box" where
  "dismiss_listening b = (if bx_listening b then hide_box b else b)"

definition on_boxes :: "(box \<Rightarrow> box) \<Rightarrow> dt_state \<Rightarrow> dt_state" where
  "on_boxes f s = s\<lparr>clocks := map (map_prod f id) (clocks s), cals := map (map_prod f id) (cals s)\<rparr>"

definition document_click :: "dt_state \<Rightarrow> dt_state" where
  "document_click = on_boxes dismiss_listening"

text \<open>The listeners of the links, as \<open>addClock\<close> and \<open>addCalendar\<close> set them.\<close>

definition now_link :: "dt_env \<Rightarrow> int \<Rightarrow> nat \<Rightarrow> dt_state \<Rightarrow> dt_state" where
  "now_link e t num s = document_click (handleClockQuicklink e t num (-1) s)"

definition clock_link :: "nat \<Rightarrow> bool \<Rightarrow> placed list \<Rightarrow> dt_state \<Rightarrow> dt_state" where
  "clock_link num rtl link s = openClock num rtl link s"

definition time_choice :: "dt_env \<Rightarrow> int \<Rightarrow> nat \<Rightarrow> nat \<Rightarrow> dt_state \<Rightarrow> dt_state" where
  "time_choice e t num k s = handleClockQuicklink e t num (snd (snd (clocks s ! num) ! k)) s"

definition clock_cancel :: "nat \<Rightarrow> dt_state \<Rightarrow> dt_state" where
  "clock_cancel num s = dismissClock num s"

definition today_link :: "dt_env \<Rightarrow> int \<Rightarrow> nat \<Rightarrow> dt_state \<Rightarrow> dt_state" where
  "today_link e t num s = document_click (handleCalendarQuickLink e t num 0 s)"

definition calendar_link :: "dt_env \<Rightarrow> int \<Rightarrow> nat \<Rightarrow> bool \<Rightarrow> placed list \<Rightarrow> dt_state \<Rightarrow> dt_state" where
  "calendar_link e t num rtl link s = openCalendar e t num rtl link s"

definition previous_link :: "dt_env \<Rightarrow> int \<Rightarrow> nat \<Rightarrow> dt_state \<Rightarrow> dt_state" where
  "previous_link e t num s = drawPrev e t num s"

definition next_link :: "dt_env \<Rightarrow> int \<Rightarrow> nat \<Rightarrow> dt_state \<Rightarrow> dt_state" where
  "next_link e t num s = drawNext e t num s"

definition day_link :: "dt_env \<Rightarrow> int \<Rightarrow> nat \<Rightarrow> int \<Rightarrow> dt_state \<Rightarrow> dt_state" where
  "day_link e t num offset s =
     (if offset \<in> {-1, 0, 1} then handleCalendarQuickLink e t num offset s else s)"

definition calendar_cancel :: "nat \<Rightarrow> dt_state \<Rightarrow> dt_state" where
  "calendar_cancel num s = dismissCalendar num s"

definition escape_key :: "dt_state \<Rightarrow> dt_state" where
  "escape_key s = on_boxes hide_box s"

lemmas link_defs [simp] = now_link_def clock_link_def time_choice_def clock_cancel_def
  today_link_def calendar_link_def previous_link_def next_link_def day_link_def
  calendar_cancel_def escape_key_def

datatype dt_event =
    Clock_link nat bool "placed list"
  | Now_link nat
  | Time_choice nat nat
  | Clock_cancel nat
  | Calendar_link nat bool "placed list"
  | Today_link nat
  | Day_link nat int
  | Previous_link nat
  | Next_link nat
  | Day_cell nat int
  | Calendar_cancel nat
  | Escape_key
  | Click_elsewhere
  | Typed nat string

text \<open>What is inside a box can be used while the box is shown; a day's link carries the year and
  the month that were drawn.\<close>

definition clock_shown :: "nat \<Rightarrow> dt_state \<Rightarrow> bool" where
  "clock_shown num s = (num < length (clocks s) \<and> bx_open (fst (clocks s ! num)))"

definition cal_shown :: "nat \<Rightarrow> dt_state \<Rightarrow> bool" where
  "cal_shown num s = (num < length (cals s) \<and> bx_open (fst (cals s ! num)))"

fun dt_handle :: "dt_env \<Rightarrow> int \<times> dt_event \<Rightarrow> dt_state \<Rightarrow> dt_state" where
  "dt_handle e (t, Clock_link num rtl link) s =
     (if num < length (clocks s) then clock_link num rtl link s else s)"
| "dt_handle e (t, Now_link num) s = (if num < length (clocks s) then now_link e t num s else s)"
| "dt_handle e (t, Time_choice num k) s =
     (if clock_shown num s \<and> k < length (snd (clocks s ! num)) then time_choice e t num k s else s)"
| "dt_handle e (t, Clock_cancel num) s = (if clock_shown num s then clock_cancel num s else s)"
| "dt_handle e (t, Calendar_link num rtl link) s =
     (if num < length (cals s) then calendar_link e t num rtl link s else s)"
| "dt_handle e (t, Today_link num) s = (if num < length (cals s) then today_link e t num s else s)"
| "dt_handle e (t, Day_link num offset) s =
     (if cal_shown num s then day_link e t num offset s else s)"
| "dt_handle e (t, Previous_link num) s = (if cal_shown num s then previous_link e t num s else s)"
| "dt_handle e (t, Next_link num) s = (if cal_shown num s then next_link e t num s else s)"
| "dt_handle e (t, Day_cell num d) s =
     (let c = snd (cals s ! num)
      in if cal_shown num s \<and> 1 \<le> d \<and> d \<le> getDaysInMonth (currentMonth c) (currentYear c)
         then handleCalendarCallback e num (currentYear c) (currentMonth c) d s else s)"
| "dt_handle e (t, Calendar_cancel num) s = (if cal_shown num s then calendar_cancel num s else s)"
| "dt_handle e (t, Escape_key) s = escape_key s"
| "dt_handle e (t, Click_elsewhere) s = document_click s"
| "dt_handle e (t, Typed i v) s =
     (if i < length (inputs s) then s\<lparr>inputs := (inputs s)[i := (inputs s ! i)\<lparr>fd_value := v\<rparr>]\<rparr>
      else s)"

subsection \<open>Every run keeps the boxes and their listeners in step\<close>

definition clock_ok :: "nat \<Rightarrow> box \<times> (string \<times> int) list \<Rightarrow> bool" where
  "clock_ok n c \<longleftrightarrow> bx_open (fst c) = bx_listening (fst c) \<and> bx_field (fst c) < n"

text \<open>A calendar shows its month; after a day was chosen, its listener may outlive the box.\<close>

definition calbox_ok :: "nat \<Rightarrow> box \<times> calendar \<Rightarrow> bool" where
  "calbox_ok n c \<longleftrightarrow> (bx_open (fst c) \<longrightarrow> bx_listening (fst c)) \<and> bx_field (fst c) < n
     \<and> (\<exists>env. cal_ok env (snd c))"

definition dt_ok :: "dt_state \<Rightarrow> bool" where
  "dt_ok s \<longleftrightarrow> list_all (clock_ok (length (inputs s))) (clocks s)
     \<and> list_all (calbox_ok (length (inputs s))) (cals s)"

lemma list_all_update: "list_all P xs \<Longrightarrow> (i < length xs \<Longrightarrow> P x) \<Longrightarrow> list_all P (xs[i := x])"
  using set_update_subset_insert [of xs i x] by (cases "i < length xs") (auto simp: list_all_iff list_update_beyond)

lemma dt_ok_nth:
  assumes "dt_ok s"
  shows "num < length (clocks s) \<Longrightarrow> clock_ok (length (inputs s)) (clocks s ! num)"
    "num < length (cals s) \<Longrightarrow> calbox_ok (length (inputs s)) (cals s ! num)"
  using assms by (auto simp: dt_ok_def list_all_length)

lemma box_simps [simp]:
  "bx_field (show_box w u rtl link b) = bx_field b" "bx_open (show_box w u rtl link b)"
  "bx_listening (show_box w u rtl link b)"
  "bx_field (hide_box b) = bx_field b" "\<not> bx_open (hide_box b)" "\<not> bx_listening (hide_box b)"
  by (simp_all add: show_box_def hide_box_def)

lemma dt_ok_on_clock:
  assumes "dt_ok s" and "\<And>b. bx_field (f b) = bx_field b \<and> bx_open (f b) = bx_listening (f b)"
  shows "dt_ok (on_clock num f s)"
  using assms dt_ok_nth(1) [OF assms(1), of num]
  by (auto simp: dt_ok_def on_clock_def clock_ok_def intro!: list_all_update)

lemma dt_ok_on_cal:
  assumes "dt_ok s"
    and "\<And>b. bx_field (f b) = bx_field b \<and> (bx_open (f b) \<longrightarrow> bx_listening (f b))"
  shows "dt_ok (on_cal num f s)"
  using assms dt_ok_nth(2) [OF assms(1), of num]
  by (auto simp: dt_ok_def on_cal_def calbox_ok_def intro!: list_all_update)

lemma dt_ok_on_calendar:
  assumes "dt_ok s" and "\<And>c env. cal_ok env c \<Longrightarrow> \<exists>env. cal_ok env (f c)"
  shows "dt_ok (on_calendar num f s)"
  using assms dt_ok_nth(2) [OF assms(1), of num]
  by (auto simp: dt_ok_def on_calendar_def calbox_ok_def intro!: list_all_update)

lemma dt_ok_set_value: "dt_ok s \<Longrightarrow> dt_ok (set_value i v s)"
  by (simp add: dt_ok_def set_value_def)

lemma dt_ok_boxes:
  assumes "dt_ok s" and "\<And>b. bx_field (f b) = bx_field b"
    and "\<And>b. bx_open b = bx_listening b \<Longrightarrow> bx_open (f b) = bx_listening (f b)"
    and "\<And>b. (bx_open b \<longrightarrow> bx_listening b) \<Longrightarrow> bx_open (f b) \<Longrightarrow> bx_listening (f b)"
  shows "dt_ok (on_boxes f s)"
  using assms by (auto simp: dt_ok_def on_boxes_def list_all_iff clock_ok_def calbox_ok_def)

lemma dt_ok_click: "dt_ok s \<Longrightarrow> dt_ok (document_click s)"
  unfolding document_click_def by (rule dt_ok_boxes) (auto simp: dismiss_listening_def split: if_splits)

lemma cal_ok_step:
  assumes "cal_ok env c"
  shows "\<exists>env. cal_ok env (drawNextMonth env' c)" "\<exists>env. cal_ok env (drawPreviousMonth env' c)"
    "1 \<le> month \<Longrightarrow> month \<le> 12 \<Longrightarrow> \<exists>env. cal_ok env (drawDate env' month year sel c)"
proof -
  from assms obtain t ats ns where d: "cal_div c = Elem t ats ns"
    and m: "1 \<le> currentMonth c" "currentMonth c \<le> 12" by (auto simp: cal_ok_def)
  show "\<exists>env. cal_ok env (drawNextMonth env' c)" "\<exists>env. cal_ok env (drawPreviousMonth env' c)"
    using d m by (auto simp: drawNextMonth_def drawPreviousMonth_def intro!: exI [of _ env'] drawCurrent_ok)
  show "1 \<le> month \<Longrightarrow> month \<le> 12 \<Longrightarrow> \<exists>env. cal_ok env (drawDate env' month year sel c)"
    using d by (auto simp: drawDate_def Let_def intro!: exI [of _ env'] drawCurrent_ok)
qed

lemma dt_ok_openCalendar: "dt_ok s \<Longrightarrow> dt_ok (openCalendar e t num rtl link s)"
  by (auto simp: openCalendar_def Let_def intro!: dt_ok_on_cal dt_ok_on_calendar cal_ok_step(3)
      split: option.split)

lemma dt_ok_handle: "dt_ok s \<Longrightarrow> dt_ok (dt_handle e te s)"
  by (induction e te s rule: dt_handle.induct)
    (auto simp: Let_def openClock_def dismissClock_def dismissCalendar_def handleClockQuicklink_def
      handleCalendarQuickLink_def handleCalendarCallback_def drawPrev_def drawNext_def
      intro!: dt_ok_click dt_ok_on_clock dt_ok_on_cal dt_ok_on_calendar dt_ok_set_value
        dt_ok_openCalendar dt_ok_boxes cal_ok_step(1,2),
     simp add: dt_ok_def)

interpretation shortcuts: event_machine "dt_handle e" dt_ok for e
  by unfold_locales (rule dt_ok_handle)

lemma dt_ok_add:
  assumes "dt_ok s" and "i < length (inputs s)"
  shows "dt_ok (addClock e i s)" "dt_ok (addCalendar e t i s)" "dt_ok (addTimezoneWarning e i s)"
proof -
  have b: "bx_field (new_box i) < length (inputs s)" "\<not> bx_open (new_box i)"
    "\<not> bx_listening (new_box i)" using assms(2) by (simp_all add: new_box_def)
  show "dt_ok (addClock e i s)"
    using assms(1) b by (simp add: addClock_def Let_def dt_ok_def clock_ok_def)
  let ?env = "cal_env_at e t"
  have "getMonth (today ?env) = month_of_day (local_day (dt_zone e) t)"
    by (simp add: cal_env_at_def local_date_of_def Let_def)
  then have "0 \<le> getMonth (today ?env)" "getMonth (today ?env) < 12"
    using fields_of_day [of "local_day (dt_zone e) t"] by (simp_all add: valid_date_def)
  then have "\<exists>env. cal_ok env (drawCurrent ?env (new_calendar ?env None (Elem tag ats ns)))"
    for tag ats ns by (intro exI [of _ ?env] drawCurrent_ok) (simp_all add: new_calendar_def)
  then show "dt_ok (addCalendar e t i s)"
    using assms(1) b by (simp add: addCalendar_def Let_def dt_ok_def calbox_ok_def quickElement_def)
  show "dt_ok (addTimezoneWarning e i s)"
    using assms(1) by (auto simp: addTimezoneWarning_def Let_def dt_ok_def split: prod.split)
qed

lemma add_inputs [simp]:
  "inputs (addClock e i s) = inputs s" "inputs (addCalendar e t i s) = inputs s"
  "inputs (addTimezoneWarning e i s) = inputs s"
  by (simp_all add: addClock_def addCalendar_def addTimezoneWarning_def Let_def split: prod.split)

lemma dt_ok_fold:
  "dt_ok s \<Longrightarrow> \<forall>i \<in> set is. i < length (inputs s) \<Longrightarrow> dt_ok (fold (add_shortcuts e t) is s)"
proof (induction "is" arbitrary: s)
  case (Cons i "is")
  then have "dt_ok (add_shortcuts e t i s)" "inputs (add_shortcuts e t i s) = inputs s"
    by (auto simp: add_shortcuts_def Let_def dt_ok_add)
  then show ?case using Cons by simp
qed simp

text \<open>The fields that get a box.\<close>

definition boxed :: "dt_field \<Rightarrow> bool" where
  "boxed f \<longleftrightarrow> fd_type f = ''text'' \<and> (''vTimeField'' \<in> set (fd_classes f) \<or> ''vDateField'' \<in> set (fd_classes f))"

lemma add_boxes [simp]:
  "length (clocks (addClock e i s)) = Suc (length (clocks s))" "length (cals (addClock e i s)) = length (cals s)"
  "length (clocks (addCalendar e t i s)) = length (clocks s)" "length (cals (addCalendar e t i s)) = Suc (length (cals s))"
  "clocks (addTimezoneWarning e i s) = clocks s" "cals (addTimezoneWarning e i s) = cals s"
  by (simp_all add: addClock_def addCalendar_def addTimezoneWarning_def Let_def split: prod.split)

lemma fold_boxes:
  "length (clocks (fold (add_shortcuts e t) is s)) + length (cals (fold (add_shortcuts e t) is s))
    = length (clocks s) + length (cals s) + length (filter (\<lambda>i. boxed (inputs s ! i)) is)"
proof (induction "is" arbitrary: s)
  case (Cons i "is")
  have "inputs (add_shortcuts e t i s) = inputs s" by (simp add: add_shortcuts_def Let_def)
  moreover have "length (clocks (add_shortcuts e t i s)) + length (cals (add_shortcuts e t i s))
      = length (clocks s) + length (cals s) + (if boxed (inputs s ! i) then 1 else 0)"
    by (simp add: add_shortcuts_def boxed_def Let_def)
  ultimately show ?case using Cons by simp
qed simp

lemma dt_ok_init: "dt_ok (dt_init e t fs)"
  unfolding dt_init_def Let_def by (rule dt_ok_fold) (simp_all add: dt_ok_def)

lemma hidden_boxes:
  assumes "dt_ok s"
  shows "on_boxes hide_box s = s\<lparr>clocks := map (map_prod hide_box id) (clocks s),
      cals := map (map_prod hide_box id) (cals s)\<rparr>"
    "list_all (\<lambda>c. \<not> bx_open (fst c)) (clocks (document_click s))"
    "list_all (\<lambda>c. \<not> bx_open (fst c)) (cals (document_click s))"
  using assms
  by (auto simp: on_boxes_def document_click_def dt_ok_def clock_ok_def calbox_ok_def
      dismiss_listening_def list_all_iff)

text \<open>
  C40: no box is left open.  After any events on any page, a clock is shown exactly while its
  dismissal listens to the document, a calendar only while its does, and every calendar shows its
  month; so a click beside the boxes closes all of them, the escape key does too, and neither
  changes what the fields hold.
\<close>

theorem boxes_dismissed:
  "let s = fold (dt_handle e) es (dt_init e t fs);
       s1 = dt_handle e (t1, Click_elsewhere) s;
       s2 = dt_handle e (t1, Escape_key) s
   in list_all (\<lambda>c. bx_open (fst c) = bx_listening (fst c)) (clocks s)
      \<and> list_all (\<lambda>c. bx_open (fst c) \<le> bx_listening (fst c) \<and> (\<exists>env. cal_ok env (snd c))) (cals s)
      \<and> list_all (\<lambda>c. \<not> bx_open (fst c)) (clocks s1) \<and> list_all (\<lambda>c. \<not> bx_open (fst c)) (cals s1)
      \<and> list_all (\<lambda>c. \<not> bx_open (fst c)) (clocks s2) \<and> list_all (\<lambda>c. \<not> bx_open (fst c)) (cals s2)
      \<and> inputs s1 = inputs s \<and> inputs s2 = inputs s"
proof -
  define s where "s = fold (dt_handle e) es (dt_init e t fs)"
  have ok: "dt_ok s" unfolding s_def by (rule shortcuts.run_invar [OF dt_ok_init])
  then have "list_all (\<lambda>c. bx_open (fst c) = bx_listening (fst c)) (clocks s)"
    "list_all (\<lambda>c. bx_open (fst c) \<le> bx_listening (fst c) \<and> (\<exists>env. cal_ok env (snd c))) (cals s)"
    by (auto simp: dt_ok_def list_all_iff clock_ok_def calbox_ok_def)
  then show ?thesis
    unfolding s_def [symmetric] Let_def
    using hidden_boxes [OF ok]
    by (simp add: document_click_def on_boxes_def list_all_iff)
qed

subsection \<open>Days entered and read back\<close>

lemma four_digits_append: "four_digits s \<Longrightarrow> four_digits (s @ t)"
proof (induction s rule: four_digits.induct)
  case (1 a b c d s)
  then show ?case by (cases t) auto
qed auto

lemma four_digits_year:
  assumes "1000 \<le> y"
  shows "four_digits (show_int y)"
proof -
  have "four_digits (show_nat n)" if "1000 \<le> n" for n
    using that
  proof (induction n rule: show_nat.induct)
    case (1 n)
    show ?case
    proof (cases "n < 10000")
      case True
      then show ?thesis using 1(2) by (simp add: show_nat_4)
    next
      case False
      then have "four_digits (show_nat (n div 10))" using 1 by simp
      then show ?thesis using False by (simp add: show_nat.simps [of n] four_digits_append)
    qed
  qed
  then show ?thesis using assms by (simp add: show_int_def)
qed

text \<open>
  What a format of the day, the month and the year prints of a time is read as the day of that
  time in the browser's zone.
\<close>

definition good_format :: "string \<Rightarrow> int \<Rightarrow> bool" where
  "good_format fmt y \<longleftrightarrow>
     (\<exists>f a g b h yc. fmt = format3 f a g b h \<and> {f, g, h} = {CHR ''d'', CHR ''m'', yc}
        \<and> date_sep a \<and> date_sep b \<and> year_code_ok yc y)"

lemma strptime_local:
  assumes "good_format fmt (year_of_day (local_day z t))"
  shows "strptime (strftime ns (local_date_of z t) fmt) fmt = Some (local_day z t)"
proof -
  let ?d = "local_date_of z t" and ?n = "local_day z t"
  have d: "getFullYear ?d = year_of_day ?n" "getMonth ?d = month_of_day ?n" "getDate ?d = date_of_day ?n"
    by (simp_all add: local_date_of_def Let_def)
  obtain f a g b h yc where fmt: "fmt = format3 f a g b h"
    and p: "{f, g, h} = {CHR ''d'', CHR ''m'', yc}" "date_sep a" "date_sep b"
      "year_code_ok yc (year_of_day ?n)"
    using assms unfolding good_format_def by (elim exE conjE) (rule that)
  note yc = p(4) [folded d(1)]
  have "valid_date (getFullYear ?d) (getMonth ?d) (getDate ?d)"
    unfolding d using fields_of_day by blast
  from strptime_format3 [OF this yc p(1,2,3)] show ?thesis
    unfolding fmt d using fields_of_day [of ?n] by simp
qed

lemma strftime_format_ne:
  assumes "good_format fmt y"
  shows "strftime ns d fmt \<noteq> []"
proof -
  obtain f a g b h where "fmt = format3 f a g b h" "date_sep a" "date_sep b"
    using assms by (auto simp: good_format_def)
  then show ?thesis using strftime_format3 [of a b ns d f g h] by simp
qed

text \<open>What the handlers do to the field and the box they are for.\<close>

lemma on_cal_simps [simp]:
  "inputs (on_cal num f s) = inputs s" "length (cals (on_cal num f s)) = length (cals s)"
  "num < length (cals s) \<Longrightarrow> cals (on_cal num f s) ! num = map_prod f id (cals s ! num)"
  "inputs (on_calendar num g s) = inputs s" "length (cals (on_calendar num g s)) = length (cals s)"
  "num < length (cals s) \<Longrightarrow> cals (on_calendar num g s) ! num = map_prod id g (cals s ! num)"
  by (simp_all add: on_cal_def on_calendar_def)

lemma set_value_simps [simp]:
  "cals (set_value i v s) = cals s" "clocks (set_value i v s) = clocks s"
  "i < length (inputs s) \<Longrightarrow> fd_value (inputs (set_value i v s) ! i) = v"
  "length (inputs (set_value i v s)) = length (inputs s)"
  by (simp_all add: set_value_def)

lemma openCalendar_day:
  assumes "num < length (cals s)" and "strptime (fd_value (inputs s ! bx_field (fst (cals s ! num)))) (date_format e) = Some n"
    and "fd_value (inputs s ! bx_field (fst (cals s ! num))) \<noteq> []" and "1000 \<le> year_of_day n"
  shows "snd (cals (openCalendar e t num rtl link s) ! num)
      = drawDate (cal_env_at e t) (month_of_day n + 1) (year_of_day n) (Some (Some n)) (snd (cals s ! num))"
    "bx_open (fst (cals (openCalendar e t num rtl link s) ! num))"
proof -
  have "1 \<le> month_of_day n + 1" "month_of_day n + 1 \<le> 12"
    using fields_of_day [of n] by (auto simp: valid_date_def)
  then show "snd (cals (openCalendar e t num rtl link s) ! num)
      = drawDate (cal_env_at e t) (month_of_day n + 1) (year_of_day n) (Some (Some n)) (snd (cals s ! num))"
    "bx_open (fst (cals (openCalendar e t num rtl link s) ! num))"
    using assms by (simp_all add: openCalendar_def Let_def four_digits_year)
qed

lemma drawDate_simps [simp]:
  "currentMonth (drawDate env m y (Some sel) c) = m" "currentYear (drawDate env m y (Some sel) c) = y"
  "cal_selected (drawDate env m y (Some sel) c) = Some sel"
  by (simp_all add: drawDate_def drawCurrent_def)

text \<open>
  C4: the day chosen is the day shown.  After the user chooses a day in a calendar, opening the
  calendar again, whenever that is, draws the month of that day and marks the day as selected: the
  text put into the field is read back as the same day.  The format is made of the day, the month
  and the year, the year has four digits, and the day has a midnight in the browser's zone.
\<close>

theorem picked_day_reopens:
  assumes "dt_ok s" and "cal_shown num s"
    and "c = snd (cals s ! num)" and "1 \<le> d" and "d \<le> getDaysInMonth (currentMonth c) (currentYear c)"
    and "good_format (date_format e) (currentYear c)" and "1000 \<le> currentYear c"
    and "n = make_day (currentYear c) (currentMonth c - 1) d"
    and "local_day (dt_zone e) (zone_time (dt_zone e) (n * ms_per_day)) = n"
  shows "let s1 = dt_handle e (t, Day_cell num d) s;
             s2 = dt_handle e (t2, Calendar_link num rtl link) s1;
             c2 = snd (cals s2 ! num)
    in \<not> cal_shown num s1 \<and> cal_shown num s2
       \<and> currentMonth c2 = currentMonth c \<and> currentYear c2 = currentYear c
       \<and> day_class td (cal_selected c2) (currentMonth c2) (currentYear c2) d
           \<in> {''selected'', ''today selected''}"
proof -
  let ?i = "bx_field (fst (cals s ! num))"
  from assms(2) have num: "num < length (cals s)" by (simp add: cal_shown_def)
  obtain env where "?i < length (inputs s)" "cal_ok env c"
    using dt_ok_nth(2) [OF assms(1) num] assms(3) by (auto simp: calbox_ok_def)
  then have i: "?i < length (inputs s)" and m: "1 \<le> currentMonth c" "currentMonth c \<le> 12"
    by (auto simp: cal_ok_def)
  have v: "valid_date (currentYear c) (currentMonth c - 1) d"
    using assms(4,5) m days_in_month [OF m] by (simp add: valid_date_def)
  have f: "year_of_day n = currentYear c" "month_of_day n + 1 = currentMonth c"
    unfolding assms(8) using year_of_make_day [OF v] month_of_make_day [OF v] by simp_all
  let ?t = "new_date (dt_zone e) (currentYear c) (currentMonth c - 1) d 0"
  have day: "local_day (dt_zone e) ?t = n"
    using assms(7,8,9) by (simp add: new_date_def full_year_def)
  let ?txt = "strftime (dt_names e) (local_date_of (dt_zone e) ?t) (date_format e)"
  define s1 where "s1 = dt_handle e (t, Day_cell num d) s"
  have s1: "s1 = on_cal num (\<lambda>b. b\<lparr>bx_open := False\<rparr>) (set_value ?i ?txt s)"
    using assms(2-5) by (simp add: s1_def handleCalendarCallback_def Let_def)
  have p: "strptime ?txt (date_format e) = Some n"
    using strptime_local [of "date_format e" "dt_zone e" ?t] assms(6) by (simp add: day f(1))
  have c1: "snd (cals s1 ! num) = c" "bx_field (fst (cals s1 ! num)) = ?i" "num < length (cals s1)"
    "fd_value (inputs s1 ! ?i) = ?txt" "\<not> cal_shown num s1"
    using num i assms(3) by (simp_all add: s1 cal_shown_def)
  have "?txt \<noteq> []" by (rule strftime_format_ne [OF assms(6)])
  note op = openCalendar_day [of num s1 e n t2 rtl link, unfolded c1, OF c1(3) p this]
  have "day_class td (Some (Some n)) (currentMonth c) (currentYear c) d \<in> {''selected'', ''today selected''}"
    unfolding assms(8) by (rule iffD2 [OF selected_mark [OF m assms(4,5)] refl])
  moreover have "dt_handle e (t2, Calendar_link num rtl link) s1 = openCalendar e t2 num rtl link s1"
    using c1(3) by simp
  moreover have "num < length (cals (openCalendar e t2 num rtl link s1))"
    using c1(3) by (simp add: openCalendar_def Let_def split: option.split)
  ultimately show ?thesis
    using op c1(5) assms(7) f unfolding s1_def [symmetric] Let_def
    by (simp only: cal_shown_def drawDate_simps simp_thms)
qed

text \<open>
  The shortcuts enter the server's day.  Yesterday, today and tomorrow enter the day that it is
  at the server, moved by the offset, whatever the time zone of the browser: the text in the field
  reads as that day.  The browser's zone keeps its offset between its own time and the server's,
  and its clock shows the time of day on the day entered.
\<close>

theorem quick_day_is_servers:
  assumes "num < length (cals s)" and "dt_ok s"
    and "ev = Today_link num \<and> k = 0 \<or> ev = Day_link num k \<and> cal_shown num s \<and> k \<in> {-1, 0, 1}"
    and "serverOffset e = Some so"
    and "zone_offset (dt_zone e) (server_now e t) = zone_offset (dt_zone e) t"
    and "n = (t + 1000 * so) div ms_per_day + k"
    and "local_day (dt_zone e) (zone_time (dt_zone e)
           (n * ms_per_day + (t + 1000 * so) mod ms_per_day)) = n"
    and "good_format (date_format e) (year_of_day n)"
  shows "strptime (fd_value (inputs (dt_handle e (t, ev) s) ! bx_field (fst (cals s ! num))))
           (date_format e) = Some n
    \<and> \<not> cal_shown num (dt_handle e (t, ev) s)"
proof -
  let ?z = "dt_zone e" and ?now = "server_now e t" and ?i = "bx_field (fst (cals s ! num))"
  have i: "?i < length (inputs s)"
    using dt_ok_nth(2) [OF assms(2,1)] by (simp add: calbox_ok_def)
  have lt: "local_time ?z ?now = t + 1000 * so"
    using assms(4,5) by (simp add: local_time_def server_now_def)
  then have day: "local_day ?z ?now + k = n" by (simp add: local_day_def assms(6))
  let ?d = "setDate ?z (date_of_day (local_day ?z ?now) + k) ?now"
  have "?d = zone_time ?z (n * ms_per_day + (t + 1000 * so) mod ms_per_day)"
  proof -
    have "make_day (year_of_day (local_day ?z ?now)) (month_of_day (local_day ?z ?now))
        (date_of_day (local_day ?z ?now) + k) = n"
      using fields_of_day [of "local_day ?z ?now"] day by (simp add: make_day_add)
    then show ?thesis by (simp only: setDate_def Let_def lt)
  qed
  then have d: "local_day ?z ?d = n" using assms(7) by simp
  define s1 where "s1 = handleCalendarQuickLink e t num k s"
  have s1: "s1 = on_cal num hide_box (set_value ?i (strftime (dt_names e) (local_date_of ?z ?d)
      (date_format e)) s)"
    by (simp add: s1_def handleCalendarQuickLink_def dismissCalendar_def Let_def)
  have "dt_handle e (t, ev) s = s1 \<or> dt_handle e (t, ev) s = document_click s1"
    using assms(1,3) by (auto simp: s1_def)
  moreover have "inputs (document_click s1) = inputs s1"
    "cal_shown num (document_click s1) \<Longrightarrow> cal_shown num s1"
    by (auto simp: document_click_def on_boxes_def cal_shown_def dismiss_listening_def
        split: if_splits)
  moreover have "\<not> cal_shown num s1" using assms(1) by (simp add: s1 cal_shown_def)
  moreover have "strptime (fd_value (inputs s1 ! ?i)) (date_format e) = Some n"
    using strptime_local [of "date_format e" ?z ?d] assms(8) i by (simp add: s1 d)
  ultimately show ?thesis by auto
qed

subsection \<open>Instances\<close>

text \<open>A page with a date and a time in one place; the browser is two hours east of the server.\<close>

definition sample_zone :: zone where
  "sample_zone = \<lparr>zone_offset = (\<lambda>_. 7200), zone_time = (\<lambda>t. t - 7200000),
     zone_text = (\<lambda>_. ([], [], []))\<rparr>"

definition sample_dt :: dt_env where
  "sample_dt = \<lparr>dt_zone = sample_zone, serverOffset = Some 0, time_format = ''%H:%M:%S'',
     date_format = ''%Y-%m-%d'', dt_names = None, clockHours = [], dt_cal = sample_env,
     hours_text = (\<lambda>s. show_int (s div 3600)), plural = (\<lambda>s p n. if n = 3600 then s else p),
     interpolate1 = (\<lambda>m a. m @ a)\<rparr>"

definition sample_inputs :: "dt_field list" where
  "sample_inputs =
     [\<lparr>fd_type = ''text'', fd_classes = [''vDateField''], fd_name = ''day_0'', fd_value = [], fd_parent = 0\<rparr>,
      \<lparr>fd_type = ''text'', fd_classes = [''vTimeField''], fd_name = ''day_1'', fd_value = [], fd_parent = 0\<rparr>]"

text \<open>7 February 2026, 23:00 at the server, already the next day in the browser.\<close>

definition sample_now :: int where
  "sample_now = make_day 2026 1 7 * ms_per_day + 23 * 3600000"

lemma sample_good: "good_format (date_format sample_dt) 2026"
  unfolding good_format_def
  by (rule exI [of _ "CHR ''Y''"], rule exI [of _ "CHR ''-''"], rule exI [of _ "CHR ''m''"],
      rule exI [of _ "CHR ''-''"], rule exI [of _ "CHR ''d''"], rule exI [of _ "CHR ''Y''"])
    (auto simp: sample_dt_def format3_def date_sep_def year_code_ok_def)

text \<open>The calendar is open at February.\<close>

definition sample_opened :: dt_state where
  "sample_opened = \<lparr>inputs = sample_inputs, clocks = [],
     cals = [((new_box 0)\<lparr>bx_open := True, bx_listening := True\<rparr>,
              drawDate sample_env 2 2026 None (new_calendar sample_env None (Elem ''div'' [] [])))],
     warnings = Map.empty, timezoneOffset = 7200, focused = None\<rparr>"

lemma sample_opened_ok: "dt_ok sample_opened"
proof -
  have "cal_ok sample_env (drawDate sample_env 2 2026 None
      (new_calendar sample_env None (Elem ''div'' [] [])))" by (rule drawDate_ok(1)) simp_all
  then show ?thesis
    by (auto simp: dt_ok_def calbox_ok_def sample_opened_def sample_inputs_def new_box_def)
qed

lemma sample_dt_simps:
  "serverOffset sample_dt = Some 0" "date_format sample_dt = ''%Y-%m-%d''"
  "zone_offset (dt_zone sample_dt) t = 7200"
  by (simp_all add: sample_dt_def sample_zone_def)

lemma sample_opened_eval:
  "cal_shown 0 sample_opened" "bx_field (fst (cals sample_opened ! 0)) = 0"
  "length (cals sample_opened) = 1"
  "currentMonth (snd (cals sample_opened ! 0)) = 2" "currentYear (snd (cals sample_opened ! 0)) = 2026"
  by (simp_all add: sample_opened_def cal_shown_def new_box_def drawDate_def drawCurrent_def)

theorem quick_day_is_servers_witness:
  "strptime (fd_value (inputs (dt_handle sample_dt (sample_now, Day_link 0 1) sample_opened) ! 0))
     ''%Y-%m-%d'' = Some (make_day 2026 1 8)"
proof -
  have day: "make_day 2026 1 8 = (sample_now + 1000 * 0) div ms_per_day + 1"
    "local_day (dt_zone sample_dt) (zone_time (dt_zone sample_dt)
       (make_day 2026 1 8 * ms_per_day + (sample_now + 1000 * 0) mod ms_per_day)) = make_day 2026 1 8"
    "year_of_day (make_day 2026 1 8) = 2026"
    by code_simp+
  have "strptime (fd_value (inputs (dt_handle sample_dt (sample_now, Day_link 0 1) sample_opened)
      ! bx_field (fst (cals sample_opened ! 0)))) (date_format sample_dt) = Some (make_day 2026 1 8)
    \<and> \<not> cal_shown 0 (dt_handle sample_dt (sample_now, Day_link 0 1) sample_opened)"
    by (rule quick_day_is_servers [OF _ sample_opened_ok _ sample_dt_simps(1) _ day(1,2)])
      (use sample_opened_eval sample_good in \<open>simp_all only: sample_dt_simps day(3), simp_all\<close>)
  then show ?thesis by (simp only: sample_opened_eval(2) sample_dt_simps(2))
qed

theorem picked_day_reopens_witness:
  "let s1 = dt_handle sample_dt (sample_now, Day_cell 0 20) sample_opened;
       s2 = dt_handle sample_dt (sample_now, Calendar_link 0 False []) s1
   in currentMonth (snd (cals s2 ! 0)) = 2
      \<and> day_class sample_date (cal_selected (snd (cals s2 ! 0))) 2 2026 20 = ''selected''"
proof -
  have e: "local_day (dt_zone sample_dt) (zone_time (dt_zone sample_dt)
      (make_day 2026 (2 - 1) 20 * ms_per_day)) = make_day 2026 (2 - 1) 20" by code_simp
  have d: "day_class sample_date sel 2 2026 20 \<noteq> ''today selected''" for sel
    by (simp add: day_class_def sample_date_def Let_def)
  have g: "20 \<le> getDaysInMonth 2 2026" by (simp add: getDaysInMonth_def)
  let ?s1 = "dt_handle sample_dt (sample_now, Day_cell 0 20) sample_opened"
  let ?s2 = "dt_handle sample_dt (sample_now, Calendar_link 0 False []) ?s1"
  have p: "1 \<le> (20::int)" "1000 \<le> (2026::int)" by simp_all
  note inst = picked_day_reopens [OF sample_opened_ok sample_opened_eval(1) refl, of 20 sample_dt
      "make_day 2026 (2 - 1) 20" sample_now sample_now False "[]" sample_date,
      unfolded sample_opened_eval Let_def, OF p(1) g sample_good p(2) refl e]
  have "currentMonth (snd (cals ?s2 ! 0)) = 2 \<and> currentYear (snd (cals ?s2 ! 0)) = 2026
    \<and> day_class sample_date (cal_selected (snd (cals ?s2 ! 0))) (currentMonth (snd (cals ?s2 ! 0)))
        (currentYear (snd (cals ?s2 ! 0))) 20 \<in> {''selected'', ''today selected''}"
    using inst by (elim conjE, intro conjI)
  note i = this
  note m = i [THEN conjunct1] and y = i [THEN conjunct2, THEN conjunct1]
    and c = i [THEN conjunct2, THEN conjunct2]
  have "day_class sample_date (cal_selected (snd (cals ?s2 ! 0))) 2 2026 20 = ''selected''"
    using c [unfolded m y] d by (simp del: dt_handle.simps)
  then show ?thesis unfolding Let_def using m by (rule conjI [rotated])
qed

end
