(* ===== verification/ShortcutBoxes.thy ===== *)
theory ShortcutBoxes
  imports Dom DateShortcuts
begin

text \<open>
  The elements of the date and time shortcuts: what \<open>addClock\<close>, \<open>addCalendar\<close> and \<open>addTimezoneWarning\<close>
  of \<open>koded-cli/web/backend/staticfiles/admin/js/admin/DateTimeShortcuts.js\<close> put on the page, and what a click
  on a link there does.  \<open>DateShortcuts\<close> keeps the state of the boxes and runs events; here the events come
  from the page.  A listener for clicks is the attribute \<open>onclick\<close>, a list of the name of the function it calls
  and its arguments; the attribute \<open>stops\<close> marks one that stops the click from going on to the parents.
  Positions and the display of a box are part of the state.
\<close>

subsection \<open>Elements with listeners\<close>

definition listens :: "jsval \<Rightarrow> JsView.node \<Rightarrow> JsView.node" where
  "listens f n = (case n of Text s \<Rightarrow> Text s | Elem t a ns \<Rightarrow> Elem t (obj_set ''onclick'' f a) ns)"

definition stops :: "JsView.node \<Rightarrow> JsView.node" where
  "stops n = (case n of Text s \<Rightarrow> Text s | Elem t a ns \<Rightarrow> Elem t (obj_set ''stops'' (JBool True) a) ns)"

definition calls :: "string \<Rightarrow> nat \<Rightarrow> int list \<Rightarrow> jsval" where
  "calls f num args = JArr (JStr f # JNum (int num) # map JNum args)"

definition nbsp :: string where
  "nbsp = [CHR 0xA0]"

definition appended :: "JsView.node \<Rightarrow> JsView.node list \<Rightarrow> JsView.node" where
  "appended n cs = fold (\<lambda>c m. appendChild m c) cs n"

text \<open>A link, \<open>quickElement('a', \<dots>, txt, 'href', '#')\<close>, with its listener.\<close>

definition link_to :: "string \<Rightarrow> jsval \<Rightarrow> JsView.node" where
  "link_to txt f = listens f (quickElement ''a'' txt [(''href'', JStr ''#'')])"

definition shortcuts_span :: "JsView.node \<Rightarrow> JsView.node \<Rightarrow> JsView.node" where
  "shortcuts_span l1 l2 =
     appended (Elem ''span'' [(''class'', JStr ''datetimeshortcuts'')] []) [Text nbsp, l1, Text (nbsp @ ''|'' @ nbsp), l2]"

definition icon_link :: "string \<Rightarrow> jsval \<Rightarrow> string \<Rightarrow> string \<Rightarrow> JsView.node" where
  "icon_link link_id f icon title =
     stops (listens f
       (appended (Elem ''a'' [(''href'', JStr ''#''), (''id'', JStr link_id)] [])
          [quickElement ''span'' [] [(''class'', JStr icon), (''title'', JStr title)]]))"

definition cancel_bar :: "string \<Rightarrow> jsval \<Rightarrow> JsView.node" where
  "cancel_bar txt f =
     set_attr ''class'' ''calendar-cancel'' (appended (quickElement ''p'' [] []) [link_to txt f])"

subsection \<open>Clocks\<close>

definition clock_span :: "dt_env \<Rightarrow> nat \<Rightarrow> JsView.node" where
  "clock_span e num =
     shortcuts_span
       (link_to (tr (dt_cal e) ''Now'') (calls ''handleClockQuicklink'' num [-1]))
       (icon_link (''clocklink'' @ show_nat num) (calls ''openClock'' num []) ''clock-icon'' (tr (dt_cal e) ''Choose a Time''))"

definition time_item :: "nat \<Rightarrow> string \<times> int \<Rightarrow> JsView.node" where
  "time_item num c =
     appended (quickElement ''li'' [] []) [link_to (fst c) (calls ''handleClockQuicklink'' num [snd c])]"

definition clock_box :: "dt_env \<Rightarrow> nat \<Rightarrow> (string \<times> int) list \<Rightarrow> JsView.node" where
  "clock_box e num choices =
     appended
       (stops (Elem ''div'' [(''class'', JStr ''clockbox module''), (''id'', JStr (''clockbox'' @ show_nat num))] []))
       [quickElement ''h2'' (tr (dt_cal e) ''Choose a time'') [],
        set_attr ''class'' ''timelist'' (appended (quickElement ''ul'' [] []) (map (time_item num) choices)),
        cancel_bar (tr (dt_cal e) ''Cancel'') (calls ''dismissClock'' num [])]"

subsection \<open>Calendars\<close>

definition calendar_span :: "dt_env \<Rightarrow> nat \<Rightarrow> JsView.node" where
  "calendar_span e num =
     shortcuts_span
       (link_to (tr (dt_cal e) ''Today'') (calls ''handleCalendarQuickLink'' num [0]))
       (icon_link (''calendarlink'' @ show_nat num) (calls ''openCalendar'' num []) ''date-icon'' (tr (dt_cal e) ''Choose a Date''))"

definition calendar_nav :: "nat \<Rightarrow> JsView.node" where
  "calendar_nav num =
     appended (quickElement ''div'' [] [])
       [set_attr ''class'' ''calendarnav-previous'' (link_to ''<'' (calls ''drawPrev'' num [])),
        set_attr ''class'' ''calendarnav-next'' (link_to ''>'' (calls ''drawNext'' num []))]"

definition day_links :: "dt_env \<Rightarrow> nat \<Rightarrow> JsView.node" where
  "day_links e num =
     set_attr ''class'' ''calendar-shortcuts''
       (appended (quickElement ''div'' [] [])
          [link_to (tr (dt_cal e) ''Yesterday'') (calls ''handleCalendarQuickLink'' num [-1]),
           Text (nbsp @ ''|'' @ nbsp),
           link_to (tr (dt_cal e) ''Today'') (calls ''handleCalendarQuickLink'' num [0]),
           Text (nbsp @ ''|'' @ nbsp),
           link_to (tr (dt_cal e) ''Tomorrow'') (calls ''handleCalendarQuickLink'' num [1])])"

text \<open>The element the month is drawn in is empty here: its content is the state of the calendar.\<close>

definition calendar_main :: "nat \<Rightarrow> JsView.node" where
  "calendar_main num =
     set_attr ''class'' ''calendar'' (quickElement ''div'' [] [(''id'', JStr (''calendarin'' @ show_nat num))])"

definition calendar_box :: "dt_env \<Rightarrow> nat \<Rightarrow> JsView.node" where
  "calendar_box e num =
     appended
       (stops (Elem ''div'' [(''class'', JStr ''calendarbox module''), (''id'', JStr (''calendarbox'' @ show_nat num))] []))
       [calendar_nav num, calendar_main num, day_links e num,
        cancel_bar (tr (dt_cal e) ''Cancel'') (calls ''dismissCalendar'' num [])]"

subsection \<open>Building them\<close>

fun input_field :: "JsView.node \<Rightarrow> dt_field" where
  "input_field (Text s) = \<lparr>fd_type = [], fd_classes = [], fd_name = [], fd_value = [], fd_parent = 0\<rparr>"
| "input_field (Elem t a ns) =
     \<lparr>fd_type = (if attr_text ''type'' a = [] then ''text'' else attr_text ''type'' a), fd_classes = class_list a,
      fd_name = attr_text ''name'' a, fd_value = attr_text ''value'' a, fd_parent = 0\<rparr>"

text \<open>\<open>inp.parentNode.insertBefore(c, inp.nextSibling)\<close>, with the place of \<open>inp\<close>.\<close>

definition insert_after :: "nat list \<Rightarrow> JsView.node \<Rightarrow> JsView.node \<Rightarrow> JsView.node" where
  "insert_after p c body =
     update_at (butlast p)
       (\<lambda>n. case n of Text s \<Rightarrow> Text s
          | Elem t a ns \<Rightarrow> Elem t a (take (Suc (last p)) ns @ c # drop (Suc (last p)) ns)) body"

definition add_clock :: "dt_env \<Rightarrow> nat list \<Rightarrow> string \<Rightarrow> nat \<Rightarrow> JsView.node \<Rightarrow> JsView.node" where
  "add_clock e p nm num body =
     appendChild (insert_after p (clock_span e num) body) (clock_box e num (clock_choices e nm))"

definition add_calendar :: "dt_env \<Rightarrow> nat list \<Rightarrow> nat \<Rightarrow> JsView.node \<Rightarrow> JsView.node" where
  "add_calendar e p num body = appendChild (insert_after p (calendar_span e num) body) (calendar_box e num)"

definition add_warning :: "dt_env \<Rightarrow> int \<Rightarrow> nat list \<Rightarrow> JsView.node \<Rightarrow> JsView.node" where
  "add_warning e off p body =
     (case node_at (butlast p) body of None \<Rightarrow> body
      | Some parent \<Rightarrow>
          if off = 0 \<or> find_places (with_class ''timezonewarning'') parent \<noteq> [] then body
          else (let (secs, message) =
                 (if off > 0
                  then (off, plural e ''Note: You are %s hour ahead of server time.''
                               ''Note: You are %s hours ahead of server time.'' off)
                  else (- off, plural e ''Note: You are %s hour behind server time.''
                                 ''Note: You are %s hours behind server time.'' (- off)))
                in update_at (butlast p)
                     (\<lambda>n. appendChild n (Elem ''div'' [(''class'', JStr ''help timezonewarning'')]
                                         [Text (interpolate1 e message (hours_text e secs))])) body))"

text \<open>
  The loop of \<open>init\<close> over the inputs of the page, with the numbers of clocks and calendars so far; no input is
  added on the way, so the inputs are those of the start.  The type of an input is written small, and one that
  browsers know.
\<close>

definition time_field :: "dt_field \<Rightarrow> bool" where
  "time_field f \<longleftrightarrow> fd_type f = ''text'' \<and> ''vTimeField'' \<in> set (fd_classes f)"

definition date_field :: "dt_field \<Rightarrow> bool" where
  "date_field f \<longleftrightarrow> \<not> time_field f \<and> fd_type f = ''text'' \<and> ''vDateField'' \<in> set (fd_classes f)"

definition add_boxes :: "dt_env \<Rightarrow> int \<Rightarrow> nat \<Rightarrow> nat \<times> nat \<times> JsView.node \<Rightarrow> nat \<times> nat \<times> JsView.node" where
  "add_boxes e off k st =
     (let (c, d, body) = st; p = places (with_tag ''input'') body ! k; f = input_field (the (node_at p body))
      in if time_field f then (Suc c, d, add_warning e off p (add_clock e p (fd_name f) c body))
         else if date_field f then (c, Suc d, add_warning e off p (add_calendar e p d body))
         else st)"

definition build_boxes :: "dt_env \<Rightarrow> int \<Rightarrow> JsView.node \<Rightarrow> nat \<times> nat \<times> JsView.node" where
  "build_boxes e off body =
     fold (add_boxes e off) [0..<length (places (with_tag ''input'') body)] (0, 0, body)"

subsection \<open>Inputs are leaves\<close>

text \<open>No element that passes the test has children, as for inputs.\<close>

fun leafy :: "test \<Rightarrow> JsView.node \<Rightarrow> bool" where
  "leafy P (Text s) = True"
| "leafy P (Elem t a ns) = ((P t a \<longrightarrow> ns = []) \<and> list_all (leafy P) ns)"

lemma els_update:
  assumes "node_at q n = Some m" and "els P (f m) = els P m" and "leafy P n" and "leafy P (f m)"
  shows "els P (update_at q f n) = els P n \<and> leafy P (update_at q f n)"
  using assms
proof (induction q f n rule: update_at.induct)
  case (3 k q f t a ns)
  then have k: "k < length ns" and m: "node_at q (ns ! k) = Some m" by (auto split: if_splits)
  have l: "leafy P (ns ! k)" "ns \<noteq> []" using 3(4) k by (auto simp: list_all_length)
  from 3(1) [OF k m 3(3) l(1) 3(5)]
  have ih: "els P (update_at q f (ns ! k)) = els P (ns ! k)" "leafy P (update_at q f (ns ! k))" by auto
  have "map (els P) (ns[k := update_at q f (ns ! k)]) = map (els P) ns"
    using ih(1) k by (simp add: map_update list_update_same_conv)
  moreover have "list_all (leafy P) (ns[k := update_at q f (ns ! k)])"
    using 3(4) ih(2) by (auto intro: list_all_update)
  ultimately show ?case using 3(4) l(2) k by simp
qed auto

text \<open>Adding an element that holds none that pass keeps those that pass.\<close>

lemma no_els: "count_els P n = 0 \<Longrightarrow> els P n = [] \<and> leafy P n"
proof (induction P n rule: els.induct)
  case (2 P t a ns)
  then show ?case by (auto simp: list_all_iff split: if_splits)
qed simp

lemma place_split:
  assumes "node_at p n = Some m" and "p \<noteq> []"
  shows "\<exists>t a ns. node_at (butlast p) n = Some (Elem t a ns) \<and> last p < length ns"
  using assms
proof (induction p n rule: node_at.induct)
  case (3 k p t a ns)
  show ?case
  proof (cases "p = []")
    case True
    with 3(2) show ?thesis by (auto split: if_splits)
  next
    case False
    with 3 show ?thesis by (auto split: if_splits)
  qed
qed auto

lemma leafy_at: "node_at q n = Some m \<Longrightarrow> leafy P n \<Longrightarrow> leafy P m"
  by (induction q n rule: node_at.induct) (auto simp: list_all_length split: if_splits)

lemma els_insert:
  assumes "node_at p n = Some m" and "p \<noteq> []" and "leafy P n" and "count_els P c = 0"
  shows "els P (insert_after p c n) = els P n \<and> leafy P (insert_after p c n)"
proof -
  obtain t a ns where at: "node_at (butlast p) n = Some (Elem t a ns)" "last p < length ns"
    using place_split [OF assms(1,2)] by blast
  let ?i = "Suc (last p)" and ?f = "\<lambda>n. case n of Text s \<Rightarrow> Text s
      | Elem t a ns \<Rightarrow> Elem t a (take (Suc (last p)) ns @ c # drop (Suc (last p)) ns)"
  have l: "leafy P (Elem t a ns)" using leafy_at [OF at(1) assms(3)] .
  have "ns \<noteq> []" using at(2) by auto
  moreover have c: "els P c = []" "leafy P c" using no_els [OF assms(4)] by auto
  moreover have "concat (map (els P) (take ?i ns)) @ concat (map (els P) (drop ?i ns)) = concat (map (els P) ns)"
    by (metis append_take_drop_id concat_append map_append)
  moreover have "list_all (leafy P) (take ?i ns)" "list_all (leafy P) (drop ?i ns)"
    using l by (auto simp: list_all_iff dest: in_set_takeD in_set_dropD)
  ultimately have "els P (?f (Elem t a ns)) = els P (Elem t a ns)" "leafy P (?f (Elem t a ns))"
    using l by simp_all
  from els_update [where f = ?f, OF at(1) this(1) assms(3) this(2)] show ?thesis by (simp add: insert_after_def)
qed

lemma count_insert:
  assumes "node_at p n = Some m" and "p \<noteq> []"
  shows "count_els P (insert_after p c n) = count_els P c + count_els P n"
proof -
  obtain t a ns where at: "node_at (butlast p) n = Some (Elem t a ns)" "last p < length ns"
    using place_split [OF assms] by blast
  have "sum_list (map (count_els P) (take (Suc (last p)) ns)) + sum_list (map (count_els P) (drop (Suc (last p)) ns))
    = sum_list (map (count_els P) ns)"
    by (metis append_take_drop_id map_append sum_list.append)
  with count_update [OF at(1), of P "\<lambda>n. case n of Text s \<Rightarrow> Text s
      | Elem t a ns \<Rightarrow> Elem t a (take (Suc (last p)) ns @ c # drop (Suc (last p)) ns)"]
  show ?thesis by (simp add: insert_after_def)
qed

text \<open>Adding a child to an element: at the end of the page, and the warning.\<close>

definition is_elem :: "JsView.node \<Rightarrow> bool" where
  "is_elem n = (case n of Text s \<Rightarrow> False | Elem t a ns \<Rightarrow> True)"

lemma appendChild_els:
  assumes "is_elem n" and "leafy P n" and "count_els P c = 0" and "passes P n = False"
  shows "els P (appendChild n c) = els P n \<and> leafy P (appendChild n c)"
  using assms no_els [OF assms(3)] by (cases n) (auto simp: appendChild_def is_elem_def)

lemma count_append: "is_elem n \<Longrightarrow> count_els P (appendChild n c) = count_els P c + count_els P n"
  by (cases n) (auto simp: appendChild_def is_elem_def)

lemma count_appended: "is_elem n \<Longrightarrow> count_els P (appended n cs) = count_els P n + sum_list (map (count_els P) cs)"
proof (induction cs arbitrary: n)
  case (Cons c cs)
  have "is_elem (appendChild n c)" using Cons.prems by (cases n) (auto simp: appendChild_def is_elem_def)
  with Cons show ?case by (simp add: appended_def count_append)
qed (simp add: appended_def)

lemma appended_eq: "appended (Elem t a ns) cs = Elem t a (ns @ cs)"
  by (induction cs arbitrary: ns) (simp_all add: appended_def appendChild_def)

lemmas box_defs = link_to_def shortcuts_span_def icon_link_def cancel_bar_def clock_span_def time_item_def clock_box_def
  calendar_span_def calendar_nav_def day_links_def calendar_main_def calendar_box_def listens_def stops_def
  quickElement_def obj_assign_def

lemma box_ids:
  "count_els (with_attr ''id'' x) (clock_span e n) = (if x = ''clocklink'' @ show_nat n then 1 else 0)"
  "count_els (with_attr ''id'' x) (clock_box e n cs) = (if x = ''clockbox'' @ show_nat n then 1 else 0)"
  "count_els (with_attr ''id'' x) (calendar_span e n) = (if x = ''calendarlink'' @ show_nat n then 1 else 0)"
  "count_els (with_attr ''id'' x) (calendar_box e n) =
     (if x = ''calendarbox'' @ show_nat n then 1 else 0) + (if x = ''calendarin'' @ show_nat n then 1 else 0)"
  by (auto simp: box_defs appended_eq with_attr_def o_def)

lemma box_inputs:
  "count_els (with_tag ''input'') (clock_span e n) = 0" "count_els (with_tag ''input'') (clock_box e n cs) = 0"
  "count_els (with_tag ''input'') (calendar_span e n) = 0" "count_els (with_tag ''input'') (calendar_box e n) = 0"
  by (simp_all add: box_defs appended_eq with_tag_def o_def)

subsection \<open>One step of the loop\<close>

text \<open>What a page keeps: its inputs, which have no children, and that it is an element that is no input.\<close>

abbreviation is_input :: test where
  "is_input \<equiv> with_tag ''input''"

definition same_inputs :: "JsView.node \<Rightarrow> JsView.node \<Rightarrow> bool" where
  "same_inputs b b' \<longleftrightarrow> els is_input b' = els is_input b \<and> leafy is_input b' \<and> is_elem b' \<and> \<not> passes is_input b'"

lemma same_root:
  "is_elem b \<Longrightarrow> \<not> passes is_input b \<Longrightarrow> is_elem (insert_after p c b) \<and> \<not> passes is_input (insert_after p c b)"
  "is_elem b \<Longrightarrow> \<not> passes is_input b \<Longrightarrow> is_elem (appendChild b c) \<and> \<not> passes is_input (appendChild b c)"
  by (cases b; cases "butlast p"; auto simp: insert_after_def is_elem_def) (cases b; auto simp: appendChild_def is_elem_def)

lemma update_root:
  "is_elem b \<Longrightarrow> \<not> passes is_input b \<Longrightarrow>
     is_elem (update_at q (\<lambda>n. appendChild n c) b) \<and> \<not> passes is_input (update_at q (\<lambda>n. appendChild n c) b)"
  by (cases b; cases q) (auto simp: is_elem_def appendChild_def)

lemma node_at_update: "node_at q n = Some m \<Longrightarrow> node_at q (update_at q f n) = Some (f m)"
  by (induction q f n rule: update_at.induct) (auto split: if_splits)

lemma node_at_append:
  "node_at q b = Some m \<Longrightarrow> is_elem b \<Longrightarrow> node_at q (appendChild b c) = Some (if q = [] then appendChild b c else m)"
  by (cases b; cases q) (auto simp: appendChild_def is_elem_def nth_append split: if_splits)

text \<open>The element an input stands in is still there, with children, when its shortcuts and its box are made.\<close>

lemma parent_kept:
  assumes "node_at p b = Some m" and "p \<noteq> []" and "is_elem b"
  shows "\<exists>t a ns. node_at (butlast p) (appendChild (insert_after p s b) x) = Some (Elem t a ns) \<and> ns \<noteq> []"
proof -
  obtain t a ns where at: "node_at (butlast p) b = Some (Elem t a ns)" "last p < length ns"
    using place_split [OF assms(1,2)] by blast
  have "is_elem (insert_after p s b)"
    using assms(3) by (cases b; cases "butlast p") (auto simp: insert_after_def is_elem_def)
  from node_at_append [OF node_at_update [OF at(1)] this [unfolded insert_after_def]]
  moreover obtain t' a' ns' where "b = Elem t' a' ns'" using assms(3) by (cases b) (auto simp: is_elem_def)
  ultimately show ?thesis by (auto simp: insert_after_def appendChild_def)
qed

lemma added_inputs:
  assumes "same_inputs b0 b" and "node_at p b = Some m" and "p \<noteq> []"
    and "count_els is_input s = 0" and "count_els is_input x = 0"
  shows "same_inputs b0 (appendChild (insert_after p s b) x)"
proof -
  have b: "els is_input b = els is_input b0" "leafy is_input b" "is_elem b" "\<not> passes is_input b"
    using assms(1) by (auto simp: same_inputs_def)
  have i: "els is_input (insert_after p s b) = els is_input b \<and> leafy is_input (insert_after p s b)"
    by (rule els_insert [OF assms(2,3) b(2) assms(4)])
  have r: "is_elem (insert_after p s b) \<and> \<not> passes is_input (insert_after p s b)"
    by (rule same_root(1) [OF b(3,4)])
  show ?thesis
    using appendChild_els [of "insert_after p s b" is_input x] i r b(1) assms(5) same_root(2) [of "insert_after p s b" x]
    by (simp add: same_inputs_def)
qed

text \<open>The warning is an element without an id.\<close>

lemma warning_kept:
  assumes "same_inputs b0 b" and "node_at (butlast p) b = Some (Elem t a ns)" and "ns \<noteq> []"
  shows "same_inputs b0 (add_warning e off p b)
    \<and> count_els (with_attr ''id'' x) (add_warning e off p b) = count_els (with_attr ''id'' x) b"
proof -
  have b: "els is_input b = els is_input b0" "leafy is_input b" "is_elem b" "\<not> passes is_input b"
    using assms(1) by (auto simp: same_inputs_def)
  have l: "leafy is_input (Elem t a ns)" by (rule leafy_at [OF assms(2) b(2)])
  have "same_inputs b0 (update_at (butlast p) (\<lambda>n. appendChild n w) b)
      \<and> count_els (with_attr ''id'' x) (update_at (butlast p) (\<lambda>n. appendChild n w) b) = count_els (with_attr ''id'' x) b"
    if w: "w = Elem ''div'' [(''class'', JStr ''help timezonewarning'')] [Text msg]" for w msg
  proof -
    have "els is_input (appendChild (Elem t a ns) w) = els is_input (Elem t a ns)"
      "leafy is_input (appendChild (Elem t a ns) w)"
      using l assms(3) by (auto simp: appendChild_def w with_tag_def)
    from els_update [where f = "\<lambda>n. appendChild n w", OF assms(2) this(1) b(2) this(2)]
    have "same_inputs b0 (update_at (butlast p) (\<lambda>n. appendChild n w) b)"
      using b(1) update_root [OF b(3,4)] by (simp add: same_inputs_def)
    moreover have "count_els (with_attr ''id'' x) w = 0" by (simp add: w with_attr_def)
    ultimately show ?thesis
      using count_update [OF assms(2), of "with_attr ''id'' x" "\<lambda>n. appendChild n w"]
      by (simp add: appendChild_def)
  qed
  then show ?thesis using assms(1) by (simp add: add_warning_def assms(2) Let_def)
qed

definition page_fields :: "JsView.node \<Rightarrow> dt_field list" where
  "page_fields b = map input_field (els is_input b)"

definition clock_ids :: "string set" where
  "clock_ids = {''clocklink'', ''clockbox''}"

definition calendar_ids :: "string set" where
  "calendar_ids = {''calendarlink'', ''calendarbox'', ''calendarin''}"

abbreviation count_id :: "string \<Rightarrow> nat \<Rightarrow> JsView.node \<Rightarrow> nat" where
  "count_id nm j \<equiv> count_els (with_attr ''id'' (nm @ show_nat j))"

text \<open>After \<open>k\<close> inputs: the numbers reached, the inputs kept, and the elements with the ids of boxes and links.\<close>

definition boxes_upto :: "JsView.node \<Rightarrow> nat \<Rightarrow> nat \<times> nat \<times> JsView.node \<Rightarrow> bool" where
  "boxes_upto b0 k st \<longleftrightarrow>
     (case st of (c, d, b) \<Rightarrow>
        same_inputs b0 b \<and> c = length (filter time_field (take k (page_fields b0)))
        \<and> d = length (filter date_field (take k (page_fields b0)))
        \<and> (\<forall>nm \<in> clock_ids. \<forall>j. count_id nm j b = count_id nm j b0 + (if j < c then 1 else 0))
        \<and> (\<forall>nm \<in> calendar_ids. \<forall>j. count_id nm j b = count_id nm j b0 + (if j < d then 1 else 0)))"

lemma add_ids:
  assumes "is_elem b" and "node_at p b = Some m" and "p \<noteq> []"
  shows "\<forall>nm \<in> clock_ids. \<forall>j. count_id nm j (add_clock e p nm' n b) = count_id nm j b + (if j = n then 1 else 0)"
    and "\<forall>nm \<in> calendar_ids. \<forall>j. count_id nm j (add_clock e p nm' n b) = count_id nm j b"
    and "\<forall>nm \<in> clock_ids. \<forall>j. count_id nm j (add_calendar e p n b) = count_id nm j b"
    and "\<forall>nm \<in> calendar_ids. \<forall>j. count_id nm j (add_calendar e p n b) = count_id nm j b + (if j = n then 1 else 0)"
proof -
  have el: "is_elem (insert_after p c b)" for c
    using assms(1) by (cases b; cases "butlast p") (auto simp: insert_after_def is_elem_def)
  show "\<forall>nm \<in> clock_ids. \<forall>j. count_id nm j (add_clock e p nm' n b) = count_id nm j b + (if j = n then 1 else 0)"
    "\<forall>nm \<in> calendar_ids. \<forall>j. count_id nm j (add_clock e p nm' n b) = count_id nm j b"
    "\<forall>nm \<in> clock_ids. \<forall>j. count_id nm j (add_calendar e p n b) = count_id nm j b"
    "\<forall>nm \<in> calendar_ids. \<forall>j. count_id nm j (add_calendar e p n b) = count_id nm j b + (if j = n then 1 else 0)"
    by (simp_all add: add_clock_def add_calendar_def count_append el count_insert [OF assms(2,3)] box_ids
        clock_ids_def calendar_ids_def)
qed

lemma boxes_step:
  assumes "boxes_upto b0 k st" and "k < count_els is_input b0"
  shows "boxes_upto b0 (Suc k) (add_boxes e off k st)"
proof -
  obtain c d b where st: "st = (c, d, b)" by (cases st) auto
  have b: "els is_input b = els is_input b0" "leafy is_input b" "is_elem b" "\<not> passes is_input b"
    and s: "same_inputs b0 b"
    using assms(1) by (auto simp: boxes_upto_def same_inputs_def st)
  let ?p = "places is_input b ! k"
  have n: "count_els is_input b = count_els is_input b0" using b(1) length_els by metis
  have at: "node_at ?p b = Some (els is_input b0 ! k)" using els_nth [of k is_input b] assms(2) n b(1) by simp
  have "?p \<in> set (places is_input b)" using assms(2) n by (simp add: length_places)
  then have ne: "?p \<noteq> []" using places_at b(4) by fastforce
  have f: "page_fields b0 ! k = input_field (the (node_at ?p b))" "k < length (page_fields b0)"
    using assms(2) at by (simp_all add: page_fields_def length_els)
  have t: "take (Suc k) (page_fields b0) = take k (page_fields b0) @ [input_field (the (node_at ?p b))]"
    using f by (simp add: take_Suc_conv_app_nth)
  let ?f = "input_field (the (node_at ?p b))"
  have warned: "same_inputs b0 (add_warning e off ?p b')
      \<and> (\<forall>x. count_els (with_attr ''id'' x) (add_warning e off ?p b') = count_els (with_attr ''id'' x) b')"
    if "b' = appendChild (insert_after ?p s b) x" "count_els is_input s = 0" "count_els is_input x = 0" for b' s x
    using warning_kept [OF added_inputs [OF assms(1)[unfolded st boxes_upto_def case_prod_conv, THEN conjunct1] at ne that(2,3)]]
      parent_kept [OF at ne b(3), of s x] that(1) by blast
  consider "time_field ?f" | "date_field ?f" | "\<not> time_field ?f" "\<not> date_field ?f" by blast
  then show ?thesis
  proof cases
    case 1
    then have "\<not> date_field ?f" by (simp add: date_field_def)
    with 1 show ?thesis
      using assms(1) warned [OF add_clock_def box_inputs(1,2)] add_ids(1,2) [OF b(3) at ne]
      by (auto simp: st add_boxes_def boxes_upto_def t Let_def less_Suc_eq)
  next
    case 2
    then have "\<not> time_field ?f" by (simp add: date_field_def)
    with 2 show ?thesis
      using assms(1) warned [OF add_calendar_def box_inputs(3,4)] add_ids(3,4) [OF b(3) at ne]
      by (auto simp: st add_boxes_def boxes_upto_def t Let_def less_Suc_eq)
  next
    case 3
    then show ?thesis using assms(1) by (simp add: st add_boxes_def boxes_upto_def t Let_def)
  qed
qed

lemma boxes_built:
  assumes "is_elem b0" and "\<not> passes is_input b0" and "leafy is_input b0"
  shows "boxes_upto b0 (count_els is_input b0) (build_boxes e off b0)"
proof -
  have "k \<le> count_els is_input b0 \<Longrightarrow> boxes_upto b0 k (fold (add_boxes e off) [0..<k] (0, 0, b0))" for k
  proof (induction k)
    case 0
    show ?case using assms by (simp add: boxes_upto_def same_inputs_def)
  next
    case (Suc k)
    then show ?case using boxes_step [of b0 k _ e off] by simp
  qed
  then show ?thesis by (simp add: build_boxes_def length_places)
qed

text \<open>The numbers are those of the state of \<open>DateShortcuts\<close>.\<close>

lemma init_numbers:
  "k \<le> length fs \<Longrightarrow> inputs s = fs \<Longrightarrow> clocks s = [] \<Longrightarrow> cals s = [] \<Longrightarrow>
     inputs (fold (add_shortcuts e t) [0..<k] s) = fs
     \<and> length (clocks (fold (add_shortcuts e t) [0..<k] s)) = length (filter time_field (take k fs))
     \<and> length (cals (fold (add_shortcuts e t) [0..<k] s)) = length (filter date_field (take k fs))"
proof (induction k)
  case (Suc k)
  have w: "inputs (addTimezoneWarning e i s) = inputs s \<and> clocks (addTimezoneWarning e i s) = clocks s
      \<and> cals (addTimezoneWarning e i s) = cals s" for i s
    by (simp add: addTimezoneWarning_def Let_def)
  from Suc show ?case
    by (simp add: add_shortcuts_def w addClock_def addCalendar_def time_field_def date_field_def take_Suc_conv_app_nth Let_def)
qed simp

text \<open>
  C13: the boxes are found.  On a page without boxes and links of these ids, whose inputs have no children, \<open>init\<close>
  leaves for every clock and every calendar it makes exactly one link and one box with its number, and for every
  calendar one place to draw in, and none for other numbers; there is a clock for every time field and a calendar
  for every date field, and the inputs are those from before.
\<close>

theorem boxes_found:
  assumes "is_elem b" and "\<not> passes is_input b" and "leafy is_input b"
    and "\<forall>nm \<in> clock_ids \<union> calendar_ids. \<forall>j. count_id nm j b = 0"
    and "build_boxes e off b = (c, d, b')" and "s = dt_init e t (page_fields b)"
  shows "c = length (clocks s) \<and> d = length (cals s) \<and> page_fields b' = inputs s
    \<and> (\<forall>nm \<in> clock_ids. \<forall>j. count_id nm j b' = (if j < length (clocks s) then 1 else 0))
    \<and> (\<forall>nm \<in> calendar_ids. \<forall>j. count_id nm j b' = (if j < length (cals s) then 1 else 0))"
proof -
  have n: "count_els is_input b = length (page_fields b)" by (simp add: page_fields_def length_els)
  have up: "boxes_upto b (length (page_fields b)) (c, d, b')"
    using boxes_built [OF assms(1-3), of e off] by (simp only: assms(5) n)
  have "inputs s = page_fields b" "length (clocks s) = c" "length (cals s) = d"
    using init_numbers [OF order_refl, where fs = "page_fields b" and e = e and t = t] up
    by (simp_all add: assms(6) dt_init_def boxes_upto_def Let_def)
  then show ?thesis using up assms(4) by (simp add: boxes_upto_def page_fields_def same_inputs_def)
qed

subsection \<open>Clicks\<close>

text \<open>
  The calls a click at a place makes, from the element clicked up, and whether the click reaches the document: the
  listener of an element that stops it is the last.
\<close>

definition own_calls :: "jsval obj \<Rightarrow> jsval list" where
  "own_calls a = (case map_of a ''onclick'' of None \<Rightarrow> [] | Some f \<Rightarrow> [f])"

definition goes_on :: "jsval obj \<Rightarrow> bool" where
  "goes_on a \<longleftrightarrow> map_of a ''stops'' = None"

fun bubble :: "nat list \<Rightarrow> JsView.node \<Rightarrow> jsval list \<times> bool" where
  "bubble p (Text s) = ([], True)"
| "bubble [] (Elem t a ns) = (own_calls a, goes_on a)"
| "bubble (k # p) (Elem t a ns) =
     (let (fs, on) = (if k < length ns then bubble p (ns ! k) else ([], True))
      in if on then (fs @ own_calls a, goes_on a) else (fs, False))"

definition act :: "dt_env \<Rightarrow> int \<Rightarrow> bool \<Rightarrow> placed list \<Rightarrow> jsval \<Rightarrow> dt_state \<Rightarrow> dt_state" where
  "act e t rtl link f s =
     (case f of
        JArr [JStr g, JNum n] \<Rightarrow>
          if g = ''openClock'' then openClock (nat n) rtl link s
          else if g = ''dismissClock'' then dismissClock (nat n) s
          else if g = ''openCalendar'' then openCalendar e t (nat n) rtl link s
          else if g = ''dismissCalendar'' then dismissCalendar (nat n) s
          else if g = ''drawPrev'' then drawPrev e t (nat n) s
          else if g = ''drawNext'' then drawNext e t (nat n) s else s
      | JArr [JStr g, JNum n, JNum v] \<Rightarrow>
          if g = ''handleClockQuicklink'' then handleClockQuicklink e t (nat n) v s
          else if g = ''handleCalendarQuickLink'' then handleCalendarQuickLink e t (nat n) v s else s
      | _ \<Rightarrow> s)"

definition click :: "dt_env \<Rightarrow> int \<Rightarrow> bool \<Rightarrow> placed list \<Rightarrow> JsView.node \<Rightarrow> nat list \<Rightarrow> dt_state \<Rightarrow> dt_state" where
  "click e t rtl link n p s =
     (let (fs, on) = bubble p n; s' = fold (act e t rtl link) fs s in if on then document_click s' else s')"

definition links :: "JsView.node \<Rightarrow> nat list list" where
  "links n = places (with_tag ''a'') n"

lemma time_links:
  "places_from (with_tag ''a'') k (map (time_item num) cs) = map (\<lambda>i. [k + i, 0]) [0..<length cs]"
proof (induction cs arbitrary: k)
  case (Cons c cs)
  have "places (with_tag ''a'') (time_item num c) = [[0]]"
    by (simp add: time_item_def box_defs appended_eq with_tag_def)
  moreover have "map (\<lambda>i. [k + i, 0]) [0..<length (c # cs)] = [k, 0] # map (\<lambda>i. [Suc k + i, 0]) [0..<length cs]"
    by (simp add: upt_conv_Cons flip: map_Suc_upt del: upt_Suc)
  ultimately show ?case by (simp add: Cons del: upt_Suc)
qed simp

lemma clock_links:
  "links (clock_span e num) = [[1], [3]]"
  "links (clock_box e num cs) = map (\<lambda>i. [1, i, 0]) [0..<length cs] @ [[2, 0]]"
  by (simp_all add: links_def box_defs(1-5) clock_span_def clock_box_def box_defs appended_eq with_tag_def time_links o_def)

lemma calendar_links:
  "links (calendar_span e num) = [[1], [3]]"
  "links (calendar_box e num) = [[0, 0], [0, 1], [2, 0], [2, 2], [2, 4], [3, 0]]"
  by (simp_all add: links_def box_defs appended_eq with_tag_def)

lemma clock_clicks:
  "bubble [1] (clock_span e num) = ([calls ''handleClockQuicklink'' num [-1]], True)"
  "bubble [3] (clock_span e num) = ([calls ''openClock'' num []], False)"
  "bubble [3, 0] (clock_span e num) = ([calls ''openClock'' num []], False)"
  "i < length cs \<Longrightarrow> bubble [1, i, 0] (clock_box e num cs) = ([calls ''handleClockQuicklink'' num [snd (cs ! i)]], False)"
  "bubble [2, 0] (clock_box e num cs) = ([calls ''dismissClock'' num []], False)"
  by (simp_all add: box_defs appended_eq own_calls_def goes_on_def)

lemma calendar_clicks:
  "bubble [1] (calendar_span e num) = ([calls ''handleCalendarQuickLink'' num [0]], True)"
  "bubble [3] (calendar_span e num) = ([calls ''openCalendar'' num []], False)"
  "bubble [3, 0] (calendar_span e num) = ([calls ''openCalendar'' num []], False)"
  "bubble [0, 0] (calendar_box e num) = ([calls ''drawPrev'' num []], False)"
  "bubble [0, 1] (calendar_box e num) = ([calls ''drawNext'' num []], False)"
  "bubble [2, 0] (calendar_box e num) = ([calls ''handleCalendarQuickLink'' num [-1]], False)"
  "bubble [2, 2] (calendar_box e num) = ([calls ''handleCalendarQuickLink'' num [0]], False)"
  "bubble [2, 4] (calendar_box e num) = ([calls ''handleCalendarQuickLink'' num [1]], False)"
  "bubble [3, 0] (calendar_box e num) = ([calls ''dismissCalendar'' num []], False)"
  by (simp_all add: box_defs appended_eq own_calls_def goes_on_def)

lemma act_calls:
  "act e t rtl link (calls ''openClock'' n []) s = openClock n rtl link s"
  "act e t rtl link (calls ''dismissClock'' n []) s = dismissClock n s"
  "act e t rtl link (calls ''openCalendar'' n []) s = openCalendar e t n rtl link s"
  "act e t rtl link (calls ''dismissCalendar'' n []) s = dismissCalendar n s"
  "act e t rtl link (calls ''drawPrev'' n []) s = drawPrev e t n s"
  "act e t rtl link (calls ''drawNext'' n []) s = drawNext e t n s"
  "act e t rtl link (calls ''handleClockQuicklink'' n [v]) s = handleClockQuicklink e t n v s"
  "act e t rtl link (calls ''handleCalendarQuickLink'' n [v]) s = handleCalendarQuickLink e t n v s"
  by (simp_all add: act_def calls_def)

text \<open>
  C6: the links do the events.  With a clock and a calendar of the page shown, the clicks on the links beside and inside
  them, in their order on the page, do exactly what the events of \<open>DateShortcuts\<close> do: the links beside a field
  enter the present time or day and open the box, those in the box choose a time or a day, go to another month,
  and close the box.
\<close>

theorem links_do_events:
  assumes "clock_shown i s" and "cal_shown j s"
  shows "map (\<lambda>p. click e t rtl link (clock_span e i) p s) (links (clock_span e i)) =
      [dt_handle e (t, Now_link i) s, dt_handle e (t, Clock_link i rtl link) s]
    \<and> map (\<lambda>p. click e t rtl link (clock_box e i (snd (clocks s ! i))) p s) (links (clock_box e i (snd (clocks s ! i)))) =
      map (\<lambda>k. dt_handle e (t, Time_choice i k) s) [0..<length (snd (clocks s ! i))] @ [dt_handle e (t, Clock_cancel i) s]
    \<and> map (\<lambda>p. click e t rtl link (calendar_span e j) p s) (links (calendar_span e j)) =
      [dt_handle e (t, Today_link j) s, dt_handle e (t, Calendar_link j rtl link) s]
    \<and> map (\<lambda>p. click e t rtl link (calendar_box e j) p s) (links (calendar_box e j)) =
      map (\<lambda>ev. dt_handle e (t, ev) s)
        [Previous_link j, Next_link j, Day_link j (-1), Day_link j 0, Day_link j 1, Calendar_cancel j]"
proof -
  have n: "i < length (clocks s)" "j < length (cals s)" using assms by (simp_all add: clock_shown_def cal_shown_def)
  show ?thesis
    by (simp add: clock_links calendar_links click_def clock_clicks calendar_clicks act_calls n assms Let_def
        del: One_nat_def cong: map_cong)
qed

subsection \<open>Instances\<close>

definition shown_state :: dt_state where
  "shown_state = sample_opened\<lparr>clocks := [((new_box 0)\<lparr>bx_open := True, bx_listening := True\<rparr>, [(''Now'', -1), (''Noon'', 12)])],
     cals := map (map_prod (\<lambda>b. b\<lparr>bx_open := True, bx_listening := True\<rparr>) id) (cals sample_opened)\<rparr>"

theorem links_do_events_witness:
  "\<forall>t. click sample_dt t False [] (clock_box sample_dt 0 [(''Now'', -1), (''Noon'', 12)]) [1, 1, 0] shown_state
    = dt_handle sample_dt (t, Time_choice 0 1) shown_state"
proof
  fix t
  have c: "clock_shown 0 shown_state" "cal_shown 0 shown_state" "snd (clocks shown_state ! 0) = [(''Now'', -1), (''Noon'', 12)]"
    by (simp_all add: shown_state_def clock_shown_def cal_shown_def sample_opened_def)
  note l = links_do_events [OF c(1,2), of sample_dt t False "[]", unfolded c(3)]
  then have "map (\<lambda>p. click sample_dt t False [] (clock_box sample_dt 0 [(''Now'', -1), (''Noon'', 12)]) p shown_state)
      [[1, 0, 0], [1, 1, 0], [2, 0]]
    = [dt_handle sample_dt (t, Time_choice 0 0) shown_state, dt_handle sample_dt (t, Time_choice 0 1) shown_state,
       dt_handle sample_dt (t, Clock_cancel 0) shown_state]"
    by (simp add: clock_links)
  then show "click sample_dt t False [] (clock_box sample_dt 0 [(''Now'', -1), (''Noon'', 12)]) [1, 1, 0] shown_state
    = dt_handle sample_dt (t, Time_choice 0 1) shown_state" by simp
qed

definition sample_body :: JsView.node where
  "sample_body = Elem ''body'' []
     [Elem ''p'' [] [Elem ''input'' [(''class'', JStr ''vDateField''), (''name'', JStr ''d'')] [],
                     Elem ''input'' [(''class'', JStr ''vTimeField''), (''name'', JStr ''t'')] []],
      Elem ''input'' [(''type'', JStr ''checkbox'')] []]"

theorem boxes_found_witness:
  "\<exists>c d b'. build_boxes sample_dt 0 sample_body = (c, d, b') \<and> count_id ''clockbox'' 0 b' = 1 \<and> count_id ''clockbox'' 1 b' = 0
    \<and> count_id ''calendarin'' 0 b' = 1"
proof -
  obtain c d b' where b: "build_boxes sample_dt 0 sample_body = (c, d, b')" by (cases "build_boxes sample_dt 0 sample_body") auto
  have p: "is_elem sample_body" "\<not> passes is_input sample_body" "leafy is_input sample_body"
    by (simp_all add: sample_body_def is_elem_def with_tag_def)
  have z: "\<forall>nm \<in> clock_ids \<union> calendar_ids. \<forall>j. count_id nm j sample_body = 0"
    by (simp add: sample_body_def with_attr_def)
  define s where "s = dt_init sample_dt 0 (page_fields sample_body)"
  note f = boxes_found [OF p z b s_def]
  have "length (filter time_field (page_fields sample_body)) = 1" "length (filter date_field (page_fields sample_body)) = 1"
    by code_simp+
  then have "length (clocks s) = 1" "length (cals s) = 1"
    using init_numbers [OF order_refl, where fs = "page_fields sample_body" and e = sample_dt and t = 0]
    by (simp_all add: s_def dt_init_def Let_def)
  with f b show ?thesis by (simp add: clock_ids_def calendar_ids_def)
qed

end
