(* ===== verification/Inlines.thy ===== *)
theory Inlines
  imports JsPrelude
begin

text \<open>
  The forms of an inline formset, \<open>koded-cli/web/backend/staticfiles/admin/js/inlines.js\<close>: adding
  a copy of the empty form, removing an unsaved form, and the numbering of the rest.  The formset
  is one of the tabular and stacked ones, with the class names these give; its prefix has no
  character that a regular expression or a replacement would read specially; the management form
  holds numbers (a maximum or minimum of \<open>None\<close> is an empty value).  The widgets set up in a new
  form are in \<open>InlineWidgets\<close>.
\<close>

subsection \<open>State\<close>

record attrs =
  at_for :: string
  at_id :: string
  at_name :: string

text \<open>A form: the attributes of its element and of those inside, whether it is a saved object's,
  whether it has a link to delete it, and the text of its label.\<close>

record form_row =
  fr_self :: attrs
  fr_elements :: "attrs list"
  fr_original :: bool
  fr_deletable :: bool
  fr_label :: string

text \<open>The children of the formset's parent: forms, rows of form errors before them, and the empty
  form new ones are copied from.\<close>

datatype sibling = ErrorRow | FormRow form_row | EmptyForm form_row

record formset =
  fs_prefix :: string
  fs_stacked :: bool
  fs_siblings :: "sibling list"
  fs_total :: int
  fs_max :: "int option"
  fs_min :: "int option"
  fs_next :: int
  fs_add_shown :: bool
  fs_deletes_shown :: bool

primrec forms_of :: "sibling list \<Rightarrow> form_row list" where
  "forms_of [] = []"
| "forms_of (x # ss) = (case x of FormRow f \<Rightarrow> f # forms_of ss | _ \<Rightarrow> forms_of ss)"

subsection \<open>Indices in attributes\<close>

text \<open>The text after a match of \<open>prefix-(\d+|__prefix__)\<close> at the start.\<close>

definition match_index :: "string \<Rightarrow> string \<Rightarrow> string option" where
  "match_index p a =
     (if starts_with a (p @ ''-'')
      then (let r = drop (length p + 1) a
            in if r \<noteq> [] \<and> is_digit (hd r) then Some (dropWhile is_digit r)
               else if starts_with r ''__prefix__'' then Some (drop 10 r) else None)
      else None)"

fun replace_index :: "string \<Rightarrow> int \<Rightarrow> string \<Rightarrow> string" where
  "replace_index p ndx [] =
     (case match_index p [] of Some r \<Rightarrow> p @ ''-'' @ show_int ndx @ r | None \<Rightarrow> [])"
| "replace_index p ndx (c # s) =
     (case match_index p (c # s) of
        Some r \<Rightarrow> p @ ''-'' @ show_int ndx @ r
      | None \<Rightarrow> c # replace_index p ndx s)"

definition replace_attr :: "string \<Rightarrow> int \<Rightarrow> string \<Rightarrow> string" where
  "replace_attr p ndx a = (if a \<noteq> [] then replace_index p ndx a else a)"

definition updateElementIndex :: "string \<Rightarrow> int \<Rightarrow> attrs \<Rightarrow> attrs" where
  "updateElementIndex p ndx el =
     \<lparr>at_for = replace_attr p ndx (at_for el), at_id = replace_attr p ndx (at_id el),
      at_name = replace_attr p ndx (at_name el)\<rparr>"

definition update_form :: "string \<Rightarrow> int \<Rightarrow> form_row \<Rightarrow> form_row" where
  "update_form p i f =
     f\<lparr>fr_self := updateElementIndex p i (fr_self f),
       fr_elements := map (updateElementIndex p i) (fr_elements f)\<rparr>"

fun update_forms :: "string \<Rightarrow> int \<Rightarrow> sibling list \<Rightarrow> sibling list" where
  "update_forms p i [] = []"
| "update_forms p i (FormRow f # ss) = FormRow (update_form p i f) # update_forms p (i + 1) ss"
| "update_forms p i (x # ss) = x # update_forms p i ss"

subsection \<open>Labels\<close>

text \<open>\<open>replace(/(#\d+)/g, "#" + count)\<close>\<close>

function replace_labels :: "string \<Rightarrow> string \<Rightarrow> string" where
  "replace_labels n h =
     (case h of
        [] \<Rightarrow> []
      | c # s \<Rightarrow>
          if c = CHR ''#'' \<and> s \<noteq> [] \<and> is_digit (hd s)
          then c # n @ replace_labels n (dropWhile is_digit s)
          else c # replace_labels n s)"
  by pat_completeness auto
termination
  by (relation "measure (\<lambda>(_, h). length h)") (auto simp: le_imp_less_Suc length_dropWhile_le)

declare replace_labels.simps [simp del, code]

definition relabel :: "int \<Rightarrow> form_row \<Rightarrow> form_row" where
  "relabel n f = f\<lparr>fr_label := replace_labels (show_int n) (fr_label f)\<rparr>"

text \<open>The labels of all forms, the empty one among them, counted from 1.\<close>

fun relabel_from :: "int \<Rightarrow> sibling list \<Rightarrow> sibling list" where
  "relabel_from i [] = []"
| "relabel_from i (FormRow f # ss) = FormRow (relabel (i + 1) f) # relabel_from (i + 1) ss"
| "relabel_from i (EmptyForm f # ss) = EmptyForm (relabel (i + 1) f) # relabel_from (i + 1) ss"
| "relabel_from i (ErrorRow # ss) = ErrorRow # relabel_from i ss"

definition updateInlineLabel :: "formset \<Rightarrow> formset" where
  "updateInlineLabel s =
     (if fs_stacked s then s\<lparr>fs_siblings := relabel_from 0 (fs_siblings s)\<rparr> else s)"

subsection \<open>Adding and removing\<close>

definition toggleDeleteButtonVisibility :: "formset \<Rightarrow> formset" where
  "toggleDeleteButtonVisibility s =
     s\<lparr>fs_deletes_shown := (case fs_min s of Some k \<Rightarrow> \<not> k - fs_total s \<ge> 0 | None \<Rightarrow> True)\<rparr>"

definition addInlineDeleteButton :: "form_row \<Rightarrow> form_row" where
  "addInlineDeleteButton f = f\<lparr>fr_deletable := True\<rparr>"

text \<open>The copy of the empty form.\<close>

definition new_row :: "formset \<Rightarrow> form_row \<Rightarrow> form_row" where
  "new_row s template =
     (let row = template\<lparr>fr_self := (fr_self template)
                  \<lparr>at_id := fs_prefix s @ ''-'' @ show_int (fs_next s)\<rparr>\<rparr>;
          row = addInlineDeleteButton row
      in row\<lparr>fr_elements := map (updateElementIndex (fs_prefix s) (fs_total s)) (fr_elements row)\<rparr>)"

fun insert_row :: "(form_row \<Rightarrow> form_row) \<Rightarrow> sibling list \<Rightarrow> sibling list" where
  "insert_row mk [] = []"
| "insert_row mk (EmptyForm t # ss) = FormRow (mk t) # EmptyForm t # ss"
| "insert_row mk (x # ss) = x # insert_row mk ss"

definition addInlineClickHandler :: "formset \<Rightarrow> formset" where
  "addInlineClickHandler s =
     (let s = s\<lparr>fs_siblings := insert_row (new_row s) (fs_siblings s)\<rparr>;
          s = s\<lparr>fs_total := fs_total s + 1, fs_next := fs_next s + 1\<rparr>;
          s = (case fs_max s of
                 Some k \<Rightarrow> if k - fs_total s \<le> 0 then s\<lparr>fs_add_shown := False\<rparr> else s
               | None \<Rightarrow> s);
          s = toggleDeleteButtonVisibility s
      in updateInlineLabel s)"

text \<open>The form at \<open>k\<close> goes, and with it a row of errors right before it.\<close>

fun remove_row :: "nat \<Rightarrow> sibling list \<Rightarrow> sibling list" where
  "remove_row k [] = []"
| "remove_row k (ErrorRow # FormRow f # ss) =
     (if k = 0 then ss else ErrorRow # FormRow f # remove_row (k - 1) ss)"
| "remove_row k (FormRow f # ss) = (if k = 0 then ss else FormRow f # remove_row (k - 1) ss)"
| "remove_row k (x # ss) = x # remove_row k ss"

definition inlineDeleteHandler :: "nat \<Rightarrow> formset \<Rightarrow> formset" where
  "inlineDeleteHandler k s =
     (let s = s\<lparr>fs_siblings := remove_row k (fs_siblings s), fs_next := fs_next s - 1\<rparr>;
          s = updateInlineLabel s;
          n = int (length (forms_of (fs_siblings s)));
          s = s\<lparr>fs_total := n\<rparr>;
          s = (case fs_max s of
                 Some m \<Rightarrow> if m - n > 0 then s\<lparr>fs_add_shown := True\<rparr> else s
               | None \<Rightarrow> s\<lparr>fs_add_shown := True\<rparr>);
          s = toggleDeleteButtonVisibility s
      in s\<lparr>fs_siblings := update_forms (fs_prefix s) 0 (fs_siblings s)\<rparr>)"

text \<open>The plugin's start: the forms of objects not yet saved get a link.\<close>

definition init_sibling :: "sibling \<Rightarrow> sibling" where
  "init_sibling x =
     (case x of FormRow f \<Rightarrow> FormRow (if fr_original f then f else addInlineDeleteButton f) | _ \<Rightarrow> x)"

definition rows_of :: "sibling list \<Rightarrow> sibling list" where
  "rows_of ss = filter (\<lambda>x. x \<noteq> ErrorRow) ss"

definition init_formset ::
  "string \<Rightarrow> bool \<Rightarrow> sibling list \<Rightarrow> int \<Rightarrow> int option \<Rightarrow> int option \<Rightarrow> formset" where
  "init_formset p stacked ss n mx mn =
     toggleDeleteButtonVisibility
       \<lparr>fs_prefix = p, fs_stacked = stacked, fs_siblings = map init_sibling ss, fs_total = n,
        fs_max = mx, fs_min = mn, fs_next = n,
        fs_add_shown = (rows_of ss \<noteq> [] \<and> (case mx of None \<Rightarrow> True | Some k \<Rightarrow> k - n > 0)),
        fs_deletes_shown = True\<rparr>"

text \<open>The clicks a user can make: on the button while it is shown, on a link a form has.\<close>

datatype formset_event = AddClick | DeleteClick nat

definition formset_handle :: "formset_event \<Rightarrow> formset \<Rightarrow> formset" where
  "formset_handle e s =
     (case e of
        AddClick \<Rightarrow> (if fs_add_shown s then addInlineClickHandler s else s)
      | DeleteClick k \<Rightarrow>
          (if fs_deletes_shown s \<and> k < length (forms_of (fs_siblings s))
              \<and> fr_deletable (forms_of (fs_siblings s) ! k)
           then inlineDeleteHandler k s else s))"

subsection \<open>Writing an index twice\<close>

text \<open>The index that stands in a text, if there is one, is not followed by a digit.  An index in
  digits never is; the mark of the empty form must not be.\<close>

fun clean_index :: "string \<Rightarrow> string \<Rightarrow> bool" where
  "clean_index p [] = True"
| "clean_index p (c # s) =
     (case match_index p (c # s) of
        Some r \<Rightarrow> r = [] \<or> \<not> is_digit (hd r)
      | None \<Rightarrow> clean_index p s)"

lemma match_index_Nil [simp]: "match_index p [] = None"
  by (simp add: match_index_def starts_with_def)

lemma match_index_new:
  assumes "r = [] \<or> \<not> is_digit (hd r)" and "n \<ge> 0"
  shows "match_index p (p @ CHR ''-'' # show_int n @ r) = Some r"
proof -
  obtain d ds where d: "show_int n = d # ds" "is_digit d" "\<forall>c \<in> set ds. is_digit c"
    using assms(2) show_nat_digits [of _ "nat n"] show_nat_ne [of "nat n"]
    by (cases "show_nat (nat n)") (auto simp: show_int_def)
  have "dropWhile is_digit r = r" using assms(1) by (cases r) auto
  then have "dropWhile is_digit (d # ds @ r) = r"
    using d by (simp add: dropWhile_append2)
  moreover have "starts_with (p @ CHR ''-'' # show_int n @ r) (p @ ''-'')"
    by (simp add: starts_with_def)
  ultimately show ?thesis using d by (simp add: match_index_def)
qed

lemma starts_with_hyphen:
  assumes "w \<noteq> []" and "last w = CHR ''-''" and "CHR ''-'' \<notin> set m"
  shows "starts_with (w @ z) m = starts_with w m"
proof
  assume "starts_with (w @ z) m"
  then obtain u where "w @ z = m @ u" by (auto simp: starts_with_iff)
  then consider us where "m = w @ us" | us where "w = m @ us"
    by (auto simp: append_eq_append_conv2)
  then show "starts_with w m"
    using assms by cases (auto, metis last_in_set)
qed (auto simp: starts_with_iff)

text \<open>Whether there is a match before one depends on the text up to the hyphen of that one only.\<close>

lemma no_match_before:
  assumes "match_index p (c # u @ p @ CHR ''-'' # x) = None"
  shows "match_index p (c # u @ p @ CHR ''-'' # y) = None"
proof (cases "starts_with (c # u @ p @ ''-'') (p @ ''-'')")
  case False
  have "starts_with (c # u @ p @ CHR ''-'' # z) (p @ ''-'') = starts_with (c # u @ p @ ''-'') (p @ ''-'')"
    for z by (simp add: starts_with_def)
  with False show ?thesis by (simp add: match_index_def)
next
  case True
  define w where "w = drop (length p + 1) (c # u @ p @ ''-'')"
  have w: "w \<noteq> []" "last w = CHR ''-''" by (simp_all add: w_def)
  have drop: "drop (length p + 1) (c # u @ p @ CHR ''-'' # z) = w @ z" for z
    by (simp add: w_def)
  have st: "starts_with (c # u @ p @ CHR ''-'' # z) (p @ ''-'')" for z
    using True by (simp add: starts_with_def)
  have mark: "starts_with (w @ z) ''__prefix__'' = starts_with w ''__prefix__''" for z
    using w by (intro starts_with_hyphen) auto
  have "match_index p (c # u @ p @ CHR ''-'' # z) = None \<longleftrightarrow>
      \<not> is_digit (hd w) \<and> \<not> starts_with w ''__prefix__''" for z
    unfolding match_index_def drop using st [of z] mark [of z] w(1) by (simp add: Let_def)
  with assms show ?thesis by simp
qed

lemma match_index_Some:
  assumes "match_index p a = Some r"
  shows "\<exists>x. a = p @ CHR ''-'' # x @ r"
proof -
  obtain t where a: "a = p @ CHR ''-'' # t"
    using assms by (auto simp: match_index_def starts_with_iff split: if_splits)
  have "drop (length p + 1) a = t" by (simp add: a)
  then have "r = dropWhile is_digit t \<or> r = drop 10 t"
    using assms unfolding match_index_def by (auto simp: Let_def split: if_splits)
  then have "\<exists>x. t = x @ r" by (metis append_take_drop_id takeWhile_dropWhile_id)
  with a show ?thesis by auto
qed

lemma replace_index_before:
  assumes "match_index p (c # u @ p @ CHR ''-'' # x) = None"
    and "replace_index p m (u @ p @ CHR ''-'' # y) = t"
  shows "replace_index p m (c # u @ p @ CHR ''-'' # y) = c # t"
  using no_match_before [OF assms(1), of y] assms(2) by simp

text \<open>Writing an index over an index leaves the last one written; what follows stays clean.\<close>

lemma replace_index_shape:
  "(\<forall>m. replace_index p m a = a) \<or>
   (\<exists>u x r. a = u @ p @ CHR ''-'' # x @ r \<and> (\<forall>m. replace_index p m a = u @ p @ CHR ''-'' # show_int m @ r)
      \<and> (clean_index p a \<longrightarrow> (\<forall>m \<ge> 0. \<forall>k. replace_index p k (u @ p @ CHR ''-'' # show_int m @ r)
           = u @ p @ CHR ''-'' # show_int k @ r \<and> clean_index p (u @ p @ CHR ''-'' # show_int m @ r))))"
proof (induction a)
  case (Cons c a)
  show ?case
  proof (cases "match_index p (c # a)")
    case None
    from Cons show ?thesis
    proof (elim disjE exE conjE)
      fix u x r
      assume a: "a = u @ p @ CHR ''-'' # x @ r"
        and *: "\<forall>m. replace_index p m a = u @ p @ CHR ''-'' # show_int m @ r"
        and **: "clean_index p a \<longrightarrow> (\<forall>m \<ge> 0. \<forall>k. replace_index p k (u @ p @ CHR ''-'' # show_int m @ r)
           = u @ p @ CHR ''-'' # show_int k @ r \<and> clean_index p (u @ p @ CHR ''-'' # show_int m @ r))"
      have n: "match_index p (c # u @ p @ CHR ''-'' # y) = None" for y
        using None no_match_before by (simp add: a)
      have "\<forall>m. replace_index p m (c # a) = (c # u) @ p @ CHR ''-'' # show_int m @ r"
        using None * by simp
      moreover have "clean_index p (c # a) \<longrightarrow> (\<forall>m \<ge> 0. \<forall>k.
          replace_index p k ((c # u) @ p @ CHR ''-'' # show_int m @ r)
           = (c # u) @ p @ CHR ''-'' # show_int k @ r
          \<and> clean_index p ((c # u) @ p @ CHR ''-'' # show_int m @ r))"
        using None ** n by simp
      ultimately show ?thesis by (metis a append_Cons)
    qed (use None in simp)
  next
    case (Some r)
    then obtain x where x: "c # a = [] @ p @ CHR ''-'' # x @ r"
      using match_index_Some by fastforce
    have "replace_index p k (p @ CHR ''-'' # show_int m @ r) = p @ CHR ''-'' # show_int k @ r
        \<and> clean_index p (p @ CHR ''-'' # show_int m @ r)"
      if "m \<ge> 0" "r = [] \<or> \<not> is_digit (hd r)" for m k
    proof -
      obtain d t where dt: "p @ CHR ''-'' # show_int m @ r = d # t"
        by (cases "p @ CHR ''-'' # show_int m @ r") auto
      then have "match_index p (d # t) = Some r" using match_index_new [OF that(2,1), of p] by simp
      with that(2) show ?thesis unfolding dt by simp
    qed
    moreover have "\<forall>m. replace_index p m (c # a) = p @ CHR ''-'' # show_int m @ r"
      and "clean_index p (c # a) \<longrightarrow> r = [] \<or> \<not> is_digit (hd r)"
      using Some by simp_all
    ultimately show ?thesis
      using x by (intro disjI2 exI [of _ "[]"] exI [of _ x] exI [of _ r]) (simp only: append_Nil, blast)
  qed
qed simp

lemma replace_twice:
  assumes "clean_index p a" and "m \<ge> 0"
  shows "replace_index p k (replace_index p m a) = replace_index p k a"
    and "clean_index p (replace_index p m a)"
  using replace_index_shape [of p a] assms by metis+

subsection \<open>Forms\<close>

definition texts :: "attrs \<Rightarrow> string list" where
  "texts el = [at_for el, at_id el, at_name el]"

definition form_texts :: "form_row \<Rightarrow> string list" where
  "form_texts f = concat (map texts (fr_self f # fr_elements f))"

definition clean_form :: "string \<Rightarrow> form_row \<Rightarrow> bool" where
  "clean_form p f = list_all (clean_index p) (form_texts f)"

text \<open>A form has index \<open>i\<close>: wherever an index stands in it, it is \<open>i\<close>.\<close>

definition has_index :: "string \<Rightarrow> int \<Rightarrow> string \<Rightarrow> bool" where
  "has_index p i a = (replace_index p i a = a)"

definition numbered :: "string \<Rightarrow> int \<Rightarrow> form_row \<Rightarrow> bool" where
  "numbered p i f = list_all (has_index p i) (form_texts f)"

lemma replace_attr_eq [simp]: "replace_attr p i a = replace_index p i a"
  by (cases a) (simp_all add: replace_attr_def)

lemma texts_update [simp]: "texts (updateElementIndex p i el) = map (replace_index p i) (texts el)"
  by (simp add: texts_def updateElementIndex_def)

lemma form_texts_update [simp]: "form_texts (update_form p i f) = map (replace_index p i) (form_texts f)"
  by (simp add: form_texts_def update_form_def map_concat comp_def)

lemma numbered_update:
  assumes "clean_form p f" and "i \<ge> 0"
  shows "numbered p i (update_form p i f) \<and> clean_form p (update_form p i f)"
  using assms by (auto simp: numbered_def clean_form_def has_index_def list_all_iff replace_twice)

lemma update_numbered: "numbered p i f \<Longrightarrow> update_form p i f = f"
proof -
  assume n: "numbered p i f"
  have el: "updateElementIndex p i x = x" if "\<forall>a \<in> set (texts x). has_index p i a" for x
    using that by (simp add: texts_def updateElementIndex_def has_index_def)
  from n have "updateElementIndex p i (fr_self f) = fr_self f"
    "map (updateElementIndex p i) (fr_elements f) = fr_elements f"
    by (auto simp: numbered_def form_texts_def list_all_iff intro!: el map_idI)
  then show ?thesis by (simp add: update_form_def)
qed

lemma texts_relabel [simp]: "form_texts (relabel n f) = form_texts f"
  by (simp add: form_texts_def relabel_def)

lemma relabel_numbered [simp]:
  "numbered p i (relabel n f) = numbered p i f" "clean_form p (relabel n f) = clean_form p f"
  "fr_self (relabel n f) = fr_self f"
  by (simp_all add: numbered_def clean_form_def relabel_def form_texts_def)

subsection \<open>Lists of siblings\<close>

definition no_empty :: "sibling list \<Rightarrow> bool" where
  "no_empty ss = list_all (\<lambda>x. case x of EmptyForm _ \<Rightarrow> False | _ \<Rightarrow> True) ss"

abbreviation forms_count :: "sibling list \<Rightarrow> int" where
  "forms_count ss \<equiv> int (length (forms_of ss))"

lemma forms_of_append [simp]: "forms_of (a @ b) = forms_of a @ forms_of b"
  by (induction a) (auto split: sibling.split)

lemma no_empty_simps [simp]:
  "no_empty []" "no_empty (ErrorRow # ss) = no_empty ss" "no_empty (FormRow f # ss) = no_empty ss"
  "\<not> no_empty (EmptyForm f # ss)" "no_empty (a @ b) = (no_empty a \<and> no_empty b)"
  by (simp_all add: no_empty_def)

lemma insert_row_at:
  "no_empty ss \<Longrightarrow> insert_row mk (ss @ [EmptyForm t]) = ss @ [FormRow (mk t), EmptyForm t]"
  by (induction mk ss rule: insert_row.induct) simp_all

lemma remove_row_at:
  "no_empty ss \<Longrightarrow> k < length (forms_of ss) \<Longrightarrow>
     remove_row k (ss @ [EmptyForm t]) = remove_row k ss @ [EmptyForm t]"
  by (induction k ss rule: remove_row.induct) auto

lemma remove_row_forms:
  "no_empty ss \<Longrightarrow> forms_of (remove_row k ss) = take k (forms_of ss) @ drop (Suc k) (forms_of ss)
     \<and> no_empty (remove_row k ss)"
proof (induction k ss rule: remove_row.induct)
  case (2 k f ss)
  then show ?case by (cases k) auto
next
  case (3 k f ss)
  then show ?case by (cases k) auto
qed simp_all

lemma remove_last:
  "no_empty ss \<Longrightarrow> remove_row (length (forms_of ss)) (ss @ [FormRow f])
    = (if ss \<noteq> [] \<and> last ss = ErrorRow then butlast ss else ss)"
  by (induction "length (forms_of ss)" ss rule: remove_row.induct) auto

lemma update_forms_append [simp]:
  "update_forms p i (a @ b) = update_forms p i a @ update_forms p (i + forms_count a) b"
  by (induction p i a rule: update_forms.induct) (auto simp: algebra_simps)

lemma update_forms_nth:
  "forms_of (update_forms p i ss) = map (\<lambda>j. update_form p (i + int j) (forms_of ss ! j))
     [0..<length (forms_of ss)]"
proof (induction p i ss rule: update_forms.induct)
  case (2 p i f ss)
  have "[0..<Suc (length (forms_of ss))] = 0 # map Suc [0..<length (forms_of ss)]"
    by (simp add: map_Suc_upt upt_conv_Cons del: upt_Suc)
  with 2 show ?case by (simp add: comp_def algebra_simps del: upt_Suc)
qed simp_all

lemma no_empty_update [simp]: "no_empty (update_forms p i ss) = no_empty ss"
  by (induction p i ss rule: update_forms.induct) simp_all

lemma relabel_append [simp]:
  "no_empty a \<Longrightarrow> relabel_from i (a @ b) = relabel_from i a @ relabel_from (i + forms_count a) b"
  by (induction i a rule: relabel_from.induct) (auto simp: algebra_simps)

lemma relabel_forms:
  "no_empty ss \<Longrightarrow> no_empty (relabel_from i ss) \<and> forms_of (relabel_from i ss)
     = map (\<lambda>j. relabel (i + 1 + int j) (forms_of ss ! j)) [0..<length (forms_of ss)]"
proof (induction i ss rule: relabel_from.induct)
  case (2 i f ss)
  have "[0..<Suc (length (forms_of ss))] = 0 # map Suc [0..<length (forms_of ss)]"
    by (simp add: map_Suc_upt upt_conv_Cons del: upt_Suc)
  with 2 show ?case by (simp add: comp_def algebra_simps del: upt_Suc)
qed simp_all

subsection \<open>The numbering\<close>

definition numbered_rows :: "string \<Rightarrow> sibling list \<Rightarrow> bool" where
  "numbered_rows p ss =
     (\<forall>j < length (forms_of ss). numbered p (int j) (forms_of ss ! j) \<and> clean_form p (forms_of ss ! j))"

text \<open>The form new ones are copied from: its own element has an identifier only.\<close>

definition template_ok :: "string \<Rightarrow> form_row \<Rightarrow> bool" where
  "template_ok p t = (clean_form p t \<and> at_for (fr_self t) = [] \<and> at_name (fr_self t) = [])"

definition formset_inv :: "formset \<Rightarrow> bool" where
  "formset_inv s =
     (\<exists>ss t. fs_siblings s = ss @ [EmptyForm t] \<and> no_empty ss \<and> fs_total s = forms_count ss
        \<and> fs_next s = forms_count ss \<and> numbered_rows (fs_prefix s) ss \<and> template_ok (fs_prefix s) t)"

lemma formset_inv_upd [simp]:
  "formset_inv (s\<lparr>fs_add_shown := b\<rparr>) = formset_inv s"
  "formset_inv (s\<lparr>fs_deletes_shown := b\<rparr>) = formset_inv s"
  by (simp_all add: formset_inv_def)

lemma numbered_relabel:
  "no_empty ss \<Longrightarrow> numbered_rows p (relabel_from i ss) = numbered_rows p ss"
  using relabel_forms [of ss i] by (simp add: numbered_rows_def)

lemma inv_labels:
  assumes "formset_inv s"
  shows "formset_inv (updateInlineLabel s)"
proof (cases "fs_stacked s")
  case True
  from assms obtain ss t where s: "fs_siblings s = ss @ [EmptyForm t]" "no_empty ss"
    "fs_total s = forms_count ss" "fs_next s = forms_count ss"
    "numbered_rows (fs_prefix s) ss" "template_ok (fs_prefix s) t"
    by (auto simp: formset_inv_def)
  let ?t = "relabel (forms_count ss + 1) t"
  have "fs_siblings (updateInlineLabel s) = relabel_from 0 ss @ [EmptyForm ?t]"
    using s(1,2) True by (simp add: updateInlineLabel_def)
  moreover have "template_ok (fs_prefix s) ?t" using s(6) by (simp add: template_ok_def)
  moreover have "numbered_rows (fs_prefix s) (relabel_from 0 ss)"
    using s(2,5) by (simp add: numbered_relabel)
  ultimately show ?thesis
    using s(2-4) relabel_forms [OF s(2), of 0] True
    unfolding formset_inv_def by (intro exI [of _ "relabel_from 0 ss"] exI [of _ ?t])
      (simp add: updateInlineLabel_def)
qed (use assms in \<open>simp add: updateInlineLabel_def\<close>)

lemma new_row_numbered:
  assumes "template_ok (fs_prefix s) t" and "fs_total s = fs_next s" and "fs_total s \<ge> 0"
  shows "numbered (fs_prefix s) (fs_total s) (new_row s t) \<and> clean_form (fs_prefix s) (new_row s t)"
proof -
  let ?p = "fs_prefix s" and ?n = "fs_total s"
  obtain d r where dr: "?p @ CHR ''-'' # show_int ?n = d # r" by (cases ?p) auto
  then have m: "match_index ?p (d # r) = Some []"
    using match_index_new [of "[]" ?n ?p] assms(3) by simp
  then have "has_index ?p ?n (d # r)" "clean_index ?p (d # r)"
    by (simp_all add: has_index_def dr)
  then have id: "has_index ?p ?n (?p @ CHR ''-'' # show_int ?n)"
    "clean_index ?p (?p @ CHR ''-'' # show_int ?n)" by (simp_all only: dr)
  have el: "has_index ?p ?n a \<and> clean_index ?p a"
    if "x \<in> set (fr_elements t)" "a \<in> set (texts (updateElementIndex ?p ?n x))" for a x
  proof -
    from that(2) obtain b where b: "b \<in> set (texts x)" "a = replace_index ?p ?n b" by auto
    then have "clean_index ?p b"
      using that(1) assms(1) by (auto simp: template_ok_def clean_form_def form_texts_def list_all_iff)
    with b(2) show ?thesis using replace_twice [OF _ assms(3)] by (simp add: has_index_def)
  qed
  have "texts (fr_self (new_row s t)) = [[], ?p @ CHR ''-'' # show_int ?n, []]"
    using assms(1,2) by (simp add: new_row_def addInlineDeleteButton_def texts_def template_ok_def Let_def)
  moreover have "fr_elements (new_row s t) = map (updateElementIndex ?p ?n) (fr_elements t)"
    by (simp add: new_row_def addInlineDeleteButton_def Let_def)
  moreover have "has_index ?p ?n []" by (simp add: has_index_def)
  ultimately show ?thesis
    using id el by (auto simp: numbered_def clean_form_def form_texts_def list_all_iff)
qed

lemma inv_inserted:
  assumes "formset_inv s"
  shows "formset_inv (s\<lparr>fs_siblings := insert_row (new_row s) (fs_siblings s),
    fs_total := fs_total s + 1, fs_next := fs_next s + 1\<rparr>)"
proof -
  from assms obtain ss t where s: "fs_siblings s = ss @ [EmptyForm t]" "no_empty ss"
    "fs_total s = forms_count ss" "fs_next s = forms_count ss"
    "numbered_rows (fs_prefix s) ss" "template_ok (fs_prefix s) t"
    by (auto simp: formset_inv_def)
  have "numbered_rows (fs_prefix s) (ss @ [FormRow (new_row s t)])"
    using s(5) new_row_numbered [OF s(6)] s(3,4)
    by (auto simp: numbered_rows_def nth_append less_Suc_eq)
  then show ?thesis
    using s unfolding formset_inv_def
    by (intro exI [of _ "ss @ [FormRow (new_row s t)]"] exI [of _ t]) (simp add: insert_row_at)
qed

lemma add_inv: "formset_inv s \<Longrightarrow> formset_inv (addInlineClickHandler s)"
  unfolding addInlineClickHandler_def toggleDeleteButtonVisibility_def Let_def
  by (intro inv_labels) (auto dest: inv_inserted split: option.split)

lemma numbered_updated:
  assumes "\<forall>f \<in> set (forms_of ss). clean_form p f"
  shows "numbered_rows p (update_forms p 0 ss)"
  using assms numbered_update [of p] by (auto simp: numbered_rows_def update_forms_nth)

definition labels_from :: "bool \<Rightarrow> int \<Rightarrow> sibling list \<Rightarrow> sibling list" where
  "labels_from stacked i ss = (if stacked then relabel_from i ss else ss)"

definition label_if :: "bool \<Rightarrow> int \<Rightarrow> form_row \<Rightarrow> form_row" where
  "label_if stacked n f = (if stacked then relabel n f else f)"

lemma labels_at:
  "no_empty ss \<Longrightarrow> labels_from b i (ss @ [EmptyForm t])
     = labels_from b i ss @ [EmptyForm (label_if b (i + forms_count ss + 1) t)]"
  by (simp add: labels_from_def label_if_def)

lemma labels_forms:
  assumes "no_empty ss"
  shows "no_empty (labels_from b i ss)" and "length (forms_of (labels_from b i ss)) = length (forms_of ss)"
    and "\<forall>f \<in> set (forms_of ss). clean_form p f \<Longrightarrow> \<forall>f \<in> set (forms_of (labels_from b i ss)). clean_form p f"
  using relabel_forms [OF assms, of i] assms by (auto simp: labels_from_def)

text \<open>What is left after a form is removed.\<close>

lemma delete_result:
  assumes "fs_siblings s = ss @ [EmptyForm t]" and "no_empty ss" and "k < length (forms_of ss)"
  defines "ss' \<equiv> labels_from (fs_stacked s) 0 (remove_row k ss)"
  shows "fs_siblings (inlineDeleteHandler k s) = update_forms (fs_prefix s) 0 ss'
      @ [EmptyForm (label_if (fs_stacked s) (forms_count ss) t)]
    \<and> fs_total (inlineDeleteHandler k s) = forms_count ss - 1
    \<and> fs_next (inlineDeleteHandler k s) = fs_next s - 1
    \<and> fs_add_shown (inlineDeleteHandler k s) =
        ((case fs_max s of Some m \<Rightarrow> m > forms_count ss - 1 | None \<Rightarrow> True) \<or> fs_add_shown s)
    \<and> fs_deletes_shown (inlineDeleteHandler k s) =
        (case fs_min s of Some m \<Rightarrow> m < forms_count ss - 1 | None \<Rightarrow> True)
    \<and> fs_max (inlineDeleteHandler k s) = fs_max s \<and> fs_min (inlineDeleteHandler k s) = fs_min s
    \<and> fs_prefix (inlineDeleteHandler k s) = fs_prefix s
    \<and> fs_stacked (inlineDeleteHandler k s) = fs_stacked s"
proof -
  have r: "no_empty (remove_row k ss)" "forms_count (remove_row k ss) = forms_count ss - 1"
    using remove_row_forms [OF assms(2), of k] assms(3) by auto
  have n: "forms_count ss' = forms_count ss - 1"
    using labels_forms(2) [OF r(1)] r(2) by (simp add: ss'_def)
  let ?s1 = "updateInlineLabel (s\<lparr>fs_siblings := remove_row k (fs_siblings s), fs_next := fs_next s - 1\<rparr>)"
  have "fs_siblings ?s1 = ss' @ [EmptyForm (label_if (fs_stacked s) (forms_count ss) t)]"
    using labels_at [OF r(1), of "fs_stacked s" 0 t] r(2) assms(1-3)
    by (simp add: updateInlineLabel_def labels_from_def ss'_def remove_row_at split: if_splits)
  moreover have "fs_next ?s1 = fs_next s - 1" "fs_prefix ?s1 = fs_prefix s" "fs_max ?s1 = fs_max s"
    "fs_min ?s1 = fs_min s" "fs_add_shown ?s1 = fs_add_shown s" "fs_stacked ?s1 = fs_stacked s"
    by (simp_all add: updateInlineLabel_def)
  ultimately show ?thesis
    using n by (auto simp: inlineDeleteHandler_def toggleDeleteButtonVisibility_def Let_def
        split: option.split)
qed

lemma delete_inv:
  assumes "formset_inv s" and "k < length (forms_of (fs_siblings s))"
  shows "formset_inv (inlineDeleteHandler k s)"
proof -
  from assms(1) obtain ss t where s: "fs_siblings s = ss @ [EmptyForm t]" "no_empty ss"
    "fs_total s = forms_count ss" "fs_next s = forms_count ss"
    "numbered_rows (fs_prefix s) ss" "template_ok (fs_prefix s) t"
    by (auto simp: formset_inv_def)
  have k: "k < length (forms_of ss)" using assms(2) s(1) by simp
  let ?ss = "labels_from (fs_stacked s) 0 (remove_row k ss)"
  let ?t = "label_if (fs_stacked s) (forms_count ss) t"
  have r: "no_empty (remove_row k ss)" "forms_count (remove_row k ss) = forms_count ss - 1"
    using remove_row_forms [OF s(2), of k] k by auto
  have "\<forall>f \<in> set (forms_of ss). clean_form (fs_prefix s) f"
    using s(5) by (auto simp: numbered_rows_def set_conv_nth)
  then have "\<forall>f \<in> set (forms_of (remove_row k ss)). clean_form (fs_prefix s) f"
    using remove_row_forms [OF s(2), of k] by (auto dest: in_set_takeD in_set_dropD)
  then have "numbered_rows (fs_prefix s) (update_forms (fs_prefix s) 0 ?ss)"
    by (intro numbered_updated labels_forms(3) [OF r(1)])
  moreover have "template_ok (fs_prefix s) ?t" using s(6) by (simp add: template_ok_def label_if_def)
  moreover have "forms_count (update_forms (fs_prefix s) 0 ?ss) = forms_count ss - 1"
    using labels_forms(2) [OF r(1)] r(2) by (simp add: update_forms_nth)
  ultimately show ?thesis
    using delete_result [OF s(1,2) k] labels_forms(1) [OF r(1)] s(4) unfolding formset_inv_def
    by (intro exI [of _ "update_forms (fs_prefix s) 0 ?ss"] exI [of _ ?t]) simp
qed

lemma add_result:
  shows "fs_prefix (addInlineClickHandler s) = fs_prefix s"
    and "fs_max (addInlineClickHandler s) = fs_max s" and "fs_min (addInlineClickHandler s) = fs_min s"
    and "fs_total (addInlineClickHandler s) = fs_total s + 1"
    and "fs_add_shown (addInlineClickHandler s) =
      ((case fs_max s of Some m \<Rightarrow> fs_total s + 1 < m | None \<Rightarrow> True) \<and> fs_add_shown s)"
    and "fs_deletes_shown (addInlineClickHandler s) =
      (case fs_min s of Some m \<Rightarrow> m < fs_total s + 1 | None \<Rightarrow> True)"
  by (auto simp: addInlineClickHandler_def toggleDeleteButtonVisibility_def updateInlineLabel_def
      Let_def split: option.split)

text \<open>The formset stays the one it was set up as.\<close>

definition formset_ok :: "string \<Rightarrow> int option \<Rightarrow> int option \<Rightarrow> formset \<Rightarrow> bool" where
  "formset_ok p mx mn s = (formset_inv s \<and> fs_prefix s = p \<and> fs_max s = mx \<and> fs_min s = mn)"

lemma delete_cases:
  assumes "formset_ok p mx mn s" and "k < length (forms_of (fs_siblings s))"
  obtains ss t where "fs_siblings s = ss @ [EmptyForm t]" and "no_empty ss"
    and "fs_total s = forms_count ss" and "k < length (forms_of ss)"
  using assms that by (auto simp: formset_ok_def formset_inv_def)

lemma formset_handle_ok: "formset_ok p mx mn s \<Longrightarrow> formset_ok p mx mn (formset_handle e s)"
proof (cases e)
  case (DeleteClick k)
  assume ok: "formset_ok p mx mn s"
  show ?thesis
  proof (cases "k < length (forms_of (fs_siblings s))")
    case True
    from ok True show ?thesis
    proof (rule delete_cases)
      fix ss t
      assume "fs_siblings s = ss @ [EmptyForm t]" "no_empty ss" "k < length (forms_of ss)"
      from delete_result [OF this] show ?thesis
        using ok True by (auto simp: DeleteClick formset_handle_def formset_ok_def delete_inv)
    qed
  qed (use ok in \<open>simp add: DeleteClick formset_handle_def\<close>)
qed (simp add: formset_handle_def formset_ok_def add_inv add_result)

interpretation formset: event_machine formset_handle "formset_ok p mx mn" for p mx mn
  by unfold_locales (rule formset_handle_ok)

lemma init_ok:
  assumes "no_empty ss" and "numbered_rows p ss" and "template_ok p t"
  shows "formset_ok p mx mn (init_formset p st (ss @ [EmptyForm t]) (forms_count ss) mx mn)"
proof -
  have texts: "form_texts (addInlineDeleteButton f) = form_texts f" for f
    by (simp add: form_texts_def addInlineDeleteButton_def)
  have len: "length (forms_of (map init_sibling xs)) = length (forms_of xs)" for xs
    by (induction xs) (auto simp: init_sibling_def split: sibling.split)
  have nth: "\<forall>j < length (forms_of xs). form_texts (forms_of (map init_sibling xs) ! j)
      = form_texts (forms_of xs ! j)" for xs
    by (induction xs) (auto simp: init_sibling_def texts nth_Cons split: sibling.split nat.split)
  have "no_empty (map init_sibling xs) = no_empty xs" for xs
    by (induction xs) (auto simp: init_sibling_def no_empty_def split: sibling.split)
  moreover have "numbered_rows p (map init_sibling ss)"
    using assms(2) nth [of ss] by (simp add: numbered_rows_def numbered_def clean_form_def len)
  ultimately show ?thesis
    using assms unfolding formset_ok_def formset_inv_def
    by (auto simp: init_formset_def toggleDeleteButtonVisibility_def len init_sibling_def
        intro!: exI [of _ "map init_sibling ss"] exI [of _ t])
qed

text \<open>
  C15: the forms of a formset stay numbered.  A formset that comes from the server with its forms
  numbered from 0, and any number of clicks that add and remove forms: the count sent back is the
  number of forms on the page, and in every form, at every place where an index stands in an
  attribute, it is the form's position.
\<close>

theorem forms_numbered:
  assumes "no_empty ss" and "numbered_rows p ss" and "template_ok p t"
    and "s = fold formset_handle es (init_formset p st (ss @ [EmptyForm t]) (forms_count ss) mx mn)"
  shows "fs_total s = forms_count (fs_siblings s) \<and>
    (\<forall>j < length (forms_of (fs_siblings s)). \<forall>a \<in> set (form_texts (forms_of (fs_siblings s) ! j)).
       replace_index p (int j) a = a)"
proof -
  from formset.run_invar [OF init_ok [OF assms(1-3), of mx mn st], of es]
  have "formset_ok p mx mn s" using assms(4) by simp
  then obtain ss' t' where "fs_siblings s = ss' @ [EmptyForm t']" "fs_total s = forms_count ss'"
    "numbered_rows p ss'"
    by (auto simp: formset_ok_def formset_inv_def)
  then show ?thesis by (auto simp: numbered_rows_def numbered_def has_index_def list_all_iff)
qed

definition sample_form :: "string \<Rightarrow> form_row" where
  "sample_form i = \<lparr>fr_self = \<lparr>at_for = [], at_id = ''book-'' @ i, at_name = []\<rparr>,
     fr_elements = [\<lparr>at_for = ''id_book-'' @ i @ ''-title'', at_id = [], at_name = []\<rparr>,
                    \<lparr>at_for = [], at_id = ''id_book-'' @ i @ ''-title'', at_name = ''book-'' @ i @ ''-title''\<rparr>],
     fr_original = False, fr_deletable = False, fr_label = ''#1''\<rparr>"

definition sample_template :: form_row where
  "sample_template = (sample_form ''__prefix__'')\<lparr>fr_self := \<lparr>at_for = [], at_id = ''book-empty'', at_name = []\<rparr>\<rparr>"

lemma sample_forms:
  "no_empty [FormRow (sample_form ''0'')]" "numbered_rows ''book'' [FormRow (sample_form ''0'')]"
  "template_ok ''book'' sample_template"
proof -
  show "numbered_rows ''book'' [FormRow (sample_form ''0'')]"
    unfolding numbered_rows_def by simp code_simp
  show "template_ok ''book'' sample_template" by code_simp
qed simp

theorem forms_numbered_witness:
  "fs_total (fold formset_handle [AddClick, AddClick, DeleteClick 1]
      (init_formset ''book'' True [FormRow (sample_form ''0''), EmptyForm sample_template] 1 None None))
    = forms_count (fs_siblings (fold formset_handle [AddClick, AddClick, DeleteClick 1]
      (init_formset ''book'' True [FormRow (sample_form ''0''), EmptyForm sample_template] 1 None None)))"
  using forms_numbered [OF sample_forms refl, of "[AddClick, AddClick, DeleteClick 1]" True None None]
  by simp

subsection \<open>The number of forms\<close>

definition formset_bounds :: "formset \<Rightarrow> bool" where
  "formset_bounds s =
     ((case fs_max s of None \<Rightarrow> True | Some m \<Rightarrow> fs_total s \<le> m \<and> (fs_add_shown s \<longrightarrow> fs_total s < m))
      \<and> (case fs_min s of None \<Rightarrow> True
         | Some m \<Rightarrow> m \<le> fs_total s \<and> (fs_deletes_shown s \<longrightarrow> m < fs_total s)))"

lemma formset_handle_bounds:
  assumes "formset_ok p mx mn s" and "formset_bounds s"
  shows "formset_bounds (formset_handle e s)"
proof (cases e)
  case AddClick
  with assms(2) show ?thesis
    by (auto simp: formset_handle_def formset_bounds_def add_result split: option.splits)
next
  case (DeleteClick k)
  show ?thesis
  proof (cases "fs_deletes_shown s \<and> k < length (forms_of (fs_siblings s))
      \<and> fr_deletable (forms_of (fs_siblings s) ! k)")
    case True
    then have k: "k < length (forms_of (fs_siblings s))" by simp
    from assms(1) k show ?thesis
    proof (rule delete_cases)
      fix ss t
      assume *: "fs_siblings s = ss @ [EmptyForm t]" "no_empty ss" "fs_total s = forms_count ss"
        "k < length (forms_of ss)"
      from delete_result [OF *(1,2,4)] True assms(2) *(3) show ?thesis
        by (auto simp: DeleteClick formset_handle_def formset_bounds_def split: option.splits)
    qed
  qed (use assms in \<open>auto simp: DeleteClick formset_handle_def\<close>)
qed

interpretation bounded: event_machine formset_handle "\<lambda>s. formset_ok p mx mn s \<and> formset_bounds s"
  for p mx mn
  by unfold_locales (blast intro: formset_handle_ok formset_handle_bounds)

text \<open>
  C28: a formset keeps to its limits.  When the number of forms the server sent is between the
  minimum and the maximum, no clicks on the buttons that are shown take it out of them: the button
  that adds a form is there only below the maximum, the links that remove one only above the
  minimum.
\<close>

theorem forms_bounded:
  assumes "no_empty ss" and "numbered_rows p ss" and "template_ok p t"
    and "s = fold formset_handle es
      (init_formset p st (ss @ [EmptyForm t]) (forms_count ss) (Some mx) (Some mn))"
    and "mn \<le> forms_count ss" and "forms_count ss \<le> mx"
  shows "mn \<le> forms_count (fs_siblings s) \<and> forms_count (fs_siblings s) \<le> mx
    \<and> (fs_add_shown s \<longrightarrow> forms_count (fs_siblings s) < mx)
    \<and> (fs_deletes_shown s \<longrightarrow> mn < forms_count (fs_siblings s))"
proof -
  let ?s = "init_formset p st (ss @ [EmptyForm t]) (forms_count ss) (Some mx) (Some mn)"
  have "formset_bounds ?s"
    using assms(5,6) by (auto simp: formset_bounds_def init_formset_def toggleDeleteButtonVisibility_def)
  with init_ok [OF assms(1-3), of "Some mx" "Some mn" st]
  have "formset_ok p (Some mx) (Some mn) ?s \<and> formset_bounds ?s" by simp
  from bounded.run_invar [OF this, of es]
  have "formset_ok p (Some mx) (Some mn) s" "formset_bounds s" using assms(4) by simp_all
  moreover from this(1) have "fs_total s = forms_count (fs_siblings s)"
    by (auto simp: formset_ok_def formset_inv_def)
  ultimately show ?thesis by (auto simp: formset_bounds_def formset_ok_def)
qed

theorem forms_bounded_witness:
  "forms_count (fs_siblings (fold formset_handle [AddClick, AddClick, DeleteClick 0]
      (init_formset ''book'' False [FormRow (sample_form ''0''), EmptyForm sample_template] 1 (Some 2) (Some 1)))) \<le> 2"
  using forms_bounded [OF sample_forms refl, of 1 2 "[AddClick, AddClick, DeleteClick 0]" False] by simp

end
