(* ===== verification/SelectBox.thy ===== *)
theory SelectBox
  imports JsPrelude
begin

text \<open>
  The cache behind the admin's two-pane selector
  (\<open>koded-cli/web/backend/staticfiles/admin/js/SelectBox.js\<close>).  The state is the cache, a
  list of nodes per box id, and the page's boxes, each a list of options.  An operation on an id
  that has no cache or no box throws, which is \<open>None\<close>.
\<close>

record node =
  nvalue :: string
  ntext :: string
  displayed :: bool

record opt =
  ovalue :: string
  otext :: string
  otitle :: string
  selected :: bool

record boxes =
  cache :: "string \<rightharpoonup> node list"
  dom :: "string \<rightharpoonup> opt list"

text \<open>Operations on one box's cache.\<close>

definition node_of :: "opt \<Rightarrow> node" where
  "node_of p = \<lparr>nvalue = ovalue p, ntext = otext p, displayed = True\<rparr>"

definition option_of :: "node \<Rightarrow> opt" where
  "option_of n = \<lparr>ovalue = nvalue n, otext = ntext n, otitle = ntext n, selected = False\<rparr>"

definition shown_options :: "node list \<Rightarrow> opt list" where
  "shown_options ns = map option_of (filter displayed ns)"

text \<open>\<open>node.displayed\<close> after a search: every token of the text occurs in the node's text.\<close>

definition filter_nodes :: "string \<Rightarrow> node list \<Rightarrow> node list" where
  "filter_nodes text ns =
     (let tokens = split_ws (toLowerCase text)
      in map (\<lambda>n. n\<lparr>displayed :=
                list_all (\<lambda>tok. str_includes (toLowerCase (ntext n)) tok) tokens\<rparr>) ns)"

definition contains_value :: "node list \<Rightarrow> string \<Rightarrow> bool" where
  "contains_value ns v = list_ex (\<lambda>n. nvalue n = v) ns"

text \<open>
  The index of the first match, or \<open>null\<close>; \<open>splice(null, 1)\<close> reads \<open>null\<close> as 0, so deleting
  a value that is not there removes the first node.
\<close>

fun index_of_value :: "node list \<Rightarrow> string \<Rightarrow> nat option" where
  "index_of_value [] v = None"
| "index_of_value (n # ns) v =
     (if nvalue n = v then Some 0 else map_option Suc (index_of_value ns v))"

definition delete_value :: "string \<Rightarrow> node list \<Rightarrow> node list" where
  "delete_value v ns =
     (let i = (case index_of_value ns v of None \<Rightarrow> 0 | Some i \<Rightarrow> i)
      in take i ns @ drop (Suc i) ns)"

text \<open>The comparison of \<open>sort\<close> is on lower-case text; the sort is stable.\<close>

definition sort_nodes :: "node list \<Rightarrow> node list" where
  "sort_nodes ns = sort_key (\<lambda>n. toLowerCase (ntext n)) ns"

text \<open>
  The loops of \<open>move\<close> and \<open>move_all\<close> over the options of the source box (which stay in place
  until the boxes are redrawn), on the two caches: \<open>pick\<close> is the extra test.
\<close>

fun move_loop ::
  "(opt \<Rightarrow> bool) \<Rightarrow> opt list \<Rightarrow> node list \<times> node list \<Rightarrow> node list \<times> node list" where
  "move_loop pick [] ft = ft"
| "move_loop pick (p # ps) (f, t) =
     (if pick p \<and> contains_value f (ovalue p)
      then move_loop pick ps (delete_value (ovalue p) f, t @ [node_of p])
      else move_loop pick ps (f, t))"

subsection \<open>The operations of the object\<close>

definition init :: "string \<Rightarrow> boxes \<Rightarrow> boxes option" where
  "init bid s =
     (case dom s bid of None \<Rightarrow> None
      | Some ps \<Rightarrow> Some (s\<lparr>cache := (cache s)(bid \<mapsto> map node_of ps)\<rparr>))"

definition redisplay :: "string \<Rightarrow> boxes \<Rightarrow> boxes option" where
  "redisplay bid s =
     (case (dom s bid, cache s bid) of
        (Some _, Some ns) \<Rightarrow> Some (s\<lparr>dom := (dom s)(bid \<mapsto> shown_options ns)\<rparr>)
      | _ \<Rightarrow> None)"

definition filter_box :: "string \<Rightarrow> string \<Rightarrow> boxes \<Rightarrow> boxes option" where
  "filter_box bid text s =
     (case cache s bid of None \<Rightarrow> None
      | Some ns \<Rightarrow> redisplay bid (s\<lparr>cache := (cache s)(bid \<mapsto> filter_nodes text ns)\<rparr>))"

definition get_hidden_node_count :: "string \<Rightarrow> boxes \<Rightarrow> nat" where
  "get_hidden_node_count bid s =
     length (filter (\<lambda>n. \<not> displayed n) (case cache s bid of None \<Rightarrow> [] | Some ns \<Rightarrow> ns))"

definition delete_from_cache :: "string \<Rightarrow> string \<Rightarrow> boxes \<Rightarrow> boxes option" where
  "delete_from_cache bid v s =
     (case cache s bid of None \<Rightarrow> None
      | Some ns \<Rightarrow> Some (s\<lparr>cache := (cache s)(bid \<mapsto> delete_value v ns)\<rparr>))"

definition add_to_cache :: "string \<Rightarrow> opt \<Rightarrow> boxes \<Rightarrow> boxes option" where
  "add_to_cache bid p s =
     (case cache s bid of None \<Rightarrow> None
      | Some ns \<Rightarrow> Some (s\<lparr>cache := (cache s)(bid \<mapsto> ns @ [node_of p])\<rparr>))"

definition cache_contains :: "string \<Rightarrow> string \<Rightarrow> boxes \<Rightarrow> bool option" where
  "cache_contains bid v s = map_option (\<lambda>ns. contains_value ns v) (cache s bid)"

text \<open>One round of the loops, on the object's state, with the calls the code makes.\<close>

definition move_one :: "(opt \<Rightarrow> bool) \<Rightarrow> string \<Rightarrow> string \<Rightarrow> opt \<Rightarrow> boxes \<Rightarrow> boxes option" where
  "move_one pick fr to p s =
     (if \<not> pick p then Some s
      else (case cache_contains fr (ovalue p) s of None \<Rightarrow> None
            | Some False \<Rightarrow> Some s
            | Some True \<Rightarrow>
                Option.bind (add_to_cache to p s) (delete_from_cache fr (ovalue p))))"

fun move_each ::
  "(opt \<Rightarrow> bool) \<Rightarrow> string \<Rightarrow> string \<Rightarrow> opt list \<Rightarrow> boxes \<Rightarrow> boxes option" where
  "move_each pick fr to [] s = Some s"
| "move_each pick fr to (p # ps) s =
     Option.bind (move_one pick fr to p s) (move_each pick fr to ps)"

definition move_with :: "(opt \<Rightarrow> bool) \<Rightarrow> string \<Rightarrow> string \<Rightarrow> boxes \<Rightarrow> boxes option" where
  "move_with pick fr to s =
     (case dom s fr of None \<Rightarrow> None
      | Some ps \<Rightarrow>
          Option.bind (move_each pick fr to ps s)
            (\<lambda>s1. Option.bind (redisplay fr s1) (redisplay to)))"

definition move :: "string \<Rightarrow> string \<Rightarrow> boxes \<Rightarrow> boxes option" where
  "move = move_with selected"

definition move_all :: "string \<Rightarrow> string \<Rightarrow> boxes \<Rightarrow> boxes option" where
  "move_all = move_with (\<lambda>_. True)"

definition sort_box :: "string \<Rightarrow> boxes \<Rightarrow> boxes option" where
  "sort_box bid s =
     (case cache s bid of None \<Rightarrow> None
      | Some ns \<Rightarrow> Some (s\<lparr>cache := (cache s)(bid \<mapsto> sort_nodes ns)\<rparr>))"

definition select_all :: "string \<Rightarrow> boxes \<Rightarrow> boxes option" where
  "select_all bid s =
     (case dom s bid of None \<Rightarrow> None
      | Some ps \<Rightarrow> Some (s\<lparr>dom := (dom s)(bid \<mapsto> map (\<lambda>p. p\<lparr>selected := True\<rparr>) ps)\<rparr>))"

subsection \<open>One cache\<close>

abbreviation choice :: "node \<Rightarrow> string \<times> string" where
  "choice n \<equiv> (nvalue n, ntext n)"

abbreviation ochoice :: "opt \<Rightarrow> string \<times> string" where
  "ochoice p \<equiv> (ovalue p, otext p)"

lemma node_of_simps [simp]:
  "nvalue (node_of p) = ovalue p" "ntext (node_of p) = otext p" "displayed (node_of p)"
  by (simp_all add: node_of_def)

lemma option_of_simps [simp]:
  "ovalue (option_of n) = nvalue n" "otext (option_of n) = ntext n" "\<not> selected (option_of n)"
  "otitle (option_of n) = ntext n"
  by (simp_all add: option_of_def)

lemma contains_value_iff: "contains_value ns v \<longleftrightarrow> v \<in> nvalue ` set ns"
  by (auto simp: contains_value_def list_ex_iff)

lemma contains_value_Cons [simp]:
  "contains_value (n # ns) v \<longleftrightarrow> nvalue n = v \<or> contains_value ns v"
  "\<not> contains_value [] v"
  by (simp_all add: contains_value_def)

lemma index_of_value_None: "index_of_value ns v = None \<longleftrightarrow> \<not> contains_value ns v"
  by (induction ns) auto

lemma delete_value_Cons:
  "delete_value v (n # ns) =
     (if nvalue n = v \<or> \<not> contains_value ns v then ns else n # delete_value v ns)"
  by (auto simp: delete_value_def index_of_value_None [symmetric] split: option.split)

lemma delete_value_Nil [simp]: "delete_value v [] = []"
  by (simp add: delete_value_def)

text \<open>
  Deleting from a cache.  A value that is there loses exactly its first node and every other
  node keeps its place; a value that is not there costs the cache its first node, whatever that
  is, because the \<open>null\<close> index is read as 0.
\<close>

theorem delete_value_spec:
  "delete_value v ns =
     (if contains_value ns v
      then takeWhile (\<lambda>n. nvalue n \<noteq> v) ns @ tl (dropWhile (\<lambda>n. nvalue n \<noteq> v) ns)
      else tl ns)"
  by (induction ns) (auto simp: delete_value_Cons)

lemma mset_delete_value:
  "contains_value ns v \<Longrightarrow>
     add_mset v (mset (map nvalue (delete_value v ns))) = mset (map nvalue ns)"
  by (induction ns) (auto simp: delete_value_Cons add_mset_commute)

lemma delete_value_distinct:
  "distinct (map nvalue ns) \<Longrightarrow> contains_value ns v \<Longrightarrow>
     delete_value v ns = filter (\<lambda>n. nvalue n \<noteq> v) ns"
proof (induction ns)
  case (Cons n ns)
  then show ?case
    by (auto simp: delete_value_Cons contains_value_iff image_iff intro!: filter_True [symmetric])
qed simp

lemma choices_filter_nodes [simp]: "map choice (filter_nodes text ns) = map choice ns"
  by (simp add: filter_nodes_def Let_def)

lemma values_filter_nodes [simp]: "map nvalue (filter_nodes text ns) = map nvalue ns"
  by (simp add: filter_nodes_def Let_def)

lemma length_filter_nodes [simp]: "length (filter_nodes text ns) = length ns"
  by (simp add: filter_nodes_def Let_def)

text \<open>What the search shows, from the words of the text.\<close>

definition matches :: "string \<Rightarrow> string \<times> string \<Rightarrow> bool" where
  "matches text c =
     (\<forall>tok \<in> set (split_ws (toLowerCase text)). str_includes (toLowerCase (snd c)) tok)"

lemma displayed_filter_nodes:
  "map displayed (filter_nodes text ns) = map (matches text \<circ> choice) ns"
  by (simp add: filter_nodes_def Let_def matches_def list_all_iff)

lemma shown_filter_nodes:
  "map ochoice (shown_options (filter_nodes text ns)) = filter (matches text) (map choice ns)"
  by (induction ns) (simp_all add: shown_options_def filter_nodes_def Let_def matches_def
      list_all_iff)

lemma matches_Nil [simp]: "matches [] c"
  by (simp add: matches_def split_ws.simps)

text \<open>
  Sorting a box.  The nodes are a permutation of the old ones, in non-decreasing order of
  their lower-case text, and nodes whose texts differ in case only keep their order.
\<close>

theorem sort_nodes_spec:
  "mset (sort_nodes ns) = mset ns
   \<and> sorted (map (\<lambda>n. toLowerCase (ntext n)) (sort_nodes ns))
   \<and> filter (\<lambda>n. toLowerCase (ntext n) = k) (sort_nodes ns)
       = filter (\<lambda>n. toLowerCase (ntext n) = k) ns"
  by (simp add: sort_nodes_def stable_sort_key_sort_key [unfolded stable_sort_key_def, rule_format])

subsection \<open>The loops: the object's operations refine the loop on two caches\<close>

lemma map_upd2_id: "m a = Some x \<Longrightarrow> m b = Some y \<Longrightarrow> m(a \<mapsto> x, b \<mapsto> y) = m"
  by auto

lemma cache_upd2_id:
  assumes "cache s a = Some x" and "cache s b = Some y"
  shows "s\<lparr>cache := (cache s)(a \<mapsto> x, b \<mapsto> y)\<rparr> = s"
proof -
  have "(cache s)(a \<mapsto> x, b \<mapsto> y) = cache s" by (rule map_upd2_id) fact+
  then show ?thesis by simp
qed

lemma move_one_refines:
  assumes "cache s fr = Some f" and "cache s to = Some t" and "fr \<noteq> to"
  shows "move_one pick fr to p s =
    (case move_loop pick [p] (f, t) of
       (f', t') \<Rightarrow> Some (s\<lparr>cache := (cache s)(fr \<mapsto> f', to \<mapsto> t')\<rparr>))"
proof -
  note id = cache_upd2_id [OF assms(1,2)]
  have tw: "m(to \<mapsto> x, fr \<mapsto> y) = m(fr \<mapsto> y, to \<mapsto> x)"
    for x y and m :: "string \<rightharpoonup> node list"
    using assms(3) by (simp add: fun_upd_twist)
  show ?thesis
  proof (cases "pick p \<and> contains_value f (ovalue p)")
    case True
    then show ?thesis
      using assms
      by (simp add: move_one_def cache_contains_def add_to_cache_def delete_from_cache_def tw)
  next
    case False
    then have "move_one pick fr to p s = Some s"
      using assms(1) by (auto simp: move_one_def cache_contains_def)
    with False show ?thesis by (auto simp only: id move_loop.simps if_False prod.case)
  qed
qed

lemma move_loop_Cons:
  "move_loop pick (p # ps) ft = move_loop pick ps (move_loop pick [p] ft)"
  by (cases ft) simp

lemma move_each_refines:
  assumes "cache s fr = Some f" and "cache s to = Some t" and "fr \<noteq> to"
  shows "move_each pick fr to ps s =
    (case move_loop pick ps (f, t) of
       (f', t') \<Rightarrow> Some (s\<lparr>cache := (cache s)(fr \<mapsto> f', to \<mapsto> t')\<rparr>))"
  using assms
proof (induction ps arbitrary: s f t)
  case Nil
  then show ?case by (simp only: move_each.simps move_loop.simps prod.case cache_upd2_id)
next
  case (Cons p ps)
  obtain f1 t1 where m: "move_loop pick [p] (f, t) = (f1, t1)" by fastforce
  let ?s1 = "s\<lparr>cache := (cache s)(fr \<mapsto> f1, to \<mapsto> t1)\<rparr>"
  have "move_each pick fr to (p # ps) s = move_each pick fr to ps ?s1"
    using move_one_refines [OF Cons.prems, of pick p] m by simp
  also have "\<dots> = (case move_loop pick ps (f1, t1) of
       (f', t') \<Rightarrow> Some (?s1\<lparr>cache := (cache ?s1)(fr \<mapsto> f', to \<mapsto> t')\<rparr>))"
    by (rule Cons.IH) (use Cons.prems in auto)
  also have "\<dots> = (case move_loop pick ps (f1, t1) of
       (f', t') \<Rightarrow> Some (s\<lparr>cache := (cache s)(fr \<mapsto> f', to \<mapsto> t')\<rparr>))"
  proof -
    have "m(fr \<mapsto> a, to \<mapsto> b, fr \<mapsto> c, to \<mapsto> d) = m(fr \<mapsto> c, to \<mapsto> d)"
      for a b c d and m :: "string \<rightharpoonup> node list"
      by (rule ext) simp
    then show ?thesis by (simp split: prod.split del: fun_upd_apply)
  qed
  also have "move_loop pick ps (f1, t1) = move_loop pick (p # ps) (f, t)"
    by (simp only: move_loop_Cons [of pick p ps "(f, t)"] m)
  finally show ?case .
qed

lemma move_with_eq:
  assumes "cache s fr = Some f" and "cache s to = Some t" and "fr \<noteq> to"
    and "dom s fr = Some ps" and "dom s to = Some qs"
    and "move_loop pick ps (f, t) = (f', t')"
  shows "move_with pick fr to s =
    Some (s\<lparr>cache := (cache s)(fr \<mapsto> f', to \<mapsto> t'),
            dom := (dom s)(fr \<mapsto> shown_options f', to \<mapsto> shown_options t')\<rparr>)"
  using assms by (simp add: move_with_def move_each_refines redisplay_def)

text \<open>Values are conserved whatever the caches hold, duplicates included.\<close>

lemma move_loop_mset:
  "mset (map nvalue (fst (move_loop pick ps (f, t)))) + mset (map nvalue (snd (move_loop pick ps (f, t))))
     = mset (map nvalue f) + mset (map nvalue t)"
proof (induction ps arbitrary: f t)
  case (Cons p ps)
  then show ?case
    using mset_delete_value [of f "ovalue p"] by (auto simp flip: union_mset_add_mset_left)
qed simp

text \<open>
  Moving conserves the values.  Whatever the two caches hold, duplicates included, and
  whichever options the page shows, moving one way neither loses nor invents a value.
\<close>

theorem move_conserves_values:
  assumes "fr \<noteq> to" and "cache s fr = Some f" and "cache s to = Some t"
    and "dom s fr = Some ps" and "dom s to = Some qs"
  shows "\<exists>s' f' t'. move_with pick fr to s = Some s'
    \<and> cache s' fr = Some f' \<and> cache s' to = Some t'
    \<and> mset (map nvalue f') + mset (map nvalue t') = mset (map nvalue f) + mset (map nvalue t)"
proof -
  obtain f' t' where m: "move_loop pick ps (f, t) = (f', t')" by fastforce
  with move_loop_mset [of pick ps f t] show ?thesis
    using move_with_eq [OF assms(2,3,1,4,5) m] assms(1) by simp
qed

definition sample_nodes :: "node list" where
  "sample_nodes =
     [\<lparr>nvalue = ''1'', ntext = ''One'', displayed = True\<rparr>,
      \<lparr>nvalue = ''2'', ntext = ''Two'', displayed = True\<rparr>]"

definition sample_options :: "opt list" where
  "sample_options =
     [\<lparr>ovalue = ''1'', otext = ''One'', otitle = ''One'', selected = True\<rparr>,
      \<lparr>ovalue = ''2'', otext = ''Two'', otitle = ''Two'', selected = False\<rparr>]"

definition sample_boxes :: boxes where
  "sample_boxes = \<lparr>cache = [''a'' \<mapsto> sample_nodes, ''b'' \<mapsto> []],
     dom = [''a'' \<mapsto> sample_options, ''b'' \<mapsto> []]\<rparr>"

theorem move_conserves_values_witness:
  "\<exists>s' f' t'. move_with selected ''a'' ''b'' sample_boxes = Some s'
    \<and> cache s' ''a'' = Some f' \<and> cache s' ''b'' = Some t'
    \<and> mset (map nvalue f') + mset (map nvalue t') = mset (map nvalue sample_nodes)"
proof -
  have "cache sample_boxes ''a'' = Some sample_nodes" "cache sample_boxes ''b'' = Some []"
    "dom sample_boxes ''a'' = Some sample_options" "dom sample_boxes ''b'' = Some []"
    by (simp_all add: sample_boxes_def)
  from move_conserves_values [OF _ this, of selected] show ?thesis by simp
qed

subsection \<open>Boxes in step with their caches\<close>

text \<open>A box is in step with a cache when it lists exactly the displayed nodes, in order.\<close>

definition in_sync :: "opt list \<Rightarrow> node list \<Rightarrow> bool" where
  "in_sync ps ns = (map ochoice ps = map choice (filter displayed ns))"

text \<open>Two boxes of one selector: both in step, and no value twice among them.\<close>

definition pair_inv :: "string \<Rightarrow> string \<Rightarrow> boxes \<Rightarrow> bool" where
  "pair_inv a b s =
     (case (cache s a, cache s b, dom s a, dom s b) of
        (Some f, Some t, Some ps, Some qs) \<Rightarrow>
          a \<noteq> b \<and> in_sync ps f \<and> in_sync qs t \<and> distinct (map nvalue (f @ t))
      | _ \<Rightarrow> False)"

definition nodes_of :: "string \<Rightarrow> boxes \<Rightarrow> node list" where
  "nodes_of a s = (case cache s a of None \<Rightarrow> [] | Some ns \<Rightarrow> ns)"

definition options_of :: "string \<Rightarrow> boxes \<Rightarrow> opt list" where
  "options_of a s = (case dom s a of None \<Rightarrow> [] | Some ps \<Rightarrow> ps)"

text \<open>All the choices of a selector, on either side.\<close>

definition pair_choices :: "string \<Rightarrow> string \<Rightarrow> boxes \<Rightarrow> (string \<times> string) multiset" where
  "pair_choices a b s = mset (map choice (nodes_of a s)) + mset (map choice (nodes_of b s))"

lemma pair_inv_iff:
  "pair_inv a b s \<longleftrightarrow>
     a \<noteq> b \<and> cache s a = Some (nodes_of a s) \<and> cache s b = Some (nodes_of b s)
     \<and> dom s a = Some (options_of a s) \<and> dom s b = Some (options_of b s)
     \<and> in_sync (options_of a s) (nodes_of a s) \<and> in_sync (options_of b s) (nodes_of b s)
     \<and> distinct (map nvalue (nodes_of a s @ nodes_of b s))"
  by (auto simp: pair_inv_def nodes_of_def options_of_def split: option.splits)

lemma pair_inv_commute: "pair_inv a b s \<longleftrightarrow> pair_inv b a s"
  by (auto simp: pair_inv_iff)

lemma in_sync_shown [simp]: "in_sync (shown_options ns) ns"
  by (simp add: in_sync_def shown_options_def)

lemma sync_values:
  assumes "in_sync ps ns"
  shows "ovalue ` set ps \<subseteq> nvalue ` set ns"
    and "distinct (map nvalue ns) \<Longrightarrow> distinct (map ovalue ps)"
proof -
  have eq: "map ovalue ps = map nvalue (filter displayed ns)"
    using arg_cong [OF assms [unfolded in_sync_def], of "map fst"] by (simp add: comp_def)
  then have "set (map ovalue ps) = set (map nvalue (filter displayed ns))" by (simp only:)
  then show "ovalue ` set ps \<subseteq> nvalue ` set ns" by auto
  show "distinct (map nvalue ns) \<Longrightarrow> distinct (map ovalue ps)"
    unfolding eq by (rule distinct_map_filter)
qed

lemma move_loop_exact:
  assumes "distinct (map nvalue f)" and "distinct (map ovalue ps)"
    and "ovalue ` set ps \<subseteq> nvalue ` set f"
  shows "move_loop pick ps (f, t) =
    (filter (\<lambda>n. nvalue n \<notin> ovalue ` set (filter pick ps)) f, t @ map node_of (filter pick ps))"
  using assms
proof (induction ps arbitrary: f t)
  case (Cons p ps)
  show ?case
  proof (cases "pick p")
    case True
    have c: "contains_value f (ovalue p)"
      using Cons.prems(3) by (auto simp: contains_value_iff)
    let ?f = "filter (\<lambda>n. nvalue n \<noteq> ovalue p) f"
    have "distinct (map nvalue ?f)" using Cons.prems(1) by (rule distinct_map_filter)
    moreover have "ovalue ` set ps \<subseteq> nvalue ` set ?f"
    proof
      fix v
      assume v: "v \<in> ovalue ` set ps"
      with Cons.prems(3) obtain n where "n \<in> set f" "nvalue n = v" by auto
      moreover from v Cons.prems(2) have "v \<noteq> ovalue p" by (metis distinct.simps(2) list.simps(9) set_map)
      ultimately show "v \<in> nvalue ` set ?f" by auto
    qed
    ultimately have "move_loop pick ps (?f, t @ [node_of p]) =
        (filter (\<lambda>n. nvalue n \<notin> ovalue ` set (filter pick ps)) ?f,
         (t @ [node_of p]) @ map node_of (filter pick ps))"
      using Cons.prems(2) by (intro Cons.IH) auto
    with True c Cons.prems(1) show ?thesis
      by (simp add: delete_value_distinct conj_commute)
  next
    case False
    with Cons show ?thesis by simp
  qed
qed simp

text \<open>The state after a move, computed.\<close>

lemma move_with_exact:
  fixes pick :: "opt \<Rightarrow> bool"
  assumes "pair_inv a b s"
  defines "sel \<equiv> filter pick (options_of a s)"
  defines "f' \<equiv> filter (\<lambda>n. nvalue n \<notin> ovalue ` set sel) (nodes_of a s)"
    and "t' \<equiv> nodes_of b s @ map node_of sel"
  shows "move_with pick a b s =
    Some (s\<lparr>cache := (cache s)(a \<mapsto> f', b \<mapsto> t'),
            dom := (dom s)(a \<mapsto> shown_options f', b \<mapsto> shown_options t')\<rparr>)"
proof -
  from assms(1) have inv: "a \<noteq> b" "cache s a = Some (nodes_of a s)"
    "cache s b = Some (nodes_of b s)" "dom s a = Some (options_of a s)"
    "dom s b = Some (options_of b s)" "in_sync (options_of a s) (nodes_of a s)"
    "distinct (map nvalue (nodes_of a s))"
    unfolding pair_inv_iff by auto
  then have "move_loop pick (options_of a s) (nodes_of a s, nodes_of b s) = (f', t')"
    unfolding f'_def t'_def sel_def by (intro move_loop_exact sync_values)
  then show ?thesis by (rule move_with_eq [OF inv(2,3,1,4,5)])
qed

lemma nodes_of_upd [simp]:
  "nodes_of x (s\<lparr>cache := (cache s)(a \<mapsto> f, b \<mapsto> t), dom := d\<rparr>) =
     (if x = b then t else if x = a then f else nodes_of x s)"
  by (simp add: nodes_of_def)

lemma options_of_upd [simp]:
  "options_of x (s\<lparr>cache := c, dom := (dom s)(a \<mapsto> f, b \<mapsto> t)\<rparr>) =
     (if x = b then t else if x = a then f else options_of x s)"
  by (simp add: options_of_def)

text \<open>The displayed options carry over what their nodes say.\<close>

lemma sync_choices:
  assumes "in_sync ps ns" and "distinct (map nvalue ns)"
  shows "mset (map choice (filter (\<lambda>n. nvalue n \<notin> ovalue ` set (filter pick ps)) ns))
     + mset (map ochoice (filter pick ps)) = mset (map choice ns)"
  using assms
proof (induction ns arbitrary: ps)
  case (Cons n ns)
  show ?case
  proof (cases "displayed n")
    case True
    then obtain p ps' where ps: "ps = p # ps'" "ochoice p = choice n" "in_sync ps' ns"
      using Cons.prems(1) by (cases ps) (auto simp: in_sync_def)
    from Cons.prems(2) have n: "nvalue n \<notin> nvalue ` set ns" "distinct (map nvalue ns)" by auto
    with sync_values(1) [OF ps(3)] have nsel: "nvalue n \<notin> ovalue ` set (filter pick ps')" by auto
    have flt: "filter (\<lambda>m. nvalue m \<notin> ovalue ` set (filter pick ps)) ns =
        filter (\<lambda>m. nvalue m \<notin> ovalue ` set (filter pick ps')) ns"
    proof (rule filter_cong)
      fix m
      assume "m \<in> set ns"
      with n(1) have "nvalue m \<noteq> nvalue n" by (metis image_eqI)
      then show "(nvalue m \<notin> ovalue ` set (filter pick ps)) =
          (nvalue m \<notin> ovalue ` set (filter pick ps'))"
        using ps(1,2) by auto
    qed simp
    have sel: "filter pick ps = (if pick p then p # filter pick ps' else filter pick ps')"
      using ps(1) by simp
    have "nvalue n \<in> ovalue ` set (filter pick ps) \<longleftrightarrow> pick p"
      using nsel ps(2) by (auto simp: sel)
    then have "map choice (filter (\<lambda>m. nvalue m \<notin> ovalue ` set (filter pick ps)) (n # ns)) =
        (if pick p then [] else [choice n])
        @ map choice (filter (\<lambda>m. nvalue m \<notin> ovalue ` set (filter pick ps')) ns)"
      unfolding filter.simps flt by simp
    moreover have "map ochoice (filter pick ps) =
        (if pick p then [choice n] else []) @ map ochoice (filter pick ps')"
      using ps(2) by (simp add: sel)
    ultimately show ?thesis using Cons.IH [OF ps(3) n(2)] by (simp split: if_splits)
  next
    case False
    then have s: "in_sync ps ns" using Cons.prems(1) by (simp add: in_sync_def)
    with sync_values(1) [OF s] Cons.prems(2) have "nvalue n \<notin> ovalue ` set (filter pick ps)"
      by auto
    with Cons.IH [OF s] Cons.prems(2) show ?thesis by simp
  qed
qed (simp add: in_sync_def)

lemma move_with_pair:
  assumes "pair_inv a b s"
  shows "\<exists>s'. move_with pick a b s = Some s' \<and> pair_inv a b s'
    \<and> pair_choices a b s' = pair_choices a b s
    \<and> (\<forall>c. c \<noteq> a \<longrightarrow> c \<noteq> b \<longrightarrow> cache s' c = cache s c \<and> dom s' c = dom s c)"
proof -
  define sel where "sel = filter pick (options_of a s)"
  define f' where "f' = filter (\<lambda>n. nvalue n \<notin> ovalue ` set sel) (nodes_of a s)"
  define t' where "t' = nodes_of b s @ map node_of sel"
  define s' where "s' = s\<lparr>cache := (cache s)(a \<mapsto> f', b \<mapsto> t'),
            dom := (dom s)(a \<mapsto> shown_options f', b \<mapsto> shown_options t')\<rparr>"
  have mv: "move_with pick a b s = Some s'"
    unfolding s'_def f'_def t'_def sel_def by (rule move_with_exact [OF assms])
  from assms have ab: "a \<noteq> b" and sync: "in_sync (options_of a s) (nodes_of a s)"
    and dist: "distinct (map nvalue (nodes_of a s @ nodes_of b s))"
    unfolding pair_inv_iff by auto
  have n: "nodes_of a s' = f'" "nodes_of b s' = t'"
    using ab by (simp_all add: s'_def nodes_of_def)
  have "mset (map choice f') + mset (map ochoice sel) = mset (map choice (nodes_of a s))"
    unfolding f'_def sel_def using dist by (intro sync_choices [OF sync]) simp
  then have ch: "mset (map choice f') + mset (map choice t') =
      mset (map choice (nodes_of a s)) + mset (map choice (nodes_of b s))"
    by (simp add: t'_def comp_def)
  then have "image_mset fst (mset (map choice f') + mset (map choice t')) =
      image_mset fst (mset (map choice (nodes_of a s)) + mset (map choice (nodes_of b s)))"
    by (simp only:)
  then have "mset (map nvalue (f' @ t')) = mset (map nvalue (nodes_of a s @ nodes_of b s))"
    by (simp add: multiset.map_comp comp_def)
  then have "distinct (map nvalue (f' @ t'))"
    using dist mset_eq_imp_distinct_iff by blast
  then have "pair_inv a b s'" using ab by (simp add: pair_inv_def s'_def)
  moreover have "pair_choices a b s' = pair_choices a b s"
    using ch by (simp add: pair_choices_def n)
  ultimately show ?thesis using mv by (auto simp: s'_def)
qed

subsection \<open>The contract of a move\<close>

text \<open>
  What the selector relies on, whichever of the two moves a button is given: between the boxes of
  a selector the move never throws, keeps both boxes in step with their caches, and neither loses
  nor duplicates a choice.
\<close>

locale mover =
  fixes mv :: "string \<Rightarrow> string \<Rightarrow> boxes \<Rightarrow> boxes option"
  assumes mv_pair: "pair_inv a b s \<Longrightarrow>
    \<exists>s'. mv a b s = Some s' \<and> pair_inv a b s' \<and> pair_choices a b s' = pair_choices a b s"
begin

lemma mv_back: "pair_inv a b s \<Longrightarrow>
    \<exists>s'. mv b a s = Some s' \<and> pair_inv a b s' \<and> pair_choices a b s' = pair_choices a b s"
  using mv_pair [of b a s] by (simp add: pair_inv_commute [of b a] pair_choices_def add.commute)

end

interpretation mv_sel: mover move
  using move_with_pair [of _ _ _ selected] by unfold_locales (fastforce simp: move_def)

interpretation mv_all: mover move_all
  using move_with_pair [of _ _ _ "\<lambda>_. True"] by unfold_locales (fastforce simp: move_all_def)

subsection \<open>Searching and selecting in a selector's boxes\<close>

lemma pair_inv_cache_dom:
  assumes "pair_inv a b s" and "in_sync ps ns" and "map choice ns = map choice (nodes_of a s)"
  defines "s' \<equiv> s\<lparr>cache := (cache s)(a \<mapsto> ns), dom := (dom s)(a \<mapsto> ps)\<rparr>"
  shows "pair_inv a b s'" and "pair_choices a b s' = pair_choices a b s"
proof -
  have n: "nodes_of a s' = ns" "nodes_of b s' = nodes_of b s" "options_of a s' = ps"
    "options_of b s' = options_of b s"
    using assms(1) by (auto simp: s'_def nodes_of_def options_of_def pair_inv_iff)
  have "map nvalue ns = map nvalue (nodes_of a s)"
    using arg_cong [OF assms(3), of "map fst"] by (simp add: comp_def)
  moreover from this have "nvalue ` set ns = nvalue ` set (nodes_of a s)"
    by (metis list.set_map)
  ultimately show "pair_inv a b s'"
    using assms(1,2) unfolding pair_inv_iff n by (auto simp: s'_def)
  show "pair_choices a b s' = pair_choices a b s"
    using assms(3) by (simp add: pair_choices_def n)
qed

lemma nodes_of_upd1 [simp]:
  "nodes_of x (s\<lparr>cache := (cache s)(a \<mapsto> ns), dom := d\<rparr>) = (if x = a then ns else nodes_of x s)"
  "nodes_of x (s\<lparr>cache := (cache s)(a \<mapsto> ns)\<rparr>) = (if x = a then ns else nodes_of x s)"
  "nodes_of x (s\<lparr>dom := d\<rparr>) = nodes_of x s"
  by (simp_all add: nodes_of_def)

lemma options_of_upd1 [simp]:
  "options_of x (s\<lparr>cache := c, dom := (dom s)(a \<mapsto> ps)\<rparr>) = (if x = a then ps else options_of x s)"
  "options_of x (s\<lparr>dom := (dom s)(a \<mapsto> ps)\<rparr>) = (if x = a then ps else options_of x s)"
  by (simp_all add: options_of_def)

lemma filter_box_pair:
  assumes "pair_inv a b s"
  shows "\<exists>s'. filter_box a q s = Some s' \<and> pair_inv a b s'
    \<and> pair_choices a b s' = pair_choices a b s
    \<and> nodes_of a s' = filter_nodes q (nodes_of a s) \<and> nodes_of b s' = nodes_of b s
    \<and> options_of a s' = shown_options (nodes_of a s') \<and> options_of b s' = options_of b s"
proof -
  let ?ns = "filter_nodes q (nodes_of a s)"
  let ?s = "s\<lparr>cache := (cache s)(a \<mapsto> ?ns), dom := (dom s)(a \<mapsto> shown_options ?ns)\<rparr>"
  have "filter_box a q s = Some ?s"
    using assms by (simp add: filter_box_def redisplay_def pair_inv_iff)
  moreover have "pair_inv a b ?s" "pair_choices a b ?s = pair_choices a b s"
    using pair_inv_cache_dom [OF assms, of "shown_options ?ns" ?ns] by simp_all
  moreover have "a \<noteq> b" using assms by (simp add: pair_inv_iff)
  ultimately show ?thesis by (intro exI [of _ ?s]) simp
qed

lemma filter_box_back:
  assumes "pair_inv a b s"
  shows "\<exists>s'. filter_box b q s = Some s' \<and> pair_inv a b s'
    \<and> pair_choices a b s' = pair_choices a b s
    \<and> nodes_of b s' = filter_nodes q (nodes_of b s) \<and> nodes_of a s' = nodes_of a s
    \<and> options_of b s' = shown_options (nodes_of b s') \<and> options_of a s' = options_of a s"
  using filter_box_pair [of b a s q] assms
  by (simp add: pair_inv_commute [of b a] pair_choices_def add.commute)

text \<open>Changing which options of a box are selected.\<close>

definition on_box :: "string \<Rightarrow> (opt list \<Rightarrow> opt list) \<Rightarrow> boxes \<Rightarrow> boxes option" where
  "on_box bid f s = map_option (\<lambda>ps. s\<lparr>dom := (dom s)(bid \<mapsto> f ps)\<rparr>) (dom s bid)"

lemma on_box_pair:
  assumes "pair_inv a b s" and "\<And>ps. map ochoice (f ps) = map ochoice ps"
  shows "\<exists>s'. on_box a f s = Some s' \<and> pair_inv a b s'
    \<and> pair_choices a b s' = pair_choices a b s \<and> cache s' = cache s
    \<and> options_of a s' = f (options_of a s) \<and> options_of b s' = options_of b s"
proof -
  let ?s = "s\<lparr>dom := (dom s)(a \<mapsto> f (options_of a s))\<rparr>"
  have id: "(cache s)(a \<mapsto> nodes_of a s) = cache s"
    using assms(1) by (auto simp: pair_inv_iff)
  have "in_sync (f (options_of a s)) (nodes_of a s)"
    using assms by (simp add: pair_inv_iff in_sync_def)
  then have "pair_inv a b ?s" "pair_choices a b ?s = pair_choices a b s"
    using pair_inv_cache_dom [OF assms(1), of "f (options_of a s)" "nodes_of a s"]
    by (simp_all add: id del: fun_upd_apply)
  moreover have "on_box a f s = Some ?s" using assms(1) by (simp add: on_box_def pair_inv_iff)
  moreover have "a \<noteq> b" using assms(1) by (simp add: pair_inv_iff)
  ultimately show ?thesis by (intro exI [of _ ?s]) simp
qed

lemma on_box_back:
  assumes "pair_inv a b s" and "\<And>ps. map ochoice (f ps) = map ochoice ps"
  shows "\<exists>s'. on_box b f s = Some s' \<and> pair_inv a b s'
    \<and> pair_choices a b s' = pair_choices a b s \<and> cache s' = cache s
    \<and> options_of b s' = f (options_of b s) \<and> options_of a s' = options_of a s"
  using on_box_pair [of b a s f] assms
  by (simp add: pair_inv_commute [of b a] pair_choices_def add.commute)

lemma select_all_on_box: "select_all bid = on_box bid (map (\<lambda>p. p\<lparr>selected := True\<rparr>))"
  by (auto simp: fun_eq_iff select_all_def on_box_def split: option.split)

end
