(* ===== verification/SelectFilter.thy ===== *)
theory SelectFilter
  imports SelectBox "HOL-Library.Monad_Syntax"
begin

text \<open>
  The two-pane selector (\<open>koded-cli/web/backend/staticfiles/admin/js/SelectFilter2.js\<close>): the
  event handlers around the cache of \<open>SelectBox\<close>.  A widget has two boxes, the available and the
  chosen one, each with a search input, and four buttons.  \<open>None\<close> is a handler that throws.
\<close>

datatype side = From | To

definition box_id :: "string \<Rightarrow> side \<Rightarrow> string" where
  "box_id fid sd = fid @ (case sd of From \<Rightarrow> ''_from'' | To \<Rightarrow> ''_to'')"

definition opposite :: "side \<Rightarrow> side" where
  "opposite sd = (case sd of From \<Rightarrow> To | To \<Rightarrow> From)"

text \<open>
  The part of the page the handlers read and write: the boxes, the value of each search input,
  the \<open>disabled\<close> flag of each pane's two buttons, the class of the chosen pane and the arguments
  of the message below it (whose wording the translation catalogue makes from them).
\<close>

record widget =
  wboxes :: boxes
  search :: "side \<Rightarrow> string"
  move_disabled :: "side \<Rightarrow> bool"
  all_disabled :: "side \<Rightarrow> bool"
  chosen_class :: string
  footer_args :: "(string \<times> string \<times> nat) option"

record key_event =
  which :: int
  keyCode :: int

definition key_is :: "key_event \<Rightarrow> int \<Rightarrow> bool" where
  "key_is e k = (which e \<noteq> 0 \<and> which e = k \<or> keyCode e \<noteq> 0 \<and> keyCode e = k)"

subsection \<open>The select element\<close>

text \<open>\<open>selectedIndex\<close> of a multiple select: the first selected option, or \<open>-1\<close>; setting it
  selects that option alone, and none when there is no such option.\<close>

definition reselect :: "(int \<Rightarrow> bool) \<Rightarrow> opt list \<Rightarrow> opt list" where
  "reselect P ps = map (\<lambda>(i, p). p\<lparr>selected := P (int i)\<rparr>) (enumerate 0 ps)"

fun first_selected :: "opt list \<Rightarrow> int \<Rightarrow> int" where
  "first_selected [] i = -1"
| "first_selected (p # ps) i = (if selected p then i else first_selected ps (i + 1))"

definition selectedIndex :: "string \<Rightarrow> boxes \<Rightarrow> int option" where
  "selectedIndex bid s = map_option (\<lambda>ps. first_selected ps 0) (dom s bid)"

definition set_selectedIndex :: "string \<Rightarrow> int \<Rightarrow> boxes \<Rightarrow> boxes option" where
  "set_selectedIndex bid i = on_box bid (reselect (\<lambda>j. j = i))"

definition box_length :: "string \<Rightarrow> boxes \<Rightarrow> int option" where
  "box_length bid s = map_option (\<lambda>ps. int (length ps)) (dom s bid)"

text \<open>A required multiple select is valid when some option is selected.\<close>

definition any_selected :: "opt list \<Rightarrow> bool" where
  "any_selected ps = list_ex selected ps"

subsection \<open>Refreshing\<close>

definition refresh_icons :: "string \<Rightarrow> widget \<Rightarrow> widget option" where
  "refresh_icons fid w =
     do { from \<leftarrow> dom (wboxes w) (box_id fid From);
          to \<leftarrow> dom (wboxes w) (box_id fid To);
          Some (w\<lparr>move_disabled := (\<lambda>sd. \<not> any_selected (case sd of From \<Rightarrow> from | To \<Rightarrow> to)),
                  all_disabled := (\<lambda>sd. (case sd of From \<Rightarrow> from | To \<Rightarrow> to) = [])\<rparr>) }"

definition with_filtered :: string where
  "with_filtered = ''selector-chosen--with-filtered''"

definition refresh_filtered_warning :: "string \<Rightarrow> widget \<Rightarrow> widget" where
  "refresh_filtered_warning fid w =
     (let count = get_hidden_node_count (box_id fid To) (wboxes w);
          cl = replace_first (chosen_class w) with_filtered []
      in w\<lparr>footer_args := Some (''%s selected option not visible'',
                                ''%s selected options not visible'', count),
            chosen_class := (if count > 0 then cl @ '' '' @ with_filtered else cl)\<rparr>)"

definition lift_boxes :: "(boxes \<Rightarrow> boxes option) \<Rightarrow> widget \<Rightarrow> widget option" where
  "lift_boxes f w = map_option (\<lambda>s. w\<lparr>wboxes := s\<rparr>) (f (wboxes w))"

definition refresh_filtered_selects :: "string \<Rightarrow> widget \<Rightarrow> widget option" where
  "refresh_filtered_selects fid w =
     do { w \<leftarrow> lift_boxes (filter_box (box_id fid From) (search w From)) w;
          lift_boxes (filter_box (box_id fid To) (search w To)) w }"

subsection \<open>Handlers\<close>

definition move_selection ::
  "string \<Rightarrow> bool \<Rightarrow> (string \<Rightarrow> string \<Rightarrow> boxes \<Rightarrow> boxes option) \<Rightarrow> side \<Rightarrow> widget \<Rightarrow> widget option"
  where
  "move_selection fid disabled move_func sd w =
     (if disabled then Some w
      else do { w \<leftarrow> lift_boxes (move_func (box_id fid sd) (box_id fid (opposite sd))) w;
                w \<leftarrow> refresh_icons fid w;
                w \<leftarrow> refresh_filtered_selects fid w;
                Some (refresh_filtered_warning fid w) })"

definition clear_search :: "string \<Rightarrow> widget \<Rightarrow> widget option" where
  "clear_search fid w =
     do { w \<leftarrow> Some (w\<lparr>search := (search w)(To := [])\<rparr>);
          w \<leftarrow> lift_boxes (filter_box (box_id fid To) []) w;
          w \<leftarrow> Some (refresh_filtered_warning fid w);
          refresh_icons fid w }"

definition filter_key_press :: "key_event \<Rightarrow> string \<Rightarrow> side \<Rightarrow> widget \<Rightarrow> widget option" where
  "filter_key_press e fid source w =
     (if key_is e 13
      then do { w \<leftarrow> lift_boxes (set_selectedIndex (box_id fid source) 0) w;
                w \<leftarrow> lift_boxes (move (box_id fid source) (box_id fid (opposite source))) w;
                lift_boxes (set_selectedIndex (box_id fid source) 0) w }
      else Some w)"

definition filter_key_up :: "string \<Rightarrow> side \<Rightarrow> widget \<Rightarrow> widget option" where
  "filter_key_up fid source w =
     do { temp \<leftarrow> selectedIndex (box_id fid source) (wboxes w);
          w \<leftarrow> lift_boxes (filter_box (box_id fid source) (search w source)) w;
          w \<leftarrow> lift_boxes (set_selectedIndex (box_id fid source) temp) w;
          refresh_icons fid (refresh_filtered_warning fid w) }"

text \<open>The new index after the arrow keys down and up.\<close>

definition index_down :: "int \<Rightarrow> int \<Rightarrow> int" where
  "index_down len i = (if len = i + 1 then 0 else i + 1)"

definition index_up :: "int \<Rightarrow> int \<Rightarrow> int" where
  "index_up len i = (if i = 0 then len - 1 else i - 1)"

definition step_index ::
  "(int \<Rightarrow> int \<Rightarrow> int) \<Rightarrow> string \<Rightarrow> side \<Rightarrow> widget \<Rightarrow> widget option" where
  "step_index f fid source w =
     do { len \<leftarrow> box_length (box_id fid source) (wboxes w);
          i \<leftarrow> selectedIndex (box_id fid source) (wboxes w);
          lift_boxes (set_selectedIndex (box_id fid source) (f len i)) w }"

definition filter_key_down :: "key_event \<Rightarrow> string \<Rightarrow> side \<Rightarrow> widget \<Rightarrow> widget option" where
  "filter_key_down e fid source w =
     (let direction = (if source = From then 39 else 37) in
      if key_is e direction
      then do { old_index \<leftarrow> selectedIndex (box_id fid source) (wboxes w);
                w \<leftarrow> lift_boxes (move (box_id fid source) (box_id fid (opposite source))) w;
                w \<leftarrow> refresh_filtered_selects fid w;
                w \<leftarrow> Some (refresh_filtered_warning fid w);
                len \<leftarrow> box_length (box_id fid source) (wboxes w);
                lift_boxes (set_selectedIndex (box_id fid source)
                  (if old_index = len then len - 1 else old_index)) w }
      else do { w \<leftarrow> (if key_is e 40 then step_index index_down fid source w else Some w);
                (if key_is e 38 then step_index index_up fid source w else Some w) })"

definition double_click :: "string \<Rightarrow> side \<Rightarrow> widget \<Rightarrow> widget option" where
  "double_click fid sd w =
     do { w \<leftarrow> (if sd = To
                 then lift_boxes (move (box_id fid To) (box_id fid From)) w
                 else lift_boxes (move (box_id fid From) (box_id fid To)) w);
          refresh_icons fid w }"

definition form_submit :: "string \<Rightarrow> widget \<Rightarrow> widget option" where
  "form_submit fid w =
     do { w \<leftarrow> lift_boxes (filter_box (box_id fid To) []) w;
          lift_boxes (select_all (box_id fid To)) w }"

text \<open>
  The last lines of \<open>init\<close>, on the boxes the page was built with: \<open>ps\<close> the options of the
  original select, the chosen box empty.
\<close>

definition init_widget :: "string \<Rightarrow> opt list \<Rightarrow> widget option" where
  "init_widget fid ps =
     do { w \<leftarrow> Some \<lparr>wboxes = \<lparr>cache = Map.empty,
                                dom = [box_id fid From \<mapsto> ps, box_id fid To \<mapsto> []]\<rparr>,
                     search = (\<lambda>_. []), move_disabled = (\<lambda>_. False), all_disabled = (\<lambda>_. False),
                     chosen_class = ''selector-chosen'', footer_args = None\<rparr>;
          w \<leftarrow> lift_boxes (init (box_id fid From)) w;
          w \<leftarrow> lift_boxes (init (box_id fid To)) w;
          w \<leftarrow> lift_boxes (move (box_id fid From) (box_id fid To)) w;
          refresh_icons fid w }"

text \<open>
  The events: the user types into a search input (\<open>Input\<close>) or changes which options of a box
  are selected (\<open>Select\<close>, after which the browser fires \<open>change\<close>); the rest are the handlers'.
\<close>

datatype event =
    ClickMove side
  | ClickAll side
  | ClickFooter
  | KeyPress key_event side
  | KeyUp side
  | KeyDown key_event side
  | DblClick side
  | Submit
  | Input side string
  | Select side "int list"

fun handle :: "string \<Rightarrow> event \<Rightarrow> widget \<Rightarrow> widget option" where
  "handle fid (ClickMove sd) w = move_selection fid (move_disabled w sd) move sd w"
| "handle fid (ClickAll sd) w = move_selection fid (all_disabled w sd) move_all sd w"
| "handle fid ClickFooter w = clear_search fid w"
| "handle fid (KeyPress e sd) w = filter_key_press e fid sd w"
| "handle fid (KeyUp sd) w = filter_key_up fid sd w"
| "handle fid (KeyDown e sd) w = filter_key_down e fid sd w"
| "handle fid (DblClick sd) w = double_click fid sd w"
| "handle fid Submit w = form_submit fid w"
| "handle fid (Input sd q) w = Some (w\<lparr>search := (search w)(sd := q)\<rparr>)"
| "handle fid (Select sd is) w =
     do { w \<leftarrow> lift_boxes (on_box (box_id fid sd) (reselect (\<lambda>i. i \<in> set is))) w;
          refresh_icons fid w }"

subsection \<open>No handler throws, loses or duplicates a choice\<close>

definition winv :: "string \<Rightarrow> widget \<Rightarrow> bool" where
  "winv fid w = pair_inv (box_id fid From) (box_id fid To) (wboxes w)"

text \<open>The choices of the two panes, and those of the chosen pane, as value and text.\<close>

definition all_choices :: "string \<Rightarrow> widget \<Rightarrow> (string \<times> string) multiset" where
  "all_choices fid w = pair_choices (box_id fid From) (box_id fid To) (wboxes w)"

definition chosen :: "string \<Rightarrow> widget \<Rightarrow> (string \<times> string) list" where
  "chosen fid w = map choice (nodes_of (box_id fid To) (wboxes w))"

definition keeps :: "string \<Rightarrow> widget \<Rightarrow> widget option \<Rightarrow> bool" where
  "keeps fid w r = (\<exists>w'. r = Some w' \<and> winv fid w' \<and> all_choices fid w' = all_choices fid w)"

named_theorems keeps_rules "each action keeps the widget's invariant and its choices"

lemma box_id_neq [simp]: "box_id fid From \<noteq> box_id fid To" "box_id fid To \<noteq> box_id fid From"
  by (simp_all add: box_id_def)

lemma opposite_simps [simp]: "opposite From = To" "opposite To = From"
  by (simp_all add: opposite_def)

lemma winv_data [simp]:
  "winv fid (w\<lparr>search := q\<rparr>) = winv fid w" "winv fid (w\<lparr>move_disabled := m\<rparr>) = winv fid w"
  "winv fid (w\<lparr>all_disabled := m\<rparr>) = winv fid w" "winv fid (w\<lparr>footer_args := a\<rparr>) = winv fid w"
  "winv fid (w\<lparr>chosen_class := c\<rparr>) = winv fid w"
  by (simp_all add: winv_def)

lemma all_choices_data [simp]:
  "all_choices fid (w\<lparr>search := q\<rparr>) = all_choices fid w"
  "all_choices fid (w\<lparr>move_disabled := m\<rparr>) = all_choices fid w"
  "all_choices fid (w\<lparr>all_disabled := m\<rparr>) = all_choices fid w"
  "all_choices fid (w\<lparr>footer_args := a\<rparr>) = all_choices fid w"
  "all_choices fid (w\<lparr>chosen_class := c\<rparr>) = all_choices fid w"
  by (simp_all add: all_choices_def)

lemma keeps_Some [keeps_rules]:
  "winv fid w' \<Longrightarrow> all_choices fid w' = all_choices fid w \<Longrightarrow> keeps fid w (Some w')"
  by (simp add: keeps_def)

lemma keeps_bind:
  assumes "keeps fid w r" and "\<And>w'. winv fid w' \<Longrightarrow> keeps fid w' (f w')"
  shows "keeps fid w (Option.bind r f)"
  using assms unfolding keeps_def by fastforce

lemma keeps_lift:
  assumes "\<exists>s'. f (wboxes w) = Some s' \<and> pair_inv (box_id fid From) (box_id fid To) s'
    \<and> pair_choices (box_id fid From) (box_id fid To) s' = all_choices fid w"
  shows "keeps fid w (lift_boxes f w)"
  using assms by (auto simp: keeps_def lift_boxes_def winv_def all_choices_def)

lemma winv_boxes: "winv fid w \<Longrightarrow> \<exists>ps. dom (wboxes w) (box_id fid sd) = Some ps"
  by (cases sd) (auto simp: winv_def pair_inv_iff)

lemma keeps_filter [keeps_rules]:
  assumes "winv fid w"
  shows "keeps fid w (lift_boxes (filter_box (box_id fid sd) q) w)"
proof (rule keeps_lift)
  note inv = assms [unfolded winv_def]
  show "\<exists>s'. filter_box (box_id fid sd) q (wboxes w) = Some s'
      \<and> pair_inv (box_id fid From) (box_id fid To) s'
      \<and> pair_choices (box_id fid From) (box_id fid To) s' = all_choices fid w"
    unfolding all_choices_def
    using filter_box_pair [OF inv, of q] filter_box_back [OF inv, of q] by (cases sd) blast+
qed

lemma keeps_on_box [keeps_rules]:
  assumes "winv fid w" and "\<And>ps. map ochoice (f ps) = map ochoice ps"
  shows "keeps fid w (lift_boxes (on_box (box_id fid sd) f) w)"
proof (rule keeps_lift)
  note inv = assms(1) [unfolded winv_def]
  show "\<exists>s'. on_box (box_id fid sd) f (wboxes w) = Some s'
      \<and> pair_inv (box_id fid From) (box_id fid To) s'
      \<and> pair_choices (box_id fid From) (box_id fid To) s' = all_choices fid w"
    unfolding all_choices_def
    using on_box_pair [OF inv, of f] on_box_back [OF inv, of f] assms(2) by (cases sd) blast+
qed

lemma reselect_choices [simp]: "map ochoice (reselect P ps) = map ochoice ps"
proof -
  have "map ochoice (map (\<lambda>(i, p). p\<lparr>selected := P (int i)\<rparr>) (enumerate n ps)) = map ochoice ps" for n
    by (induction ps arbitrary: n) auto
  then show ?thesis by (simp only: reselect_def)
qed

lemma keeps_icons [keeps_rules]: "winv fid w \<Longrightarrow> keeps fid w (refresh_icons fid w)"
  using winv_boxes [of fid w From] winv_boxes [of fid w To]
  by (auto simp: refresh_icons_def keeps_def)

lemma keeps_warning [simp]:
  "winv fid (refresh_filtered_warning fid w) = winv fid w"
  "all_choices fid (refresh_filtered_warning fid w) = all_choices fid w"
  "wboxes (refresh_filtered_warning fid w) = wboxes w"
  "search (refresh_filtered_warning fid w) = search w"
  by (simp_all add: refresh_filtered_warning_def Let_def)

lemma keeps_selects [keeps_rules]:
  "winv fid w \<Longrightarrow> keeps fid w (refresh_filtered_selects fid w)"
  unfolding refresh_filtered_selects_def by (intro keeps_bind keeps_rules)

text \<open>A client of the contract of a move: any move that meets it may be given to a button.\<close>

context mover
begin

lemma keeps_mv:
  assumes "winv fid w"
  shows "keeps fid w (lift_boxes (mv (box_id fid sd) (box_id fid (opposite sd))) w)"
proof (rule keeps_lift)
  note inv = assms [unfolded winv_def]
  show "\<exists>s'. mv (box_id fid sd) (box_id fid (opposite sd)) (wboxes w) = Some s'
      \<and> pair_inv (box_id fid From) (box_id fid To) s'
      \<and> pair_choices (box_id fid From) (box_id fid To) s' = all_choices fid w"
    unfolding all_choices_def
    using mv_pair [OF inv] mv_back [OF inv] by (cases sd) (simp_all only: opposite_simps)
qed

lemma keeps_move_selection:
  "winv fid w \<Longrightarrow> keeps fid w (move_selection fid disabled mv sd w)"
  unfolding move_selection_def
  by (cases disabled) (auto intro!: keeps_bind keeps_mv keeps_icons keeps_selects keeps_Some)

end

lemmas keeps_moves [keeps_rules] =
  mv_sel.keeps_mv mv_sel.keeps_mv [where sd = From, simplified]
  mv_sel.keeps_mv [where sd = To, simplified]

lemma keeps_index [keeps_rules]:
  "winv fid w \<Longrightarrow> keeps fid w (lift_boxes (set_selectedIndex (box_id fid sd) i) w)"
  unfolding set_selectedIndex_def by (rule keeps_on_box) simp_all

lemma selectedIndex_ok:
  "winv fid w \<Longrightarrow> \<exists>i. selectedIndex (box_id fid sd) (wboxes w) = Some i"
  "winv fid w \<Longrightarrow> \<exists>n. box_length (box_id fid sd) (wboxes w) = Some n"
  using winv_boxes [of fid w sd] by (auto simp: selectedIndex_def box_length_def)

lemma keeps_index_bind:
  assumes "winv fid w" and "\<And>i. keeps fid w (f i)"
  shows "keeps fid w (Option.bind (selectedIndex (box_id fid sd) (wboxes w)) f)"
    and "keeps fid w (Option.bind (box_length (box_id fid sd) (wboxes w)) f)"
  using selectedIndex_ok [OF assms(1), of sd] assms(2) by auto

lemma keeps_step_index [keeps_rules]: "winv fid w \<Longrightarrow> keeps fid w (step_index f fid sd w)"
  unfolding step_index_def by (intro keeps_index_bind keeps_rules)

lemma keeps_same [simp]:
  "keeps fid (refresh_filtered_warning fid w) r = keeps fid w r"
  "keeps fid (w\<lparr>search := q\<rparr>) r = keeps fid w r"
  by (simp_all add: keeps_def)

lemma keeps_warned:
  "(\<And>w. winv fid w \<Longrightarrow> keeps fid w (f w)) \<Longrightarrow> winv fid w \<Longrightarrow>
     keeps fid w (f (refresh_filtered_warning fid w))"
  by (metis keeps_same(1) keeps_warning(1))

lemma keeps_press: "winv fid w \<Longrightarrow> keeps fid w (filter_key_press e fid sd w)"
  unfolding filter_key_press_def
  by (simp add: keeps_Some keeps_bind keeps_index keeps_moves(1))

lemma keeps_up: "winv fid w \<Longrightarrow> keeps fid w (filter_key_up fid sd w)"
  unfolding filter_key_up_def
  by (intro keeps_bind keeps_index_bind keeps_filter keeps_index
      keeps_warned [where f = "refresh_icons fid"] keeps_icons)

lemma keeps_down:
  assumes "winv fid w"
  shows "keeps fid w (filter_key_down e fid sd w)"
proof (cases "key_is e (if sd = From then 39 else 37)")
  case True
  show ?thesis
    unfolding filter_key_down_def Let_def if_P [OF True]
    by (intro keeps_bind keeps_index_bind keeps_moves(1) keeps_selects keeps_index keeps_Some)
      (simp_all add: assms)
next
  case False
  show ?thesis
    unfolding filter_key_down_def Let_def if_not_P [OF False]
    by (intro keeps_bind) (simp_all add: assms keeps_step_index keeps_Some)
qed

lemma keeps_clear: "winv fid w \<Longrightarrow> keeps fid w (clear_search fid w)"
  unfolding clear_search_def
  by (intro keeps_bind keeps_filter keeps_icons keeps_Some) simp_all

lemma keeps_double: "winv fid w \<Longrightarrow> keeps fid w (double_click fid sd w)"
  unfolding double_click_def by (cases sd) (auto intro!: keeps_bind keeps_moves keeps_icons)

lemma keeps_submit: "winv fid w \<Longrightarrow> keeps fid w (form_submit fid w)"
  unfolding form_submit_def select_all_on_box
  by (intro keeps_bind keeps_filter keeps_on_box) (simp_all add: comp_def)

lemma keeps_handle: "winv fid w \<Longrightarrow> keeps fid w (handle fid e w)"
  by (cases e) (simp_all add: keeps_press keeps_up keeps_down keeps_clear keeps_double keeps_submit
      mv_sel.keeps_move_selection mv_all.keeps_move_selection keeps_Some keeps_bind keeps_on_box
      keeps_icons)

interpretation selector: conserving_machine "handle fid" "winv fid" "all_choices fid" for fid
  by unfold_locales (use keeps_handle in \<open>auto simp: keeps_def\<close>)

subsection \<open>From the page's select to any later state\<close>

text \<open>The widget after a list of events, from the options the page came with.\<close>

definition after :: "string \<Rightarrow> opt list \<Rightarrow> event list \<Rightarrow> widget option" where
  "after fid ps es = Option.bind (init_widget fid ps) (run_events (handle fid) es)"

lemma init_keeps:
  assumes "distinct (map ovalue ps)"
  shows "\<exists>w. init_widget fid ps = Some w \<and> winv fid w \<and> all_choices fid w = mset (map ochoice ps)"
proof -
  let ?a = "box_id fid From" and ?b = "box_id fid To"
  define s where "s = \<lparr>cache = [?a \<mapsto> map node_of ps, ?b \<mapsto> []], dom = [?a \<mapsto> ps, ?b \<mapsto> []]\<rparr>"
  define w where "w = \<lparr>wboxes = s, search = (\<lambda>_. []), move_disabled = (\<lambda>_. False),
    all_disabled = (\<lambda>_. False), chosen_class = ''selector-chosen'', footer_args = None\<rparr>"
  have "map nvalue (map node_of ps) = map ovalue ps" by simp
  with assms have "pair_inv ?a ?b s"
    by (simp add: pair_inv_def s_def in_sync_def comp_def)
  then have w: "winv fid w" by (simp add: winv_def w_def)
  have c: "all_choices fid w = mset (map ochoice ps)"
    by (simp add: all_choices_def w_def s_def pair_choices_def nodes_of_def comp_def)
  have i: "init_widget fid ps =
      do { w \<leftarrow> lift_boxes (move ?a ?b) w; refresh_icons fid w }"
    by (simp add: init_widget_def lift_boxes_def init_def w_def s_def)
  have "keeps fid w (init_widget fid ps)"
    unfolding i by (intro keeps_bind keeps_moves(2) keeps_icons w)
  with c show ?thesis by (auto simp: keeps_def)
qed

lemma after_ok:
  assumes "distinct (map ovalue ps)"
  shows "\<exists>w. after fid ps es = Some w \<and> winv fid w \<and> all_choices fid w = mset (map ochoice ps)"
proof -
  from init_keeps [OF assms] obtain w where
    w: "init_widget fid ps = Some w" "winv fid w" "all_choices fid w = mset (map ochoice ps)" by blast
  with selector.run_ok [OF w(2), of es] show ?thesis by (auto simp: after_def)
qed

text \<open>
  C2: no choice is lost.  Whatever the user clicks, types, presses and selects, no handler of the
  two-pane selector throws, each pane shows exactly the displayed nodes of its cache, no value is
  in a pane twice or in both, and the two panes together hold exactly the choices the page's
  select was built with.
\<close>

theorem selector_conserves:
  assumes "distinct (map ovalue ps)"
  shows "\<exists>w. after fid ps es = Some w \<and> winv fid w
    \<and> all_choices fid w = mset (map ochoice ps)"
  using assms by (rule after_ok)

theorem selector_conserves_witness:
  "\<exists>w. after ''f'' sample_options [ClickAll From, Input To ''tw'', KeyUp To, ClickMove To] = Some w
    \<and> winv ''f'' w \<and> all_choices ''f'' w = {#(''1'', ''One''), (''2'', ''Two'')#}"
proof -
  have d: "distinct (map ovalue sample_options)" by (simp add: sample_options_def)
  from selector_conserves [OF d] show ?thesis by (simp add: sample_options_def)
qed

text \<open>What the browser submits for the chosen box: the values of its selected options.\<close>

definition submitted :: "string \<Rightarrow> widget \<Rightarrow> string list" where
  "submitted fid w = map ovalue (filter selected (options_of (box_id fid To) (wboxes w)))"

lemma shown_filter_Nil [simp]: "shown_options (filter_nodes [] ns) = map option_of (filter_nodes [] ns)"
proof -
  have "list_all displayed (filter_nodes [] ns)"
    using displayed_filter_nodes [of "[]" ns] by (auto simp: list_all_iff map_eq_conv
        filter_nodes_def Let_def split_ws.simps)
  then have "filter displayed (filter_nodes [] ns) = filter_nodes [] ns"
    by (simp add: list_all_iff)
  then show ?thesis by (simp add: shown_options_def)
qed

lemma submit_values:
  assumes "winv fid w"
  shows "\<exists>w'. handle fid Submit w = Some w' \<and> submitted fid w' = map fst (chosen fid w)"
proof -
  let ?a = "box_id fid From" and ?b = "box_id fid To"
  note inv = assms [unfolded winv_def]
  from filter_box_back [OF inv, of "[]"] obtain s1 where
    s1: "filter_box ?b [] (wboxes w) = Some s1" "pair_inv ?a ?b s1"
      "options_of ?b s1 = map option_of (filter_nodes [] (nodes_of ?b (wboxes w)))"
    by auto
  let ?sel = "map (\<lambda>p. p\<lparr>selected := True\<rparr>)"
  from on_box_back [OF s1(2), of ?sel] obtain s2 where
    s2: "on_box ?b ?sel s1 = Some s2" "options_of ?b s2 = ?sel (options_of ?b s1)"
    by (auto simp: comp_def)
  have "handle fid Submit w = Some (w\<lparr>wboxes := s2\<rparr>)"
    by (simp add: form_submit_def select_all_on_box lift_boxes_def s1(1) s2(1))
  moreover have "submitted fid (w\<lparr>wboxes := s2\<rparr>) = map nvalue (filter_nodes [] (nodes_of ?b (wboxes w)))"
    by (simp add: submitted_def s2(2) s1(3) comp_def filter_map)
  ultimately show ?thesis by (simp add: chosen_def comp_def)
qed

text \<open>
  C10: the form sends what was chosen.  After any sequence of events, submitting the form sends
  exactly the values of the chosen pane's cache, in its order, whether or not a search hides them
  and whichever options were highlighted.
\<close>

theorem submit_sends_chosen:
  assumes "distinct (map ovalue ps)"
  shows "\<exists>w w'. after fid ps es = Some w \<and> handle fid Submit w = Some w'
    \<and> submitted fid w' = map fst (chosen fid w)"
  using after_ok [OF assms, of fid es] submit_values by blast

theorem submit_sends_chosen_witness:
  "\<exists>w w'. after ''f'' sample_options [ClickAll From, Input To ''tw'', KeyUp To] = Some w
    \<and> handle ''f'' Submit w = Some w' \<and> submitted ''f'' w' = map fst (chosen ''f'' w)"
  by (rule submit_sends_chosen) (simp add: sample_options_def)

subsection \<open>What the panes show after a click\<close>

definition shown_choices :: "string \<Rightarrow> side \<Rightarrow> widget \<Rightarrow> (string \<times> string) list" where
  "shown_choices fid sd w = map ochoice (options_of (box_id fid sd) (wboxes w))"

definition side_choices :: "string \<Rightarrow> side \<Rightarrow> widget \<Rightarrow> (string \<times> string) list" where
  "side_choices fid sd w = map choice (nodes_of (box_id fid sd) (wboxes w))"

text \<open>Both panes show just the choices that match their search, and the footer counts the
  chosen ones that are hidden.\<close>

definition searched :: "string \<Rightarrow> widget \<Rightarrow> bool" where
  "searched fid w =
     (list_all (\<lambda>sd. shown_choices fid sd w
          = filter (matches (search w sd)) (side_choices fid sd w)) [From, To]
      \<and> map_option (\<lambda>(_, _, n). n) (footer_args w)
          = Some (length (filter (\<lambda>c. \<not> matches (search w To) c) (side_choices fid To w))))"

lemma choices_filtered:
  "length (filter (\<lambda>n. P (choice n)) (filter_nodes q ns)) = length (filter (\<lambda>n. P (choice n)) ns)"
  using choices_filter_nodes [of q ns] length_map [of choice] filter_map [of P choice]
  by (metis (no_types, lifting) comp_apply filter_cong)

lemma hidden_count:
  "length (filter (\<lambda>n. \<not> displayed n) (filter_nodes q ns)) =
     length (filter (\<lambda>c. \<not> matches q c) (map choice ns))"
  by (induction ns) (simp_all add: filter_nodes_def Let_def matches_def list_all_iff)

lemma selects_shown:
  assumes "winv fid w"
  shows "\<exists>w'. refresh_filtered_selects fid w = Some w'
    \<and> searched fid (refresh_filtered_warning fid w')"
proof -
  let ?a = "box_id fid From" and ?b = "box_id fid To"
  from filter_box_pair [OF assms [unfolded winv_def], of "search w From"] obtain s1 where
    s1: "filter_box ?a (search w From) (wboxes w) = Some s1" "pair_inv ?a ?b s1"
      "nodes_of ?a s1 = filter_nodes (search w From) (nodes_of ?a (wboxes w))"
      "options_of ?a s1 = shown_options (nodes_of ?a s1)" by blast
  from filter_box_back [OF s1(2), of "search w To"] obtain s2 where
    s2: "filter_box ?b (search w To) s1 = Some s2" "pair_inv ?a ?b s2"
      "nodes_of ?b s2 = filter_nodes (search w To) (nodes_of ?b s1)"
      "nodes_of ?a s2 = nodes_of ?a s1" "options_of ?b s2 = shown_options (nodes_of ?b s2)"
      "options_of ?a s2 = options_of ?a s1" by blast
  have "refresh_filtered_selects fid w = Some (w\<lparr>wboxes := s2\<rparr>)"
    by (simp add: refresh_filtered_selects_def lift_boxes_def s1(1) s2(1))
  moreover have "get_hidden_node_count ?b s2 = length (filter (\<lambda>n. \<not> displayed n) (nodes_of ?b s2))"
    by (simp add: get_hidden_node_count_def nodes_of_def)
  ultimately show ?thesis
    using choices_filtered [of "\<lambda>c. \<not> matches (search w To) c" "search w To" "nodes_of ?b s1"]
    by (simp add: comp_def searched_def shown_choices_def side_choices_def s1(3,4) s2(3-6)
        shown_filter_nodes hidden_count refresh_filtered_warning_def Let_def)
qed

text \<open>Again for any move: the panes of a client of the contract are searched after the click.\<close>

context mover
begin

lemma click_searched:
  assumes "winv fid w"
  shows "\<exists>w'. move_selection fid False mv sd w = Some w' \<and> searched fid w'"
proof -
  from keeps_mv [OF assms, of sd] obtain w1 where
    w1: "lift_boxes (mv (box_id fid sd) (box_id fid (opposite sd))) w = Some w1" "winv fid w1"
    by (auto simp: keeps_def)
  from keeps_icons [OF w1(2)] obtain w2 where w2: "refresh_icons fid w1 = Some w2" "winv fid w2"
    by (auto simp: keeps_def)
  from selects_shown [OF w2(2)] show ?thesis by (auto simp: move_selection_def w1(1) w2(1))
qed

end

text \<open>
  A click keeps the searches.  After a click on any of the four buttons that is not disabled,
  each pane shows exactly the choices of its cache that contain every word of its search text (in
  any case), in the cache's order, and the footer counts the chosen ones that are hidden.
\<close>

theorem click_keeps_searches:
  assumes "winv fid w" and "e \<in> {ClickMove sd, ClickAll sd}"
    and "\<not> (case e of ClickMove _ \<Rightarrow> move_disabled w sd | _ \<Rightarrow> all_disabled w sd)"
  shows "\<exists>w'. handle fid e w = Some w' \<and> searched fid w'"
  using assms mv_sel.click_searched [OF assms(1), of sd] mv_all.click_searched [OF assms(1), of sd]
  by auto

lemma sample_init:
  "\<exists>w. init_widget ''f'' sample_options = Some w \<and> winv ''f'' w \<and> \<not> all_disabled w To"
proof -
  from init_keeps [of sample_options "''f''"] obtain w where
    w: "init_widget ''f'' sample_options = Some w" "winv ''f'' w"
    by (auto simp: sample_options_def)
  have "map_option (\<lambda>w. all_disabled w To) (init_widget ''f'' sample_options) = Some False"
    by code_simp
  with w show ?thesis by auto
qed

theorem click_keeps_searches_witness:
  "\<exists>w w'. init_widget ''f'' sample_options = Some w \<and> handle ''f'' (ClickAll To) w = Some w'
    \<and> searched ''f'' w'"
proof -
  from sample_init obtain w where w: "init_widget ''f'' sample_options = Some w" "winv ''f'' w"
    "\<not> all_disabled w To" by blast
  from click_keeps_searches [OF w(2), of "ClickAll To" To] w(1,3) show ?thesis by auto
qed

subsection \<open>The arrow keys\<close>

lemma first_selected_reselect:
  "first_selected (map (\<lambda>(i, p). p\<lparr>selected := int i = k\<rparr>) (enumerate n ps)) (int n) =
     (if int n \<le> k \<and> k < int n + int (length ps) then k else -1)"
proof (induction ps arbitrary: n)
  case (Cons p ps)
  from Cons [of "Suc n"] show ?case by (auto simp: add.commute)
qed simp

lemma first_selected_index [simp]:
  "first_selected (reselect (\<lambda>j. j = k) ps) 0 = (if 0 \<le> k \<and> k < int (length ps) then k else -1)"
  using first_selected_reselect [of k 0 ps] by (simp add: reselect_def)

lemma length_reselect [simp]: "length (reselect P ps) = length ps"
  by (simp add: reselect_def)

lemma index_down_mod: "0 \<le> i \<Longrightarrow> i < n \<Longrightarrow> index_down n i = (i + 1) mod n"
  by (auto simp: index_down_def)

lemma index_up_mod: "0 \<le> i \<Longrightarrow> i < n \<Longrightarrow> index_up n i = (i - 1) mod n"
  by (auto simp: index_up_def zmod_minus1)

lemma step_index_eq:
  assumes "winv fid w" and "selectedIndex (box_id fid sd) (wboxes w) = Some i"
    and "box_length (box_id fid sd) (wboxes w) = Some n" and "0 \<le> f n i \<and> f n i < n"
  shows "\<exists>w'. step_index f fid sd w = Some w' \<and> winv fid w'
    \<and> selectedIndex (box_id fid sd) (wboxes w') = Some (f n i)
    \<and> box_length (box_id fid sd) (wboxes w') = Some n"
proof -
  obtain ps where ps: "dom (wboxes w) (box_id fid sd) = Some ps"
    using winv_boxes [OF assms(1)] by blast
  with assms(3) have n: "n = int (length ps)" by (simp add: box_length_def)
  let ?s = "(wboxes w)\<lparr>dom := (dom (wboxes w))(box_id fid sd \<mapsto> reselect (\<lambda>j. j = f n i) ps)\<rparr>"
  have r: "step_index f fid sd w = Some (w\<lparr>wboxes := ?s\<rparr>)"
    using assms(2,3) ps by (simp add: step_index_def lift_boxes_def set_selectedIndex_def on_box_def)
  moreover have "winv fid (w\<lparr>wboxes := ?s\<rparr>)"
    using keeps_step_index [OF assms(1), of f sd] r by (simp add: keeps_def)
  ultimately show ?thesis
    using assms(4) n by (auto simp: selectedIndex_def box_length_def)
qed

abbreviation key :: "int \<Rightarrow> key_event" where
  "key k \<equiv> \<lparr>which = k, keyCode = k\<rparr>"

text \<open>
  The arrow keys walk around the list.  With the \<open>i\<close>-th of \<open>n\<close> options selected, the down key
  selects option \<open>(i + 1) mod n\<close> alone, and the up key then selects the \<open>i\<close>-th again.
\<close>

theorem arrow_keys_wrap:
  assumes "winv fid w" and "selectedIndex (box_id fid sd) (wboxes w) = Some i"
    and "box_length (box_id fid sd) (wboxes w) = Some n" and "0 \<le> i" and "i < n"
  shows "\<exists>w1 w2. handle fid (KeyDown (key 40) sd) w = Some w1
    \<and> selectedIndex (box_id fid sd) (wboxes w1) = Some ((i + 1) mod n)
    \<and> handle fid (KeyDown (key 38) sd) w1 = Some w2
    \<and> selectedIndex (box_id fid sd) (wboxes w2) = Some i"
proof -
  have d: "index_down n i = (i + 1) mod n" using assms(4,5) by (rule index_down_mod)
  have b: "0 \<le> (i + 1) mod n \<and> (i + 1) mod n < n" using assms(4,5) by simp
  from step_index_eq [OF assms(1-3), of index_down] d b obtain w1 where
    w1: "step_index index_down fid sd w = Some w1" "winv fid w1"
      "selectedIndex (box_id fid sd) (wboxes w1) = Some ((i + 1) mod n)"
      "box_length (box_id fid sd) (wboxes w1) = Some n" by auto
  have u: "index_up n ((i + 1) mod n) = i"
    using b assms(4,5) by (simp add: index_up_mod mod_simps)
  from step_index_eq [OF w1(2-4), of index_up] u assms(4,5) obtain w2 where
    w2: "step_index index_up fid sd w1 = Some w2"
      "selectedIndex (box_id fid sd) (wboxes w2) = Some i" by auto
  have "handle fid (KeyDown (key 40) sd) w = Some w1" "handle fid (KeyDown (key 38) sd) w1 = Some w2"
    using w1(1) w2(1) by (simp_all add: filter_key_down_def key_is_def)
  with w1(3) w2(2) show ?thesis by blast
qed

theorem arrow_keys_wrap_witness:
  "\<exists>w w1 w2. after ''f'' sample_options [ClickAll To, Select From [1]] = Some w
    \<and> handle ''f'' (KeyDown (key 40) From) w = Some w1
    \<and> selectedIndex (box_id ''f'' From) (wboxes w1) = Some 0
    \<and> handle ''f'' (KeyDown (key 38) From) w1 = Some w2
    \<and> selectedIndex (box_id ''f'' From) (wboxes w2) = Some 1"
proof -
  have d: "distinct (map ovalue sample_options)" by (simp add: sample_options_def)
  from after_ok [OF d, of "''f''" "[ClickAll To, Select From [1]]"] obtain w where
    w: "after ''f'' sample_options [ClickAll To, Select From [1]] = Some w" "winv ''f'' w" by blast
  have "Option.bind (after ''f'' sample_options [ClickAll To, Select From [1]])
      (\<lambda>w. selectedIndex (box_id ''f'' From) (wboxes w)) = Some 1"
    and "Option.bind (after ''f'' sample_options [ClickAll To, Select From [1]])
      (\<lambda>w. box_length (box_id ''f'' From) (wboxes w)) = Some 2"
    by code_simp+
  with w have "selectedIndex (box_id ''f'' From) (wboxes w) = Some 1"
    "box_length (box_id ''f'' From) (wboxes w) = Some 2" by simp_all
  from arrow_keys_wrap [OF w(2) this] w(1) show ?thesis by simp
qed

text \<open>
  The order of the refreshes: the buttons are set from the boxes before the searches are applied
  again, so a button stays enabled over a pane that the search then empties.
\<close>

lemma button_stale:
  "map_option (\<lambda>w. (all_disabled w To, options_of (box_id ''f'' To) (wboxes w)))
     (after ''f'' sample_options [ClickAll To, Input To ''zz'', ClickAll From]) = Some (False, [])"
  by code_simp

end
