(* ===== verification/SelectorBuild.thy ===== *)
theory SelectorBuild
  imports Dom AdminCore SelectFilter
begin

text \<open>
  The construction of the two-pane selector, \<open>SelectFilter.init\<close> of
  \<open>koded-cli/web/backend/staticfiles/admin/js/SelectFilter2.js\<close>, on the page as a tree of elements.
  \<open>gettext\<close> and \<open>interpolate\<close> are parameters.  A throw (\<open>None\<close>) says nothing of what is left of the
  page.  The listeners it installs are the handlers of \<open>SelectFilter\<close>.
\<close>

subsection \<open>The paragraphs beside the box\<close>

text \<open>
  The paragraphs of the parent are a live collection that is read by an index, so what is removed or
  moved shifts the ones behind it.  Besides the parent's element the index of the box among its
  children is kept.  Removing a paragraph that is no child of the parent throws.
\<close>

definition move_first :: "nat list \<Rightarrow> JsView.node \<Rightarrow> JsView.node" where
  "move_first p n =
     (case node_at p n of None \<Rightarrow> n | Some c \<Rightarrow> prepend c (remove_at p n))"

definition paragraphs :: "JsView.node \<Rightarrow> nat list list" where
  "paragraphs n = find_places (with_tag ''p'') n"

lemma length_paragraphs: "length (paragraphs n) = count_els (with_tag ''p'') n - (if passes (with_tag ''p'') n then 1 else 0)"
proof -
  have "filter (\<lambda>p. p \<noteq> []) (places_from P k ns) = places_from P k ns" for P k ns
    by (auto simp: filter_id_conv dest!: places_from_at)
  then show ?thesis
    by (cases n) (simp_all add: paragraphs_def find_places_def length_places_from)
qed

lemma paragraph_at:
  assumes "p \<in> set (paragraphs n)"
  shows "p \<noteq> []" "\<exists>m. node_at p n = Some m \<and> passes (with_tag ''p'') m"
  using assms places_at by (auto simp: paragraphs_def find_places_def)

lemma passes_edit [simp]:
  "p \<noteq> [] \<Longrightarrow> passes P (remove_at p n) = passes P n" "passes P (prepend c n) = passes P n"
  by (cases p; cases n; simp) (cases n; simp add: prepend_def)

lemma fewer_paragraphs:
  assumes "p \<in> set (paragraphs n)"
  shows "length (paragraphs (remove_at p n)) \<le> length (paragraphs n)"
    and "length (paragraphs (move_first p n)) \<le> length (paragraphs n)"
proof -
  from paragraph_at [OF assms] obtain m where p: "p \<noteq> []" "node_at p n = Some m" by blast
  have c: "count_els (with_tag ''p'') (remove_at p n) + count_els (with_tag ''p'') m = count_els (with_tag ''p'') n"
    by (rule count_remove [OF p(2,1)])
  then show "length (paragraphs (remove_at p n)) \<le> length (paragraphs n)"
    using p(1) by (simp add: length_paragraphs)
  obtain t a ns where "remove_at p n = Elem t a ns"
    using p by (cases p; cases n) auto
  then have "count_els (with_tag ''p'') (move_first p n) = count_els (with_tag ''p'') n"
    using c p by (simp add: move_first_def prepend_def)
  then show "length (paragraphs (move_first p n)) \<le> length (paragraphs n)"
    using p by (simp add: length_paragraphs move_first_def)
qed

lemma fewer_left:
  assumes "i < length (paragraphs n)"
  shows "length (paragraphs (remove_at (paragraphs n ! i) n)) - Suc i < length (paragraphs n) - i"
    and "length (paragraphs (move_first (paragraphs n ! i) n)) - Suc i < length (paragraphs n) - i"
  using fewer_paragraphs [OF nth_mem [OF assms]] assms by linarith+

definition place_class :: "string \<Rightarrow> nat list \<Rightarrow> JsView.node \<Rightarrow> bool" where
  "place_class c p n = (case node_at p n of None \<Rightarrow> False | Some m \<Rightarrow> passes (with_class c) m)"

function tidy :: "nat \<Rightarrow> nat \<Rightarrow> JsView.node \<Rightarrow> (nat \<times> JsView.node) option" where
  "tidy i k par =
     (if i < length (paragraphs par)
      then (let p = paragraphs par ! i in
        if place_class ''info'' p par
        then (if length p = 1 then tidy (i + 1) (if hd p < k then k - 1 else k) (remove_at p par) else None)
        else if place_class ''help'' p par
        then tidy (i + 1) (if length p = 1 \<and> hd p < k then k else k + 1) (move_first p par)
        else tidy (i + 1) k par)
      else Some (k, par))"
  by pat_completeness auto
termination
  by (relation "measure (\<lambda>(i, k, par). length (paragraphs par) - i)") (auto intro: fewer_left diff_less_mono2)

declare tidy.simps [simp del]

subsection \<open>The widget\<close>

text \<open>The messages: \<open>interpolate(gettext(s), [field_name])\<close>.\<close>

record translation =
  tr_gettext :: "string \<Rightarrow> string"
  tr_interpolate :: "string \<Rightarrow> string list \<Rightarrow> string"

definition says :: "translation \<Rightarrow> string \<Rightarrow> string \<Rightarrow> string" where
  "says tr s field_name = tr_interpolate tr (tr_gettext tr s) [field_name]"

definition says_space :: "translation \<Rightarrow> string \<Rightarrow> string \<Rightarrow> string" where
  "says_space tr s field_name = tr_interpolate tr (tr_gettext tr s @ '' '') [field_name]"

definition elem :: "string \<Rightarrow> string \<Rightarrow> (string \<times> string) list \<Rightarrow> JsView.node list \<Rightarrow> JsView.node" where
  "elem tag txt ats ns =
     foldl appendChild (quickElement tag txt (map (\<lambda>(k, v). (k, JStr v)) ats)) ns"

text \<open>The title of a pane, with its label and its help.\<close>

definition title_div :: "string \<Rightarrow> string \<Rightarrow> string \<Rightarrow> string \<Rightarrow> string \<Rightarrow> JsView.node" where
  "title_div title_id cl box label help =
     elem ''div'' [] [(''id'', title_id), (''class'', cl)]
       [elem ''label'' label [(''for'', box)] [], elem ''p'' help [(''class'', ''helptext'')] []]"

text \<open>The search of a pane: a paragraph with a label, its tooltip and the input.\<close>

definition search_p :: "translation \<Rightarrow> string \<Rightarrow> string \<Rightarrow> string \<Rightarrow> JsView.node" where
  "search_p tr p_id input_id tip =
     elem ''p'' [] [(''id'', p_id), (''class'', ''selector-filter'')]
       [elem ''label'' [] [(''for'', input_id)]
          [elem ''span'' [] [(''class'', ''help-tooltip search-label-icon''), (''aria-label'', tip)] []],
        Text '' '',
        elem ''input'' [] [(''type'', ''text''), (''placeholder'', tr_gettext tr ''Filter''), (''id'', input_id)] []]"

definition button :: "string \<Rightarrow> string \<Rightarrow> string \<Rightarrow> JsView.node" where
  "button txt bid cl = elem ''button'' txt [(''id'', bid), (''class'', cl), (''type'', ''button'')] []"

text \<open>\<open>from_box.size\<close> is the number of its attribute, 0 without one.\<close>

definition box_size :: "JsView.node \<Rightarrow> string" where
  "box_size b = (case parse_int (get_attr ''size'' b) of Some i \<Rightarrow> if i \<ge> 0 then show_int i else ''0'' | None \<Rightarrow> ''0'')"

definition selector_available :: "translation \<Rightarrow> string \<Rightarrow> string \<Rightarrow> JsView.node \<Rightarrow> JsView.node" where
  "selector_available tr fid fname from_box =
     elem ''div'' [] [(''class'', ''selector-available'')]
       [title_div (fid @ ''_from_title'') ''selector-available-title'' (fid @ ''_from'')
          (says_space tr ''Available %s'' fname)
          (says tr (''Choose %s by selecting them and then select the '' @ [CHR 0x22] @ ''Choose'' @ [CHR 0x22] @ '' arrow button.'') fname),
        search_p tr (fid @ ''_filter'') (fid @ ''_input'')
          (says tr ''Type into this box to filter down the list of available %s.'' fname),
        from_box,
        button (says tr ''Choose all %s'' fname) (fid @ ''_add_all'') ''selector-chooseall'']"

definition selector_chooser :: "translation \<Rightarrow> string \<Rightarrow> string \<Rightarrow> JsView.node" where
  "selector_chooser tr fid fname =
     elem ''ul'' [] [(''class'', ''selector-chooser'')]
       [elem ''li'' [] [] [button (says tr ''Choose selected %s'' fname) (fid @ ''_add'') ''selector-add''],
        elem ''li'' [] [] [button (says tr ''Remove selected %s'' fname) (fid @ ''_remove'') ''selector-remove'']]"

definition to_select :: "string \<Rightarrow> JsView.node \<Rightarrow> JsView.node" where
  "to_select fid from_box =
     elem ''select'' [] [(''id'', fid @ ''_to''), (''multiple'', []), (''size'', box_size from_box),
       (''name'', get_attr ''name'' from_box), (''aria-labelledby'', fid @ ''_to_title''), (''class'', ''filtered'')] []"

definition selector_chosen :: "translation \<Rightarrow> string \<Rightarrow> string \<Rightarrow> JsView.node \<Rightarrow> JsView.node" where
  "selector_chosen tr fid fname from_box =
     elem ''div'' [] [(''id'', fid @ ''_selector_chosen''), (''class'', ''selector-chosen'')]
       [title_div (fid @ ''_to_title'') ''selector-chosen-title'' (fid @ ''_to'')
          (says_space tr ''Chosen %s'' fname)
          (says tr (''Remove %s by selecting them and then select the '' @ [CHR 0x22] @ ''Remove'' @ [CHR 0x22] @ '' arrow button.'') fname),
        search_p tr (fid @ ''_filter_selected'') (fid @ ''_selected_input'')
          (says tr ''Type into this box to filter down the list of selected %s.'' fname),
        to_select fid from_box,
        elem ''div'' [] [(''class'', ''list-footer-display'')]
          [elem ''span'' [] [(''id'', fid @ ''_list-footer-display-text'')] [],
           elem ''span'' ('' '' @ tr_gettext tr ''(click to clear)'') [(''class'', ''list-footer-display__clear'')] []],
        button (says tr ''Remove all %s'' fname) (fid @ ''_remove_all'') ''selector-clearall'']"

definition renamed_box :: "string \<Rightarrow> JsView.node \<Rightarrow> JsView.node" where
  "renamed_box fid b =
     set_attr ''aria-labelledby'' (fid @ ''_from_title'')
       (set_attr ''class'' ''filtered'' (set_attr ''id'' (get_attr ''id'' b @ ''_from'') b))"

definition old_name :: "JsView.node \<Rightarrow> JsView.node" where
  "old_name b = set_attr ''name'' (get_attr ''name'' b @ ''_old'') b"

definition selector_div :: "translation \<Rightarrow> string \<Rightarrow> string \<Rightarrow> bool \<Rightarrow> JsView.node \<Rightarrow> JsView.node" where
  "selector_div tr fid fname is_stacked from_box =
     elem ''div'' [] [(''class'', if is_stacked then ''selector stacked'' else ''selector'')]
       [selector_available tr fid fname (old_name from_box), selector_chooser tr fid fname,
        selector_chosen tr fid fname from_box]"

text \<open>The parent of the box, which is its child at \<open>k\<close>.\<close>

definition build :: "translation \<Rightarrow> string \<Rightarrow> string \<Rightarrow> bool \<Rightarrow> nat \<Rightarrow> JsView.node \<Rightarrow> JsView.node option" where
  "build tr fid fname is_stacked k par =
     (case tidy 0 k (update_at [k] (renamed_box fid) par) of
        None \<Rightarrow> None
      | Some (j, par') \<Rightarrow>
          (case node_at [j] par' of None \<Rightarrow> None
           | Some from_box \<Rightarrow>
               Some (prepend (selector_div tr fid fname is_stacked from_box) (remove_at [j] par'))))"

text \<open>The options of a select, as the cache reads them.\<close>

definition opt_of :: "JsView.node \<Rightarrow> opt" where
  "opt_of n =
     (case n of Text s \<Rightarrow> \<lparr>ovalue = [], otext = s, otitle = [], selected = False\<rparr>
      | Elem t a ns \<Rightarrow>
          \<lparr>ovalue = (case map_of a ''value'' of Some (JStr v) \<Rightarrow> v | _ \<Rightarrow> concat (map node_text ns)),
           otext = concat (map node_text ns), otitle = attr_text ''title'' a,
           selected = (map_of a ''selected'' \<noteq> None)\<rparr>)"

definition options_of :: "JsView.node \<Rightarrow> opt list" where
  "options_of n = map opt_of (find_els (with_tag ''option'') n)"

definition getElementById :: "string \<Rightarrow> JsView.node \<Rightarrow> nat list option" where
  "getElementById i doc = (case places (with_attr ''id'' i) doc of [] \<Rightarrow> None | p # _ \<Rightarrow> Some p)"

definition in_form :: "nat list \<Rightarrow> JsView.node \<Rightarrow> bool" where
  "in_form p doc = list_ex (\<lambda>n. case node_at (take n p) doc of
     None \<Rightarrow> False | Some m \<Rightarrow> passes (with_tag ''form'') m) [0..<length p]"

text \<open>
  The whole of \<open>init\<close>, on a page: the page after it and the widget, \<open>None\<close> for one on an empty form.
  The root of the page has no id.
\<close>

definition selector_init ::
  "translation \<Rightarrow> string \<Rightarrow> string \<Rightarrow> bool \<Rightarrow> JsView.node \<Rightarrow> (JsView.node \<times> widget option) option" where
  "selector_init tr fid fname is_stacked doc =
     (if str_includes fid ''__prefix__'' then Some (doc, None)
      else
        (case getElementById fid doc of
           None \<Rightarrow> None
         | Some p \<Rightarrow>
             if p = [] then None
             else (case node_at (butlast p) doc of
                None \<Rightarrow> None
              | Some par \<Rightarrow>
                  (case build tr fid fname is_stacked (last p) par of
                     None \<Rightarrow> None
                   | Some par' \<Rightarrow>
                       if in_form p doc
                       then (case init_widget fid (options_of (the (node_at p doc))) of
                               None \<Rightarrow> None
                             | Some w \<Rightarrow> Some (update_at (butlast p) (\<lambda>_. par') doc, Some w))
                       else None))))"


subsection \<open>The box is found again\<close>

text \<open>No paragraph is inside another child of the parent, so none throws.\<close>

definition flat :: "JsView.node \<Rightarrow> bool" where
  "flat n = (case n of Text s \<Rightarrow> False
     | Elem t a ns \<Rightarrow> list_all (\<lambda>c. count_els (with_tag ''p'') c = (if passes (with_tag ''p'') c then 1 else 0)) ns)"

lemma count_pos: "passes P n \<Longrightarrow> 0 < count_els P n"
  by (cases n) simp_all

lemma inner_count:
  assumes "node_at q c = Some m" and "q \<noteq> []" and "passes P m"
  shows "count_els P c > (if passes P c then 1 else 0)"
  using count_remove [OF assms(1,2), of P] count_pos [OF assms(3)] assms(2) count_pos [of P "remove_at q c"]
  by auto

lemma flat_paragraph:
  assumes "flat (Elem t a ns)" and "p \<in> set (paragraphs (Elem t a ns))"
  shows "\<exists>h < length ns. p = [h] \<and> passes (with_tag ''p'') (ns ! h)"
proof -
  have "p \<in> set (places_from (with_tag ''p'') 0 ns)"
    using assms(2) by (auto simp: paragraphs_def find_places_def split: if_splits)
  from places_from_at [OF this] obtain h q m where
    h: "p = h # q" "h < length ns" "node_at q (ns ! h) = Some m" "passes (with_tag ''p'') m" by auto
  have "count_els (with_tag ''p'') (ns ! h) = (if passes (with_tag ''p'') (ns ! h) then 1 else 0)"
    using assms(1) h(2) by (simp add: flat_def list_all_length)
  with inner_count [OF h(3) _ h(4)] have "q = []" by fastforce
  with h show ?thesis by auto
qed

lemma length_remove_nth [simp]: "h < length xs \<Longrightarrow> length (remove_nth h xs) = length xs - 1"
  by (auto simp: remove_nth_def)

lemma nth_remove_nth: "h < length xs \<Longrightarrow> j < length xs - 1 \<Longrightarrow>
    remove_nth h xs ! j = (if j < h then xs ! j else xs ! Suc j)"
  by (simp add: remove_nth_def nth_append)

lemma set_remove_nth: "set (remove_nth h xs) \<subseteq> set xs"
  by (auto simp: remove_nth_def dest: in_set_takeD in_set_dropD)

lemma sum_remove_nth:
  fixes f :: "'a \<Rightarrow> nat"
  shows "h < length xs \<Longrightarrow> sum_list (map f (remove_nth h xs)) + f (xs ! h) = sum_list (map f xs)"
  using sum_list_remove_nth [of h "map f xs"] by (simp add: map_remove_nth)

text \<open>What the parent's tidying keeps: the box at its index, the element itself, and no new element.\<close>

definition tidied :: "JsView.node \<Rightarrow> JsView.node \<Rightarrow> JsView.node \<Rightarrow> nat \<Rightarrow> bool" where
  "tidied b par par' j \<longleftrightarrow> flat par' \<and> node_at [j] par' = Some b
     \<and> (\<forall>P. passes P par' = passes P par \<and> count_els P par' \<le> count_els P par)"

lemma tidied_trans: "tidied b x y i \<Longrightarrow> tidied b y z j \<Longrightarrow> tidied b x z j"
  unfolding tidied_def using le_trans by blast

lemma tidied_remove:
  assumes "flat (Elem t a ns)" and "k < length ns" and "h < length ns" and "h \<noteq> k"
  shows "tidied (ns ! k) (Elem t a ns) (remove_at [h] (Elem t a ns)) (if h < k then k - 1 else k)"
    and "tidied (ns ! k) (Elem t a ns) (move_first [h] (Elem t a ns)) (if h < k then k else k + 1)"
proof -
  have f: "flat (Elem t a (remove_nth h ns))" "flat (Elem t a (ns ! h # remove_nth h ns))"
    using assms(1,3) set_remove_nth [of h ns] by (auto simp: flat_def list_all_iff)
  have n: "remove_nth h ns ! (if h < k then k - 1 else k) = ns ! k"
    "(if h < k then k - 1 else k) < length ns - 1"
    using assms(2-4) by (auto simp: nth_remove_nth)
  have s: "sum_list (map (count_els P) (remove_nth h ns)) + count_els P (ns ! h) = sum_list (map (count_els P) ns)"
    for P using sum_remove_nth [OF assms(3)] .
  have r: "remove_at [h] (Elem t a ns) = Elem t a (remove_nth h ns)" by simp
  have m: "move_first [h] (Elem t a ns) = Elem t a (ns ! h # remove_nth h ns)"
    using assms(3) by (simp add: move_first_def prepend_def)
  have le: "sum_list (map (count_els P) (remove_nth h ns)) \<le> sum_list (map (count_els P) ns)" for P
    using s [of P] by simp
  show "tidied (ns ! k) (Elem t a ns) (remove_at [h] (Elem t a ns)) (if h < k then k - 1 else k)"
    unfolding r tidied_def using f(1) n assms(3) le by simp
  have "node_at [if h < k then k else k + 1] (Elem t a (ns ! h # remove_nth h ns)) = Some (ns ! k)"
    using n assms(2-4) by (cases "h < k"; cases k) (auto simp: nth_Cons')
  moreover have "count_els P (Elem t a (ns ! h # remove_nth h ns)) \<le> count_els P (Elem t a ns)" for P
    using s [of P] by simp
  ultimately show "tidied (ns ! k) (Elem t a ns) (move_first [h] (Elem t a ns)) (if h < k then k else k + 1)"
    unfolding m tidied_def using f(2) by simp
qed

lemma tidied_refl: "flat par \<Longrightarrow> node_at [k] par = Some b \<Longrightarrow> tidied b par par k"
  by (simp add: tidied_def)

lemma paragraph_edits:
  assumes "flat par" and "node_at [k] par = Some b" and "count_els (with_tag ''p'') b = 0"
    and "p \<in> set (paragraphs par)"
  shows "\<exists>h. p = [h] \<and> tidied b par (remove_at [h] par) (if h < k then k - 1 else k)
    \<and> tidied b par (move_first [h] par) (if h < k then k else k + 1)"
proof (cases par)
  case (Elem t a ns)
  obtain h where h: "h < length ns" "p = [h]" "passes (with_tag ''p'') (ns ! h)"
    using flat_paragraph [OF assms(1,4) [unfolded Elem]] by blast
  have k: "k < length ns" "ns ! k = b" using assms(2) by (simp_all add: Elem split: if_splits)
  have "h \<noteq> k" using h(3) k(2) assms(3) count_pos by (metis less_irrefl_nat)
  from tidied_remove [OF assms(1) [unfolded Elem] k(1) h(1) this, unfolded k(2)] h(2)
  show ?thesis unfolding Elem by blast
qed (use assms(1) in \<open>simp add: flat_def\<close>)

lemma tidy_keeps:
  assumes "flat par" and "node_at [k] par = Some b" and "count_els (with_tag ''p'') b = 0"
  shows "\<exists>j par'. tidy i k par = Some (j, par') \<and> tidied b par par' j"
  using assms
proof (induction i k par rule: tidy.induct)
  case (1 i k par)
  show ?case
  proof (cases "i < length (paragraphs par)")
    case False
    then have "tidy i k par = Some (k, par)" by (subst tidy.simps) simp
    with tidied_refl [OF 1(4,5)] show ?thesis by blast
  next
    case True
    from paragraph_edits [OF 1(4-6) nth_mem [OF True]] obtain h where
      h: "paragraphs par ! i = [h]" "tidied b par (remove_at [h] par) (if h < k then k - 1 else k)"
      "tidied b par (move_first [h] par) (if h < k then k else k + 1)" by blast
    let ?p = "paragraphs par ! i"
    have step: "tidy i k par =
       (if place_class ''info'' [h] par then tidy (i + 1) (if h < k then k - 1 else k) (remove_at [h] par)
        else if place_class ''help'' [h] par then tidy (i + 1) (if h < k then k else k + 1) (move_first [h] par)
        else tidy (i + 1) k par)"
      using True h(1) by (subst tidy.simps) (simp add: Let_def)
    consider (info) "place_class ''info'' ?p par" | (helps) "\<not> place_class ''info'' ?p par" "place_class ''help'' ?p par"
      | (other) "\<not> place_class ''info'' ?p par" "\<not> place_class ''help'' ?p par" by blast
    then show ?thesis
    proof cases
      case info
      have "\<exists>j par'. tidy (i + 1) (if h < k then k - 1 else k) (remove_at [h] par) = Some (j, par')
          \<and> tidied b (remove_at [h] par) par' j"
        using 1(1) [OF True refl info] h(1,2) 1(6) by (simp add: tidied_def)
      with info h(1) tidied_trans [OF h(2)] show ?thesis unfolding step by auto
    next
      case helps
      have "\<exists>j par'. tidy (i + 1) (if h < k then k else k + 1) (move_first [h] par) = Some (j, par')
          \<and> tidied b (move_first [h] par) par' j"
        using 1(2) [OF True refl helps] h(1,3) 1(6) by (simp add: tidied_def)
      with helps h(1) tidied_trans [OF h(3)] show ?thesis unfolding step by auto
    next
      case other
      with 1(3) [OF True refl other] 1(4-6) h(1) show ?thesis unfolding step by simp
    qed
  qed
qed

subsection \<open>What the construction leaves\<close>

lemma foldl_appendChild: "foldl appendChild (Elem t a xs) ns = Elem t a (xs @ ns)"
  by (induction ns arbitrary: xs) (simp_all add: appendChild_def)

definition text_attrs :: "(string \<times> string) list \<Rightarrow> jsval obj" where
  "text_attrs ats = map (\<lambda>(k, v). (k, JStr v)) ats"

lemma obj_assign_new: "distinct (map fst (ob @ b)) \<Longrightarrow> obj_assign ob b = ob @ b"
proof (induction b arbitrary: ob)
  case (Cons e b)
  then have "obj_set (fst e) (snd e) ob = ob @ [e]" by (subst obj_set_new) auto
  with Cons.IH [of "ob @ [e]"] Cons.prems show ?case by simp
qed simp

lemma count_elem [simp]:
  assumes "distinct (map fst ats)"
  shows "count_els P (elem tag txt ats ns) =
    (if P tag (text_attrs ats) then 1 else 0) + sum_list (map (count_els P) ns)"
proof -
  have "map fst (text_attrs ats) = map fst ats" by (induction ats) (auto simp: text_attrs_def)
  with assms have "distinct (map fst ([] @ text_attrs ats))" by simp
  from obj_assign_new [OF this]
  have "obj_assign [] (map (\<lambda>(k, v). (k, JStr v)) ats) = text_attrs ats" by (simp add: text_attrs_def)
  then show ?thesis by (simp add: elem_def quickElement_def foldl_appendChild)
qed

lemma map_of_text_attrs [simp]: "map_of (text_attrs ats) k = map_option JStr (map_of ats k)"
  by (induction ats) (auto simp: text_attrs_def)

lemma count_set_attr:
  "count_els P (set_attr k v (Elem t a ns)) =
     (if P t (obj_set k (JStr v) a) then 1 else 0) + sum_list (map (count_els P) ns)"
  by simp

lemma count_at_le: "node_at q n = Some m \<Longrightarrow> count_els P m \<le> count_els P n"
  using count_update [of q n m P "\<lambda>_. Text []"] by simp

lemma count_tag_renamed [simp]: "count_els (with_tag tg) (renamed_box fid b) = count_els (with_tag tg) b"
  "passes (with_tag tg) (renamed_box fid b) = passes (with_tag tg) b"
  by (cases b; simp add: renamed_box_def with_tag_def)+

lemma build_counts:
  assumes "flat par" and "node_at [k] par = Some b" and "count_els (with_tag ''p'') b = 0"
  shows "\<exists>par'. build tr fid fname st k par = Some par'
    \<and> (\<forall>P. count_els P (selector_div tr fid fname st (renamed_box fid b)) \<le> count_els P par'
        \<and> count_els P par' + count_els P b \<le> count_els P par + count_els P (selector_div tr fid fname st (renamed_box fid b)))"
proof -
  let ?rb = "renamed_box fid b" and ?par1 = "update_at [k] (renamed_box fid) par"
  obtain t a ns where par: "par = Elem t a ns" "k < length ns" "ns ! k = b"
    using assms(2) by (cases par) (auto split: if_splits)
  have "flat ?par1"
    using assms(1) par unfolding flat_def by (auto simp: list_all_length nth_list_update)
  moreover have "node_at [k] ?par1 = Some ?rb" using par by simp
  moreover have "count_els (with_tag ''p'') ?rb = 0" using assms(3) by simp
  ultimately obtain j par2 where t: "tidy 0 k ?par1 = Some (j, par2)" "tidied ?rb ?par1 par2 j"
    using tidy_keeps by blast
  then have n: "node_at [j] par2 = Some ?rb" by (simp add: tidied_def)
  let ?r = "remove_at [j] par2" and ?sd = "selector_div tr fid fname st ?rb"
  obtain t' a' ns' where r: "?r = Elem t' a' ns'" using n by (cases par2) auto
  have c: "count_els P (prepend ?sd ?r) = count_els P ?sd + count_els P ?r" for P
    by (simp add: r prepend_def)
  have bound: "count_els P (prepend ?sd ?r) + count_els P b \<le> count_els P par + count_els P ?sd" for P
  proof -
    have "count_els P ?par1 + count_els P b = count_els P par + count_els P ?rb"
      by (rule count_update [OF assms(2)])
    moreover have "count_els P ?r + count_els P ?rb = count_els P par2"
      by (rule count_remove [OF n]) simp
    moreover have "count_els P par2 \<le> count_els P ?par1" using t(2) by (simp add: tidied_def)
    ultimately show ?thesis using c [of P] by linarith
  qed
  have "build tr fid fname st k par = Some (prepend ?sd ?r)"
    using t(1) n by (simp add: build_def)
  then show ?thesis using bound c by (intro exI [of _ "prepend ?sd ?r"]) simp
qed

text \<open>The ids the handlers look elements up by.\<close>

definition widget_ids :: "string list" where
  "widget_ids = [''_from'', ''_to'', ''_input'', ''_selected_input'', ''_add'', ''_remove'', ''_add_all'',
     ''_remove_all'', ''_selector_chosen'', ''_list-footer-display-text'']"

lemmas selector_defs = selector_div_def selector_available_def selector_chooser_def selector_chosen_def
  title_div_def search_p_def button_def to_select_def old_name_def

definition all_ids :: "string list" where
  "all_ids = widget_ids @ [''_from_title'', ''_filter'', ''_to_title'', ''_filter_selected'']"

definition occurrences :: "string \<Rightarrow> string list \<Rightarrow> nat" where
  "occurrences s xs = sum_list (map (\<lambda>x. if x = s then 1 else 0) xs)"

lemma widget_ids_once: "list_all (\<lambda>s. s \<noteq> [] \<and> occurrences s all_ids = 1) widget_ids"
  by code_simp

lemma renamed_attrs:
  assumes "b = Elem t a ns" and "get_attr ''id'' b = fid"
  shows "\<exists>a'. renamed_box fid b = Elem t a' ns \<and> map_of a' ''id'' = Some (JStr (fid @ ''_from''))
    \<and> (\<forall>k. k \<noteq> ''id'' \<longrightarrow> k \<noteq> ''class'' \<longrightarrow> k \<noteq> ''aria-labelledby'' \<longrightarrow> map_of a' k = map_of a k)"
  using assms(2) by (simp add: assms(1) renamed_box_def)

lemma selector_div_ids:
  assumes "b = Elem t a ns" and "get_attr ''id'' b = fid"
  shows "count_els (with_attr ''id'' (fid @ s)) (selector_div tr fid fname st (renamed_box fid b))
    = occurrences s all_ids + sum_list (map (count_els (with_attr ''id'' (fid @ s))) ns)"
proof -
  from renamed_attrs [OF assms] obtain a' where
    "renamed_box fid b = Elem t a' ns" "map_of a' ''id'' = Some (JStr (fid @ ''_from''))" by blast
  then show ?thesis
    by (simp add: selector_defs with_attr_def all_ids_def widget_ids_def occurrences_def)
qed

lemma selector_div_others:
  assumes "b = Elem t a ns" and "get_attr ''id'' b = fid" and "get_attr ''name'' b = nm"
  shows "count_els (with_attr ''id'' fid) (selector_div tr fid fname st (renamed_box fid b))
      = sum_list (map (count_els (with_attr ''id'' fid)) ns)"
    and "count_els (with_attr ''name'' nm) (selector_div tr fid fname st (renamed_box fid b))
      = 1 + sum_list (map (count_els (with_attr ''name'' nm)) ns)"
    and "count_els (\<lambda>t a. with_attr ''name'' nm t a \<and> with_attr ''id'' (fid @ ''_to'') t a)
        (selector_div tr fid fname st (renamed_box fid b)) \<ge> 1"
proof -
  from renamed_attrs [OF assms(1,2)] obtain a' where a': "renamed_box fid b = Elem t a' ns"
    "map_of a' ''id'' = Some (JStr (fid @ ''_from''))" and
    "\<forall>k. k \<noteq> ''id'' \<longrightarrow> k \<noteq> ''class'' \<longrightarrow> k \<noteq> ''aria-labelledby'' \<longrightarrow> map_of a' k = map_of a k" by blast
  from this(3) have "map_of a' ''name'' = map_of a ''name''" by simp
  then have "attr_text ''name'' a' = nm" using assms(3) by (simp add: assms(1) attr_text_def)
  with a' show "count_els (with_attr ''id'' fid) (selector_div tr fid fname st (renamed_box fid b))
      = sum_list (map (count_els (with_attr ''id'' fid)) ns)"
    and "count_els (with_attr ''name'' nm) (selector_div tr fid fname st (renamed_box fid b))
      = 1 + sum_list (map (count_els (with_attr ''name'' nm)) ns)"
    and "count_els (\<lambda>t a. with_attr ''name'' nm t a \<and> with_attr ''id'' (fid @ ''_to'') t a)
        (selector_div tr fid fname st (renamed_box fid b)) \<ge> 1"
    using a' by (simp_all add: selector_defs with_attr_def)
qed

lemma count_mono: "(\<And>t a. P t a \<Longrightarrow> Q t a) \<Longrightarrow> count_els P n \<le> count_els Q n"
proof (induction n)
  case (Elem t a ns)
  then have "sum_list (map (count_els P) ns) \<le> sum_list (map (count_els Q) ns)"
    by (intro sum_list_mono) simp
  with Elem.prems [of t a] show ?case by simp
qed simp

lemma node_at_snoc: "node_at q n = Some m \<Longrightarrow> node_at [k] m = Some c \<Longrightarrow> node_at (q @ [k]) n = Some c"
  by (induction q n rule: node_at.induct) (auto split: if_splits)

lemma selector_init_result:
  assumes "getElementById fid doc = Some (q @ [k])" and "node_at q doc = Some par" and "flat par"
    and "node_at [k] par = Some b" and "count_els (with_tag ''p'') b = 0" and "in_form (q @ [k]) doc"
    and "distinct (map ovalue (options_of b))" and "\<not> str_includes fid ''__prefix__''"
  shows "\<exists>par' w. selector_init tr fid fname st doc = Some (update_at q (\<lambda>_. par') doc, Some w)
    \<and> build tr fid fname st k par = Some par' \<and> init_widget fid (options_of b) = Some w
    \<and> winv fid w \<and> all_choices fid w = mset (map ochoice (options_of b))"
proof -
  note n = node_at_snoc [OF assms(2,4)]
  from build_counts [OF assms(3-5)] obtain par' where p: "build tr fid fname st k par = Some par'" by blast
  from init_keeps [OF assms(7)] obtain w where w: "init_widget fid (options_of b) = Some w" "winv fid w"
    "all_choices fid w = mset (map ochoice (options_of b))" by blast
  then show ?thesis
    using assms(1,2,6,8) n p by (simp add: selector_init_def)
qed

lemma init_counts:
  fixes P :: test
  assumes "node_at q doc = Some par" and "flat par" and "node_at [k] par = Some b"
    and "count_els (with_tag ''p'') b = 0" and "build tr fid fname st k par = Some par'"
  defines "sd \<equiv> selector_div tr fid fname st (renamed_box fid b)"
  shows "count_els P sd + count_els P doc \<le> count_els P (update_at q (\<lambda>_. par') doc) + count_els P par"
    and "count_els P (update_at q (\<lambda>_. par') doc) + count_els P b \<le> count_els P doc + count_els P sd"
    and "count_els P b \<le> count_els P doc" and "count_els P par \<le> count_els P doc"
    and "count_els P b \<le> count_els P par"
proof -
  have d: "count_els P (update_at q (\<lambda>_. par') doc) + count_els P par = count_els P doc + count_els P par'"
    by (rule count_update [OF assms(1)])
  have "count_els P sd \<le> count_els P par'" "count_els P par' + count_els P b \<le> count_els P par + count_els P sd"
    using build_counts [OF assms(2-4), of tr fid fname st] assms(5) by (auto simp: sd_def)
  with d show "count_els P sd + count_els P doc \<le> count_els P (update_at q (\<lambda>_. par') doc) + count_els P par"
    and "count_els P (update_at q (\<lambda>_. par') doc) + count_els P b \<le> count_els P doc + count_els P sd"
    by linarith+
  show "count_els P b \<le> count_els P par" and "count_els P par \<le> count_els P doc"
    using count_at_le [OF assms(3)] count_at_le [OF assms(1)] by blast+
  then show "count_els P b \<le> count_els P doc" by linarith
qed

lemma found_by_id:
  assumes "getElementById fid doc = Some p" and "node_at p doc = Some b"
  shows "passes (with_attr ''id'' fid) b"
proof -
  have "p \<in> set (places (with_attr ''id'' fid) doc)"
    using assms(1) by (auto simp: getElementById_def split: list.splits)
  from places_at [OF this] assms(2) show ?thesis by auto
qed

text \<open>
  C11: the two-pane selector stands on the page.  For a select with an id and a name no other element
  has, in a form, whose options have different values, beside no paragraph that lies deeper, and on a page
  without ids that begin with the select's, \<open>init\<close> returns; the widget holds the options of
  the select; every element its handlers look up is on the page, once; and what is sent under the
  select's name is the box of the chosen.
\<close>

theorem selector_built:
  assumes "getElementById fid doc = Some (q @ [k])" and "node_at q doc = Some par" and "flat par"
    and "node_at [k] par = Some b" and "count_els (with_tag ''p'') b = 0" and "in_form (q @ [k]) doc"
    and "distinct (map ovalue (options_of b))" and "\<not> str_includes fid ''__prefix__''"
    and "passes (with_attr ''name'' nm) b"
    and "\<forall>s. s \<noteq> [] \<longrightarrow> count_els (with_attr ''id'' (fid @ s)) doc = 0"
    and "count_els (with_attr ''id'' fid) doc = 1" and "count_els (with_attr ''name'' nm) doc = 1"
  shows "\<exists>doc' w. selector_init tr fid fname st doc = Some (doc', Some w)
    \<and> winv fid w \<and> all_choices fid w = mset (map ochoice (options_of b))
    \<and> (\<forall>s \<in> set widget_ids. count_els (with_attr ''id'' (fid @ s)) doc' = 1)
    \<and> count_els (with_attr ''id'' fid) doc' = 0
    \<and> count_els (with_attr ''name'' nm) doc' = 1
    \<and> count_els (\<lambda>t a. with_attr ''name'' nm t a \<and> with_attr ''id'' (fid @ ''_to'') t a) doc' = 1"
proof -
  from selector_init_result [OF assms(1-8)] obtain par' w where r:
    "selector_init tr fid fname st doc = Some (update_at q (\<lambda>_. par') doc, Some w)"
    "build tr fid fname st k par = Some par'" "winv fid w"
    "all_choices fid w = mset (map ochoice (options_of b))" by blast
  let ?doc = "update_at q (\<lambda>_. par') doc" and ?sd = "selector_div tr fid fname st (renamed_box fid b)"
  obtain t a ns where b: "b = Elem t a ns" using assms(9) by (cases b) auto
  have name: "get_attr ''name'' b = nm" using assms(9) by (simp add: b with_attr_def attr_text_def)
  have "passes (with_attr ''id'' fid) b" by (rule found_by_id [OF assms(1) node_at_snoc [OF assms(2,4)]])
  then have ident: "with_attr ''id'' fid t a" "get_attr ''id'' b = fid"
    by (simp_all add: b with_attr_def attr_text_def)
  note others = selector_div_others [OF b ident(2) name, of tr fname st]
  note counts = init_counts [OF assms(2-5) r(2)]
  have kids: "count_els P b = (if P t a then 1 else 0) + sum_list (map (count_els P) ns)" for P
    by (simp add: b)
  have "count_els (with_attr ''id'' (fid @ s)) ?doc = 1" if "s \<in> set widget_ids" for s
  proof -
    have "s \<noteq> []" "occurrences s all_ids = 1"
      using that widget_ids_once by (auto simp: list_all_iff)
    then show ?thesis
      using counts [of "with_attr ''id'' (fid @ s)"] kids [of "with_attr ''id'' (fid @ s)"] assms(10)
        selector_div_ids [OF b ident(2), of s tr fname st] by (simp split: if_splits)
  qed
  moreover have "count_els (with_attr ''id'' fid) ?doc = 0"
    using counts [of "with_attr ''id'' fid"] kids [of "with_attr ''id'' fid"] assms(11) ident(1) others(1) by simp
  moreover have name1: "count_els (with_attr ''name'' nm) ?doc = 1"
  proof -
    have "with_attr ''name'' nm t a" using assms(9) by (simp add: b)
    then show ?thesis
      using counts [of "with_attr ''name'' nm"] kids [of "with_attr ''name'' nm"] assms(12) others(2) by simp
  qed
  moreover have "count_els (\<lambda>t a. with_attr ''name'' nm t a \<and> with_attr ''id'' (fid @ ''_to'') t a) ?doc = 1"
  proof -
    let ?P = "\<lambda>t a. with_attr ''name'' nm t a \<and> with_attr ''id'' (fid @ ''_to'') t a"
    have "count_els ?P ?doc \<le> count_els (with_attr ''name'' nm) ?doc" by (rule count_mono) simp
    with counts(1,4) [of ?P] others(3) name1 show ?thesis by linarith
  qed
  ultimately show ?thesis using r by blast
qed

text \<open>A page with one select, in a form, its help below it.\<close>

definition sample_select :: JsView.node where
  "sample_select = Elem ''select'' (text_attrs [(''id'', ''id_groups''), (''name'', ''groups''), (''class'', ''selectfilter''),
       (''data-field-name'', ''groups'')])
     [Elem ''option'' (text_attrs [(''value'', ''1'')]) [Text ''Editors''],
      Elem ''option'' (text_attrs [(''value'', ''2''), (''selected'', [])]) [Text ''Authors'']]"

definition sample_paragraph :: "string \<Rightarrow> JsView.node" where
  "sample_paragraph c = Elem ''p'' (text_attrs [(''class'', c)]) [Text c]"

definition sample_parent :: JsView.node where
  "sample_parent = Elem ''div'' [] [sample_select, sample_paragraph ''help'']"

definition sample_page :: JsView.node where
  "sample_page = Elem ''html'' [] [Elem ''form'' [] [sample_parent]]"

lemmas sample_page_defs = sample_page_def sample_parent_def sample_select_def sample_paragraph_def

definition plain_translation :: translation where
  "plain_translation = \<lparr>tr_gettext = (\<lambda>s. s), tr_interpolate = (\<lambda>s _. s)\<rparr>"

theorem selector_built_witness:
  "\<exists>doc' w. selector_init plain_translation ''id_groups'' ''groups'' False sample_page = Some (doc', Some w)
    \<and> count_els (with_attr ''id'' ''id_groups_to'') doc' = 1
    \<and> count_els (with_attr ''name'' ''groups'') doc' = 1"
proof -
  have g: "getElementById ''id_groups'' sample_page = Some ([0, 0] @ [0])"
    by (simp add: getElementById_def sample_page_defs with_attr_def)
  have p: "node_at [0, 0] sample_page = Some sample_parent" "node_at [0] sample_parent = Some sample_select"
    by (simp_all add: sample_page_def sample_parent_def)
  have f: "flat sample_parent" "count_els (with_tag ''p'') sample_select = 0"
    by (simp_all add: sample_parent_def flat_def sample_select_def sample_paragraph_def with_tag_def)
  have i: "in_form ([0, 0] @ [0]) sample_page"
    by (simp add: in_form_def sample_page_def with_tag_def upt_rec)
  have d: "distinct (map ovalue (options_of sample_select))"
    by (simp add: options_of_def opt_of_def find_els_def find_places_def sample_select_def with_tag_def)
  have n: "\<not> str_includes ''id_groups'' ''__prefix__''" by code_simp
  have c: "passes (with_attr ''name'' ''groups'') sample_select"
    "\<forall>s. s \<noteq> [] \<longrightarrow> count_els (with_attr ''id'' (''id_groups'' @ s)) sample_page = 0"
    "count_els (with_attr ''id'' ''id_groups'') sample_page = 1"
    "count_els (with_attr ''name'' ''groups'') sample_page = 1"
    by (simp_all add: sample_page_defs with_attr_def)
  have "''_to'' \<in> set widget_ids" by (simp add: widget_ids_def)
  with selector_built [OF g p(1) f(1) p(2) f(2) i d n c, of plain_translation "''groups''" False]
  show ?thesis by fastforce
qed

text \<open>
  The paragraph after a removed one is skipped: the help below an information stays below the box.
\<close>

lemma help_left_below:
  "tidy 0 0 (Elem ''div'' [] [sample_select, sample_paragraph ''info'', sample_paragraph ''help''])
    = Some (0, Elem ''div'' [] [sample_select, sample_paragraph ''help''])"
  "tidy 0 0 (Elem ''div'' [] [sample_select, sample_paragraph ''help''])
    = Some (1, Elem ''div'' [] [sample_paragraph ''help'', sample_select])"
  by code_simp+

subsection \<open>The selectors of a page\<close>

text \<open>The widgets of a page by their ids, and the calls of \<open>init\<close> one after the other.\<close>

type_synonym selector_page = "JsView.node \<times> (string \<times> widget) list"

fun init_each :: "translation \<Rightarrow> (string \<times> string \<times> bool) list \<Rightarrow> selector_page \<Rightarrow> selector_page option" where
  "init_each tr [] s = Some s"
| "init_each tr ((fid, fname, st) # xs) (doc, ws) =
     (case selector_init tr fid fname st doc of
        None \<Rightarrow> None
      | Some (doc', w) \<Rightarrow> init_each tr xs (doc', case w of None \<Rightarrow> ws | Some v \<Rightarrow> ws @ [(fid, v)]))"

text \<open>On load: \<open>parseInt(data.isStacked, 10)\<close> is \<open>NaN\<close>, no truth, for a text without a number.\<close>

definition load_selectors :: "translation \<Rightarrow> selector_page \<Rightarrow> selector_page option" where
  "load_selectors tr s =
     init_each tr
       (map (\<lambda>n. (get_attr ''id'' n, get_attr ''data-field-name'' n,
           case parse_int (get_attr ''data-is-stacked'' n) of None \<Rightarrow> False | Some i \<Rightarrow> i \<noteq> 0))
         (find_els (\<lambda>t a. with_tag ''select'' t a \<and> (with_class ''selectfilter'' t a \<or> with_class ''selectfilterstacked'' t a))
           (fst s))) s"

end
