(* ===== verification/Slug.thy ===== *)
theory Slug
  imports JsPrelude
begin

text \<open>
  Slugs in the admin: \<open>koded-cli/web/backend/staticfiles/admin/js/urlify.js\<close>, which turns a title into
  a slug, and \<open>prepopulate.js\<close>, which keeps a slug field in step with the fields it is made from.
  The letters transliterated lie outside Latin-1, so a text here is a list of code units.
  \<open>XRegExp\<close>, used when Unicode slugs are allowed, is a library: its replacement is a parameter.
\<close>

type_synonym utext = "nat list"

abbreviation units :: "string \<Rightarrow> utext" where
  "units \<equiv> map of_char"

subsection \<open>The letters\<close>

definition LATIN_MAP :: "(nat \<times> string) list" where
  "LATIN_MAP =
     [(0x00C0, ''A''), (0x00C1, ''A''), (0x00C2, ''A''), (0x00C3, ''A''), (0x00C4, ''A''), (0x00C5, ''A''),
      (0x00C6, ''AE''), (0x00C7, ''C''), (0x00C8, ''E''), (0x00C9, ''E''), (0x00CA, ''E''), (0x00CB, ''E''),
      (0x00CC, ''I''), (0x00CD, ''I''), (0x00CE, ''I''), (0x00CF, ''I''), (0x00D0, ''D''), (0x00D1, ''N''),
      (0x00D2, ''O''), (0x00D3, ''O''), (0x00D4, ''O''), (0x00D5, ''O''), (0x00D6, ''O''), (0x0150, ''O''),
      (0x00D8, ''O''), (0x00D9, ''U''), (0x00DA, ''U''), (0x00DB, ''U''), (0x00DC, ''U''), (0x0170, ''U''),
      (0x00DD, ''Y''), (0x00DE, ''TH''), (0x0178, ''Y''), (0x00DF, ''ss''), (0x00E0, ''a''), (0x00E1, ''a''),
      (0x00E2, ''a''), (0x00E3, ''a''), (0x00E4, ''a''), (0x00E5, ''a''), (0x00E6, ''ae''), (0x00E7, ''c''),
      (0x00E8, ''e''), (0x00E9, ''e''), (0x00EA, ''e''), (0x00EB, ''e''), (0x00EC, ''i''), (0x00ED, ''i''),
      (0x00EE, ''i''), (0x00EF, ''i''), (0x00F0, ''d''), (0x00F1, ''n''), (0x00F2, ''o''), (0x00F3, ''o''),
      (0x00F4, ''o''), (0x00F5, ''o''), (0x00F6, ''o''), (0x0151, ''o''), (0x00F8, ''o''), (0x00F9, ''u''),
      (0x00FA, ''u''), (0x00FB, ''u''), (0x00FC, ''u''), (0x0171, ''u''), (0x00FD, ''y''), (0x00FE, ''th''),
      (0x00FF, ''y'')]"

definition LATIN_SYMBOLS_MAP :: "(nat \<times> string) list" where
  "LATIN_SYMBOLS_MAP =
     [(0x00A9, ''(c)'')]"

definition GREEK_MAP :: "(nat \<times> string) list" where
  "GREEK_MAP =
     [(0x03B1, ''a''), (0x03B2, ''b''), (0x03B3, ''g''), (0x03B4, ''d''), (0x03B5, ''e''), (0x03B6, ''z''),
      (0x03B7, ''h''), (0x03B8, ''8''), (0x03B9, ''i''), (0x03BA, ''k''), (0x03BB, ''l''), (0x03BC, ''m''),
      (0x03BD, ''n''), (0x03BE, ''3''), (0x03BF, ''o''), (0x03C0, ''p''), (0x03C1, ''r''), (0x03C3, ''s''),
      (0x03C4, ''t''), (0x03C5, ''y''), (0x03C6, ''f''), (0x03C7, ''x''), (0x03C8, ''ps''), (0x03C9, ''w''),
      (0x03AC, ''a''), (0x03AD, ''e''), (0x03AF, ''i''), (0x03CC, ''o''), (0x03CD, ''y''), (0x03AE, ''h''),
      (0x03CE, ''w''), (0x03C2, ''s''), (0x03CA, ''i''), (0x03B0, ''y''), (0x03CB, ''y''), (0x0390, ''i''),
      (0x0391, ''A''), (0x0392, ''B''), (0x0393, ''G''), (0x0394, ''D''), (0x0395, ''E''), (0x0396, ''Z''),
      (0x0397, ''H''), (0x0398, ''8''), (0x0399, ''I''), (0x039A, ''K''), (0x039B, ''L''), (0x039C, ''M''),
      (0x039D, ''N''), (0x039E, ''3''), (0x039F, ''O''), (0x03A0, ''P''), (0x03A1, ''R''), (0x03A3, ''S''),
      (0x03A4, ''T''), (0x03A5, ''Y''), (0x03A6, ''F''), (0x03A7, ''X''), (0x03A8, ''PS''), (0x03A9, ''W''),
      (0x0386, ''A''), (0x0388, ''E''), (0x038A, ''I''), (0x038C, ''O''), (0x038E, ''Y''), (0x0389, ''H''),
      (0x038F, ''W''), (0x03AA, ''I''), (0x03AB, ''Y'')]"

definition TURKISH_MAP :: "(nat \<times> string) list" where
  "TURKISH_MAP =
     [(0x015F, ''s''), (0x015E, ''S''), (0x0131, ''i''), (0x0130, ''I''), (0x00E7, ''c''), (0x00C7, ''C''),
      (0x00FC, ''u''), (0x00DC, ''U''), (0x00F6, ''o''), (0x00D6, ''O''), (0x011F, ''g''), (0x011E, ''G'')]"

definition ROMANIAN_MAP :: "(nat \<times> string) list" where
  "ROMANIAN_MAP =
     [(0x0103, ''a''), (0x00EE, ''i''), (0x0219, ''s''), (0x021B, ''t''), (0x00E2, ''a''), (0x0102, ''A''),
      (0x00CE, ''I''), (0x0218, ''S''), (0x021A, ''T''), (0x00C2, ''A'')]"

definition RUSSIAN_MAP :: "(nat \<times> string) list" where
  "RUSSIAN_MAP =
     [(0x0430, ''a''), (0x0431, ''b''), (0x0432, ''v''), (0x0433, ''g''), (0x0434, ''d''), (0x0435, ''e''),
      (0x0451, ''yo''), (0x0436, ''zh''), (0x0437, ''z''), (0x0438, ''i''), (0x0439, ''j''), (0x043A, ''k''),
      (0x043B, ''l''), (0x043C, ''m''), (0x043D, ''n''), (0x043E, ''o''), (0x043F, ''p''), (0x0440, ''r''),
      (0x0441, ''s''), (0x0442, ''t''), (0x0443, ''u''), (0x0444, ''f''), (0x0445, ''h''), (0x0446, ''c''),
      (0x0447, ''ch''), (0x0448, ''sh''), (0x0449, ''sh''), (0x044A, ''''), (0x044B, ''y''), (0x044C, ''''),
      (0x044D, ''e''), (0x044E, ''yu''), (0x044F, ''ya''), (0x0410, ''A''), (0x0411, ''B''), (0x0412, ''V''),
      (0x0413, ''G''), (0x0414, ''D''), (0x0415, ''E''), (0x0401, ''Yo''), (0x0416, ''Zh''), (0x0417, ''Z''),
      (0x0418, ''I''), (0x0419, ''J''), (0x041A, ''K''), (0x041B, ''L''), (0x041C, ''M''), (0x041D, ''N''),
      (0x041E, ''O''), (0x041F, ''P''), (0x0420, ''R''), (0x0421, ''S''), (0x0422, ''T''), (0x0423, ''U''),
      (0x0424, ''F''), (0x0425, ''H''), (0x0426, ''C''), (0x0427, ''Ch''), (0x0428, ''Sh''), (0x0429, ''Sh''),
      (0x042A, ''''), (0x042B, ''Y''), (0x042C, ''''), (0x042D, ''E''), (0x042E, ''Yu''), (0x042F, ''Ya'')]"

definition UKRAINIAN_MAP :: "(nat \<times> string) list" where
  "UKRAINIAN_MAP =
     [(0x0404, ''Ye''), (0x0406, ''I''), (0x0407, ''Yi''), (0x0490, ''G''), (0x0454, ''ye''), (0x0456, ''i''),
      (0x0457, ''yi''), (0x0491, ''g'')]"

definition CZECH_MAP :: "(nat \<times> string) list" where
  "CZECH_MAP =
     [(0x010D, ''c''), (0x010F, ''d''), (0x011B, ''e''), (0x0148, ''n''), (0x0159, ''r''), (0x0161, ''s''),
      (0x0165, ''t''), (0x016F, ''u''), (0x017E, ''z''), (0x010C, ''C''), (0x010E, ''D''), (0x011A, ''E''),
      (0x0147, ''N''), (0x0158, ''R''), (0x0160, ''S''), (0x0164, ''T''), (0x016E, ''U''), (0x017D, ''Z'')]"

definition SLOVAK_MAP :: "(nat \<times> string) list" where
  "SLOVAK_MAP =
     [(0x00E1, ''a''), (0x00E4, ''a''), (0x010D, ''c''), (0x010F, ''d''), (0x00E9, ''e''), (0x00ED, ''i''),
      (0x013E, ''l''), (0x013A, ''l''), (0x0148, ''n''), (0x00F3, ''o''), (0x00F4, ''o''), (0x0155, ''r''),
      (0x0161, ''s''), (0x0165, ''t''), (0x00FA, ''u''), (0x00FD, ''y''), (0x017E, ''z''), (0x00C1, ''a''),
      (0x00C4, ''A''), (0x010C, ''C''), (0x010E, ''D''), (0x00C9, ''E''), (0x00CD, ''I''), (0x013D, ''L''),
      (0x0139, ''L''), (0x0147, ''N''), (0x00D3, ''O''), (0x00D4, ''O''), (0x0154, ''R''), (0x0160, ''S''),
      (0x0164, ''T''), (0x00DA, ''U''), (0x00DD, ''Y''), (0x017D, ''Z'')]"

definition POLISH_MAP :: "(nat \<times> string) list" where
  "POLISH_MAP =
     [(0x0105, ''a''), (0x0107, ''c''), (0x0119, ''e''), (0x0142, ''l''), (0x0144, ''n''), (0x00F3, ''o''),
      (0x015B, ''s''), (0x017A, ''z''), (0x017C, ''z''), (0x0104, ''A''), (0x0106, ''C''), (0x0118, ''E''),
      (0x0141, ''L''), (0x0143, ''N''), (0x00D3, ''O''), (0x015A, ''S''), (0x0179, ''Z''), (0x017B, ''Z'')]"

definition LATVIAN_MAP :: "(nat \<times> string) list" where
  "LATVIAN_MAP =
     [(0x0101, ''a''), (0x010D, ''c''), (0x0113, ''e''), (0x0123, ''g''), (0x012B, ''i''), (0x0137, ''k''),
      (0x013C, ''l''), (0x0146, ''n''), (0x0161, ''s''), (0x016B, ''u''), (0x017E, ''z''), (0x0100, ''A''),
      (0x010C, ''C''), (0x0112, ''E''), (0x0122, ''G''), (0x012A, ''I''), (0x0136, ''K''), (0x013B, ''L''),
      (0x0145, ''N''), (0x0160, ''S''), (0x016A, ''U''), (0x017D, ''Z'')]"

definition ARABIC_MAP :: "(nat \<times> string) list" where
  "ARABIC_MAP =
     [(0x0623, ''a''), (0x0628, ''b''), (0x062A, ''t''), (0x062B, ''th''), (0x062C, ''g''), (0x062D, ''h''),
      (0x062E, ''kh''), (0x062F, ''d''), (0x0630, ''th''), (0x0631, ''r''), (0x0632, ''z''), (0x0633, ''s''),
      (0x0634, ''sh''), (0x0635, ''s''), (0x0636, ''d''), (0x0637, ''t''), (0x0638, ''th''), (0x0639, ''aa''),
      (0x063A, ''gh''), (0x0641, ''f''), (0x0642, ''k''), (0x0643, ''k''), (0x0644, ''l''), (0x0645, ''m''),
      (0x0646, ''n''), (0x0647, ''h''), (0x0648, ''o''), (0x064A, ''y'')]"

definition LITHUANIAN_MAP :: "(nat \<times> string) list" where
  "LITHUANIAN_MAP =
     [(0x0105, ''a''), (0x010D, ''c''), (0x0119, ''e''), (0x0117, ''e''), (0x012F, ''i''), (0x0161, ''s''),
      (0x0173, ''u''), (0x016B, ''u''), (0x017E, ''z''), (0x0104, ''A''), (0x010C, ''C''), (0x0118, ''E''),
      (0x0116, ''E''), (0x012E, ''I''), (0x0160, ''S''), (0x0172, ''U''), (0x016A, ''U''), (0x017D, ''Z'')]"

definition SERBIAN_MAP :: "(nat \<times> string) list" where
  "SERBIAN_MAP =
     [(0x0452, ''dj''), (0x0458, ''j''), (0x0459, ''lj''), (0x045A, ''nj''), (0x045B, ''c''), (0x045F, ''dz''),
      (0x0111, ''dj''), (0x0402, ''Dj''), (0x0408, ''j''), (0x0409, ''Lj''), (0x040A, ''Nj''), (0x040B, ''C''),
      (0x040F, ''Dz''), (0x0110, ''Dj'')]"

definition AZERBAIJANI_MAP :: "(nat \<times> string) list" where
  "AZERBAIJANI_MAP =
     [(0x00E7, ''c''), (0x0259, ''e''), (0x011F, ''g''), (0x0131, ''i''), (0x00F6, ''o''), (0x015F, ''s''),
      (0x00FC, ''u''), (0x00C7, ''C''), (0x018F, ''E''), (0x011E, ''G''), (0x0130, ''I''), (0x00D6, ''O''),
      (0x015E, ''S''), (0x00DC, ''U'')]"

definition GEORGIAN_MAP :: "(nat \<times> string) list" where
  "GEORGIAN_MAP =
     [(0x10D0, ''a''), (0x10D1, ''b''), (0x10D2, ''g''), (0x10D3, ''d''), (0x10D4, ''e''), (0x10D5, ''v''),
      (0x10D6, ''z''), (0x10D7, ''t''), (0x10D8, ''i''), (0x10D9, ''k''), (0x10DA, ''l''), (0x10DB, ''m''),
      (0x10DC, ''n''), (0x10DD, ''o''), (0x10DE, ''p''), (0x10DF, ''j''), (0x10E0, ''r''), (0x10E1, ''s''),
      (0x10E2, ''t''), (0x10E3, ''u''), (0x10E4, ''f''), (0x10E5, ''q''), (0x10E6, ''g''), (0x10E7, ''y''),
      (0x10E8, ''sh''), (0x10E9, ''ch''), (0x10EA, ''c''), (0x10EB, ''dz''), (0x10EC, ''w''), (0x10ED, ''ch''),
      (0x10EE, ''x''), (0x10EF, ''j''), (0x10F0, ''h'')]"

definition ALL_DOWNCODE_MAPS :: "(nat \<times> string) list list" where
  "ALL_DOWNCODE_MAPS =
     [LATIN_MAP, LATIN_SYMBOLS_MAP, GREEK_MAP, TURKISH_MAP, ROMANIAN_MAP,
      RUSSIAN_MAP, UKRAINIAN_MAP, CZECH_MAP, SLOVAK_MAP, POLISH_MAP,
      LATVIAN_MAP, ARABIC_MAP, LITHUANIAN_MAP, SERBIAN_MAP, AZERBAIJANI_MAP,
      GEORGIAN_MAP]"

text \<open>The maps are merged one after the other: a later one overrides.\<close>

definition downcode_map :: "nat \<Rightarrow> string option" where
  "downcode_map = foldl (\<lambda>m lookup. m ++ map_of lookup) Map.empty ALL_DOWNCODE_MAPS"

definition downcode :: "utext \<Rightarrow> utext" where
  "downcode slug =
     concat (map (\<lambda>c. case downcode_map c of Some v \<Rightarrow> units v | None \<Rightarrow> [c]) slug)"

subsection \<open>URLify\<close>

text \<open>
  \<open>toLowerCase\<close>: exact for Latin-1 and for the two other letters whose lower case has a letter of
  ASCII in it.  Letters beyond are left alone; without Unicode slugs they are removed right after,
  in either case.
\<close>

definition lower_unit :: "nat \<Rightarrow> utext" where
  "lower_unit c =
     (if 65 \<le> c \<and> c \<le> 90 \<or> 192 \<le> c \<and> c \<le> 222 \<and> c \<noteq> 215 then [c + 32]
      else if c = 0x212A then [107]
      else if c = 0x0130 then [105, 775]
      else [c])"

definition to_lower :: "utext \<Rightarrow> utext" where
  "to_lower s = concat (map lower_unit s)"

text \<open>\<open>\w\<close> and \<open>\s\<close>\<close>

definition word_unit :: "nat \<Rightarrow> bool" where
  "word_unit c = (48 \<le> c \<and> c \<le> 57 \<or> 65 \<le> c \<and> c \<le> 90 \<or> 97 \<le> c \<and> c \<le> 122 \<or> c = 95)"

definition space_unit :: "nat \<Rightarrow> bool" where
  "space_unit c =
     (9 \<le> c \<and> c \<le> 13 \<or> 0x2000 \<le> c \<and> c \<le> 0x200A
      \<or> c \<in> {32, 160, 0x1680, 0x2028, 0x2029, 0x202F, 0x205F, 0x3000, 0xFEFF})"

abbreviation hyphen :: nat where
  "hyphen \<equiv> 45"

definition gap_unit :: "nat \<Rightarrow> bool" where
  "gap_unit c = (c = hyphen \<or> space_unit c)"

definition trim_spaces :: "utext \<Rightarrow> utext" where
  "trim_spaces s = rev (dropWhile space_unit (rev (dropWhile space_unit s)))"

text \<open>\<open>replace(/[-\s]+/g, '-')\<close>\<close>

function hyphenate :: "utext \<Rightarrow> utext" where
  "hyphenate s =
     (case s of
        [] \<Rightarrow> []
      | c # r \<Rightarrow>
          if gap_unit c then hyphen # hyphenate (dropWhile gap_unit r) else c # hyphenate r)"
  by pat_completeness auto
termination
  by (relation "measure length") (auto simp: le_imp_less_Suc length_dropWhile_le)

declare hyphenate.simps [simp del, code]

definition trim_hyphens :: "utext \<Rightarrow> utext" where
  "trim_hyphens s = rev (dropWhile (\<lambda>c. c = hyphen) (rev s))"

text \<open>A length of \<open>None\<close> is \<open>undefined\<close>, which cuts nothing.\<close>

definition cut :: "nat option \<Rightarrow> utext \<Rightarrow> utext" where
  "cut num_chars s = (case num_chars of Some n \<Rightarrow> take n s | None \<Rightarrow> s)"

definition URLify :: "(utext \<Rightarrow> utext) \<Rightarrow> utext \<Rightarrow> nat option \<Rightarrow> bool \<Rightarrow> utext" where
  "URLify xreplace s num_chars allowUnicode =
     (let s = (if \<not> allowUnicode then downcode s else s);
          s = to_lower s;
          s = (if allowUnicode then xreplace s
               else filter (\<lambda>c. c = hyphen \<or> word_unit c \<or> space_unit c) s);
          s = trim_spaces s;
          s = hyphenate s;
          s = cut num_chars s
      in trim_hyphens s)"

subsection \<open>The shape of a slug\<close>

definition slug_unit :: "nat \<Rightarrow> bool" where
  "slug_unit c = (48 \<le> c \<and> c \<le> 57 \<or> 97 \<le> c \<and> c \<le> 122 \<or> c = 95 \<or> c = hyphen)"

definition single_hyphens :: "utext \<Rightarrow> bool" where
  "single_hyphens s = successively (\<lambda>a b. \<not> (a = hyphen \<and> b = hyphen)) s"

definition is_slug :: "nat option \<Rightarrow> utext \<Rightarrow> bool" where
  "is_slug n u =
     (list_all slug_unit u \<and> single_hyphens u \<and> (u = [] \<or> last u \<noteq> hyphen)
      \<and> (case n of Some k \<Rightarrow> length u \<le> k | None \<Rightarrow> True))"

lemmas letter_maps =
  LATIN_MAP_def LATIN_SYMBOLS_MAP_def GREEK_MAP_def TURKISH_MAP_def ROMANIAN_MAP_def
  RUSSIAN_MAP_def UKRAINIAN_MAP_def CZECH_MAP_def SLOVAK_MAP_def POLISH_MAP_def
  LATVIAN_MAP_def ARABIC_MAP_def LITHUANIAN_MAP_def SERBIAN_MAP_def AZERBAIJANI_MAP_def
  GEORGIAN_MAP_def

lemma maps_beyond_ascii: "list_all (list_all (\<lambda>e. 128 \<le> fst e)) ALL_DOWNCODE_MAPS"
  by (simp add: ALL_DOWNCODE_MAPS_def letter_maps)

lemma downcode_map_ascii: "c < 128 \<Longrightarrow> downcode_map c = None"
proof -
  assume c: "c < 128"
  have "foldl (\<lambda>m lookup. m ++ map_of lookup) m ms c = m c"
    if "list_all (list_all (\<lambda>e. 128 \<le> fst e)) ms" for m :: "nat \<Rightarrow> string option" and ms
    using that
  proof (induction ms arbitrary: m)
    case (Cons l ms)
    have "map_of l c = None" using Cons.prems c by (auto simp: map_of_eq_None_iff list_all_iff)
    with Cons show ?case by (simp add: map_add_def)
  qed simp
  with maps_beyond_ascii show ?thesis by (simp add: downcode_map_def)
qed

lemma lower_not_upper: "x \<in> set (to_lower s) \<Longrightarrow> \<not> (65 \<le> x \<and> x \<le> 90)"
  by (auto simp: to_lower_def lower_unit_def split: if_splits)

lemma hyphenate_Nil [simp]: "hyphenate [] = []"
  by (simp add: hyphenate.simps)

lemma hyphenate_Cons:
  "hyphenate (c # r) = (if gap_unit c then hyphen # hyphenate (dropWhile gap_unit r) else c # hyphenate r)"
  by (simp add: hyphenate.simps [of "c # r"])

lemma hyphenate_units: "x \<in> set (hyphenate s) \<Longrightarrow> x = hyphen \<or> x \<in> set s \<and> \<not> gap_unit x"
proof (induction s rule: hyphenate.induct)
  case (1 s)
  show ?case
  proof (cases s)
    case (Cons c r)
    with 1 show ?thesis by (auto simp: hyphenate_Cons split: if_splits dest: set_dropWhileD)
  qed (use 1 in simp)
qed

lemma hyphenate_single: "single_hyphens (hyphenate s)"
proof (induction s rule: hyphenate.induct)
  case (1 s)
  show ?case
  proof (cases s)
    case (Cons c r)
    define d where "d = dropWhile gap_unit r"
    then have "d = [] \<or> \<not> gap_unit (hd d)" using hd_dropWhile [of gap_unit r] by auto
    then have "hyphenate d = [] \<or> hd (hyphenate d) \<noteq> hyphen"
      by (cases d) (auto simp: hyphenate_Cons gap_unit_def)
    then have "hyphenate (dropWhile gap_unit r) = [] \<or> hd (hyphenate (dropWhile gap_unit r)) \<noteq> hyphen"
      by (simp add: d_def)
    then show ?thesis
      using 1 Cons by (auto simp: hyphenate_Cons single_hyphens_def successively_Cons gap_unit_def)
  qed (simp add: single_hyphens_def)
qed

lemma single_take: "single_hyphens s \<Longrightarrow> single_hyphens (take n s)"
  unfolding single_hyphens_def by (metis append_take_drop_id successively_append_iff)

lemma trim_hyphens_take: "\<exists>n. trim_hyphens s = take n s"
proof -
  have "s = trim_hyphens s @ rev (takeWhile (\<lambda>c. c = hyphen) (rev s))"
    unfolding trim_hyphens_def by (metis rev_append rev_rev_ident takeWhile_dropWhile_id)
  then show ?thesis by (metis append_eq_conv_conj)
qed

lemma trim_hyphens_last: "trim_hyphens s = [] \<or> last (trim_hyphens s) \<noteq> hyphen"
  using hd_dropWhile [of "\<lambda>c. c = hyphen" "rev s"] by (auto simp: trim_hyphens_def last_rev)

lemma slug_shape: "is_slug n (URLify x s n False)"
proof -
  define t where "t = trim_spaces (filter (\<lambda>c. c = hyphen \<or> word_unit c \<or> space_unit c) (to_lower (downcode s)))"
  define h where "h = cut n (hyphenate t)"
  have u: "URLify x s n False = trim_hyphens h" by (simp add: URLify_def t_def h_def Let_def)
  have "set t \<subseteq> {c \<in> set (to_lower (downcode s)). c = hyphen \<or> word_unit c \<or> space_unit c}"
    unfolding t_def trim_spaces_def by (auto dest!: set_dropWhileD)
  then have "c \<in> set (hyphenate t) \<Longrightarrow> slug_unit c" for c
    using hyphenate_units [of c t] lower_not_upper [of c]
    by (auto simp: slug_unit_def word_unit_def gap_unit_def)
  moreover obtain k where k: "trim_hyphens h = take k h" using trim_hyphens_take by blast
  have "\<exists>m. h = take m (hyphenate t)"
    by (cases n) (auto simp: h_def cut_def intro: exI [of _ "length (hyphenate t)"])
  then obtain m where m: "h = take m (hyphenate t)" by blast
  then have "set (trim_hyphens h) \<subseteq> set (hyphenate t)"
    by (metis k set_take_subset subset_trans)
  ultimately have "list_all slug_unit (trim_hyphens h)" by (auto simp: list_all_iff)
  moreover have "single_hyphens h" unfolding m by (intro single_take hyphenate_single)
  then have "single_hyphens (trim_hyphens h)" by (simp only: k single_take)
  moreover have "case n of Some j \<Rightarrow> length (trim_hyphens h) \<le> j | None \<Rightarrow> True"
    using k by (cases n) (simp_all add: h_def cut_def)
  ultimately show ?thesis using trim_hyphens_last [of h] by (simp add: is_slug_def u)
qed

subsection \<open>Slugs are left alone\<close>

lemma slug_unit_facts:
  assumes "slug_unit c"
  shows "c < 128" and "lower_unit c = [c]" and "c = hyphen \<or> word_unit c" and "\<not> space_unit c"
    and "gap_unit c \<longleftrightarrow> c = hyphen"
  using assms by (auto simp: slug_unit_def lower_unit_def word_unit_def space_unit_def gap_unit_def)

lemma concat_map_id: "(\<And>c. c \<in> set s \<Longrightarrow> f c = [c]) \<Longrightarrow> concat (map f s) = s"
  by (induction s) auto

lemma hyphenate_id:
  assumes "list_all slug_unit s" and "single_hyphens s"
  shows "hyphenate s = s"
  using assms
proof (induction s)
  case (Cons c r)
  then have r: "hyphenate r = r" and c: "gap_unit c \<longleftrightarrow> c = hyphen"
    by (cases r; auto simp: single_hyphens_def slug_unit_facts(5))+
  show ?case
  proof (cases "c = hyphen")
    case True
    then have "r = [] \<or> hd r \<noteq> hyphen"
      using Cons.prems(2) by (cases r) (auto simp: single_hyphens_def)
    then have "dropWhile gap_unit r = r"
      using Cons.prems(1) by (cases r) (auto simp: slug_unit_facts(5))
    then show ?thesis using c r True by (simp add: hyphenate_Cons)
  qed (use c r in \<open>simp add: hyphenate_Cons\<close>)
qed simp

lemma dropWhile_none: "(\<And>c. c \<in> set s \<Longrightarrow> \<not> P c) \<Longrightarrow> dropWhile P s = s"
  by (cases s) auto

lemma URLify_id:
  assumes "is_slug n u"
  shows "URLify x u n False = u"
proof -
  have slug: "\<And>c. c \<in> set u \<Longrightarrow> slug_unit c" using assms by (simp add: is_slug_def list_all_iff)
  then have "downcode u = u"
    unfolding downcode_def by (intro concat_map_id) (simp add: downcode_map_ascii slug_unit_facts(1))
  moreover have "to_lower u = u"
    unfolding to_lower_def using slug by (intro concat_map_id) (simp add: slug_unit_facts(2))
  moreover have "filter (\<lambda>c. c = hyphen \<or> word_unit c \<or> space_unit c) u = u"
    using slug slug_unit_facts(3) by (intro filter_True) blast
  moreover have "dropWhile space_unit u = u" "dropWhile space_unit (rev u) = rev u"
    using slug slug_unit_facts(4) by (auto intro!: dropWhile_none)
  then have "trim_spaces u = u" by (simp add: trim_spaces_def)
  moreover have "hyphenate u = u"
    using assms by (intro hyphenate_id) (simp_all add: is_slug_def)
  moreover have "cut n u = u" using assms by (cases n) (auto simp: is_slug_def cut_def)
  moreover have "dropWhile (\<lambda>c. c = hyphen) (rev u) = rev u"
    using assms by (cases u rule: rev_cases) (auto simp: is_slug_def)
  then have "trim_hyphens u = u" by (simp add: trim_hyphens_def)
  ultimately show ?thesis by (simp add: URLify_def Let_def)
qed

text \<open>
  C26: what a slug is.  Without Unicode slugs, whatever the title, \<open>URLify\<close> returns small letters,
  digits, underscores and hyphens only, no hyphen next to another or at the end, and no more
  characters than asked for; and a slug it leaves as it is.
\<close>

theorem URLify_slug:
  "is_slug n (URLify x s n False) \<and> URLify x (URLify x s n False) n False = URLify x s n False"
  using slug_shape URLify_id by blast

text \<open>The letter A with an acute accent becomes a small letter before anything is made small: the
  Slovak table overrides the Latin one.\<close>

lemma foldl_map_of:
  "foldl (\<lambda>m lookup. m ++ map_of lookup) m ms c
    = foldl (\<lambda>r lookup. case map_of lookup c of None \<Rightarrow> r | Some v \<Rightarrow> Some v) (m c) ms"
  by (induction ms arbitrary: m) (simp_all add: map_add_def)

lemma downcode_map_code:
  "downcode_map c = foldl (\<lambda>r lookup. case map_of lookup c of None \<Rightarrow> r | Some v \<Rightarrow> Some v) None
     ALL_DOWNCODE_MAPS"
  by (simp only: downcode_map_def foldl_map_of)

lemma capital_lost: "downcode_map 0x00C1 = Some ''a''" "map_of LATIN_MAP 0x00C1 = Some ''A''"
  by (simp_all add: downcode_map_code ALL_DOWNCODE_MAPS_def letter_maps map_of_Cons_code
      del: map_of.simps)

subsection \<open>Prepopulated fields\<close>

text \<open>
  A field with the values it depends on.  It listens to them only if it was empty at the start;
  \<open>pp_changed\<close> is the mark a change by the user leaves.
\<close>

record prepop =
  pp_value :: utext
  pp_changed :: bool
  pp_listens :: bool
  pp_deps :: "utext list"

definition joined :: "utext list \<Rightarrow> utext" where
  "joined vs = (case filter (\<lambda>v. v \<noteq> []) vs of
     [] \<Rightarrow> [] | v # ws \<Rightarrow> v @ concat (map (\<lambda>w. 32 # w) ws))"

definition populate :: "(utext \<Rightarrow> utext) \<Rightarrow> nat option \<Rightarrow> bool \<Rightarrow> prepop \<Rightarrow> prepop" where
  "populate xreplace maxLength allowUnicode s =
     (if pp_changed s then s
      else s\<lparr>pp_value := URLify xreplace (joined (pp_deps s)) maxLength allowUnicode\<rparr>)"

definition prepopulate :: "utext \<Rightarrow> utext list \<Rightarrow> prepop" where
  "prepopulate v deps = \<lparr>pp_value = v, pp_changed = False, pp_listens = (v = []), pp_deps = deps\<rparr>"

text \<open>A key, a change or the focus in the field at \<open>i\<close> of those it depends on, which then has a
  value; or a value the user gives the field itself.\<close>

datatype prepop_event = Dependency nat utext | UserChange utext

definition prepop_handle ::
  "(utext \<Rightarrow> utext) \<Rightarrow> nat option \<Rightarrow> bool \<Rightarrow> prepop_event \<Rightarrow> prepop \<Rightarrow> prepop" where
  "prepop_handle xreplace maxLength allowUnicode e s =
     (case e of
        Dependency i v \<Rightarrow>
          (let s = s\<lparr>pp_deps := (pp_deps s)[i := v]\<rparr>
           in if pp_listens s then populate xreplace maxLength allowUnicode s else s)
      | UserChange v \<Rightarrow> s\<lparr>pp_value := v, pp_changed := True\<rparr>)"

fun last_change :: "prepop_event list \<Rightarrow> utext option" where
  "last_change [] = None"
| "last_change (e # es) =
     (case last_change es of Some v \<Rightarrow> Some v
      | None \<Rightarrow> (case e of UserChange v \<Rightarrow> Some v | Dependency _ _ \<Rightarrow> None))"

text \<open>What the field holds after the events so far.\<close>

definition prepop_inv :: "(utext \<Rightarrow> utext) \<Rightarrow> nat option \<Rightarrow> prepop_event list \<Rightarrow> prepop \<Rightarrow> bool" where
  "prepop_inv x n es s =
     (pp_listens s
      \<and> (case last_change es of
           Some v \<Rightarrow> pp_changed s \<and> pp_value s = v
         | None \<Rightarrow> \<not> pp_changed s
             \<and> pp_value s = (if es = [] then [] else URLify x (joined (pp_deps s)) n False)))"

lemma last_change_snoc:
  "last_change (es @ [e]) = (case e of UserChange v \<Rightarrow> Some v | Dependency _ _ \<Rightarrow> last_change es)"
  by (induction es) (auto split: prepop_event.split option.split)

lemma prepop_inv_run:
  "prepop_inv x n es (fold (prepop_handle x n False) es (prepopulate [] deps))"
proof (induction es rule: rev_induct)
  case Nil
  then show ?case by (simp add: prepop_inv_def prepopulate_def)
next
  case (snoc e es)
  then show ?case
    by (auto simp: prepop_inv_def last_change_snoc prepop_handle_def populate_def Let_def
        split: prepop_event.split option.splits)
qed

text \<open>
  C35: a prepopulated field.  A slug field that starts empty holds, after any typing in the fields it
  depends on, the slug of their values joined by spaces, empty ones left out; from the first change
  the user makes in it on it keeps what the user last gave it.  Until then it is a slug of at most
  the length asked for, which \<open>URLify\<close> itself would leave alone.
\<close>

theorem prepopulate_until_changed:
  assumes "s = fold (prepop_handle x n False) es (prepopulate [] deps)"
  shows "case last_change es of
      Some v \<Rightarrow> pp_value s = v
    | None \<Rightarrow> (es \<noteq> [] \<longrightarrow> pp_value s = URLify x (joined (pp_deps s)) n False)
        \<and> URLify x (pp_value s) n False = pp_value s"
proof -
  have "is_slug n (pp_value s)" if "last_change es = None"
  proof (cases "es = []")
    case True
    then show ?thesis using assms by (cases n) (auto simp: prepopulate_def is_slug_def single_hyphens_def)
  next
    case False
    with that prepop_inv_run [of x n es deps] have "pp_value s = URLify x (joined (pp_deps s)) n False"
      using assms by (simp add: prepop_inv_def)
    moreover have "is_slug n (URLify x (joined (pp_deps s)) n False)" by (rule slug_shape)
    ultimately show ?thesis by simp
  qed
  then show ?thesis
    using prepop_inv_run [of x n es deps] assms
    by (auto simp: prepop_inv_def URLify_id split: option.splits)
qed

definition sample_prepop :: prepop where
  "sample_prepop = fold (prepop_handle id (Some 5) False)
     [Dependency 0 (units ''Koded''), Dependency 1 (units ''Stack'')] (prepopulate [] [[], []])"

theorem prepopulate_until_changed_witness:
  "URLify id (pp_value sample_prepop) (Some 5) False = pp_value sample_prepop"
proof -
  have last: "last_change [Dependency 0 (units ''Koded''), Dependency 1 (units ''Stack'')] = None" by simp
  show ?thesis
    using prepopulate_until_changed [OF sample_prepop_def] unfolding last option.case by (rule conjunct2)
qed

end
