(* ===== verification/InlineWidgets.thy ===== *)
theory InlineWidgets
  imports Inlines SelectorBuild Slug DateShortcuts
begin

text \<open>
  What an inline formset puts on the page and starts in a form it adds
  (\<open>koded-cli/web/backend/staticfiles/admin/js/inlines.js\<close>): the links to add and to delete, the fields
  prepopulated from others of the same form, the clocks and calendars, the two-pane selectors.
  Numbering and limits are in \<open>Inlines\<close>.  \<open>dependency_list\<close>, a JSON text, is read by a parameter.
\<close>

subsection \<open>Options\<close>

record formset_options =
  fo_prefix :: string
  fo_addText :: string
  fo_deleteText :: string
  fo_addCssClass :: string
  fo_deleteCssClass :: string
  fo_emptyCssClass :: string
  fo_formCssClass :: string

definition formset_defaults :: formset_options where
  "formset_defaults =
     \<lparr>fo_prefix = ''form'', fo_addText = ''add another'', fo_deleteText = ''remove'', fo_addCssClass = ''add-row'',
      fo_deleteCssClass = ''delete-row'', fo_emptyCssClass = ''empty-row'', fo_formCssClass = ''dynamic-form''\<rparr>"

text \<open>The same for tabular and stacked formsets; what they do after an addition differs.\<close>

definition inline_options :: "string \<Rightarrow> string \<Rightarrow> string \<Rightarrow> formset_options" where
  "inline_options p addText deleteText =
     formset_defaults\<lparr>fo_prefix := p, fo_addText := addText, fo_formCssClass := ''dynamic-'' @ p,
       fo_deleteCssClass := ''inline-deletelink'', fo_deleteText := deleteText, fo_emptyCssClass := ''empty-form''\<rparr>"

subsection \<open>Links\<close>

text \<open>\<open>t\<close> is the tag of the forms' elements, \<open>cols\<close> the number of children of the last one.\<close>

definition role_link :: "string \<Rightarrow> string \<Rightarrow> JsView.node" where
  "role_link cl txt =
     Elem ''a'' (text_attrs [(''role'', ''button''), (''class'', cl), (''href'', ''#'')]) [Text txt]"

definition addInlineAddButton :: "formset_options \<Rightarrow> string \<Rightarrow> nat \<Rightarrow> JsView.node" where
  "addInlineAddButton opts t cols =
     (if t = ''tr''
      then Elem ''tr'' (text_attrs [(''class'', fo_addCssClass opts)])
             [Elem ''td'' (text_attrs [(''colspan'', show_nat cols)]) [role_link ''addlink'' (fo_addText opts)]]
      else Elem ''div'' (text_attrs [(''class'', fo_addCssClass opts)]) [role_link ''addlink'' (fo_addText opts)])"

definition edit_nth :: "nat \<Rightarrow> (JsView.node \<Rightarrow> JsView.node) \<Rightarrow> JsView.node \<Rightarrow> JsView.node" where
  "edit_nth k f n = update_at [k] f n"

text \<open>Elements only: the children of a form are taken to be elements, as jQuery counts them.\<close>

definition addDeleteLink :: "formset_options \<Rightarrow> JsView.node \<Rightarrow> JsView.node" where
  "addDeleteLink opts row =
     (let link = role_link (fo_deleteCssClass opts) (fo_deleteText opts); n = length (childNodes row)
      in if node_tag row = ''tr'' then edit_nth (n - 1) (\<lambda>c. appendChild c (Elem ''div'' [] [link])) row
         else if node_tag row = ''ul'' \<or> node_tag row = ''ol'' then appendChild row (Elem ''li'' [] [link])
         else edit_nth 0 (\<lambda>c. appendChild c (Elem ''span'' [] [link])) row)"

subsection \<open>Numbering the elements of a form\<close>

definition index_attrs :: "string \<Rightarrow> int \<Rightarrow> jsval obj \<Rightarrow> jsval obj" where
  "index_attrs p n a = map (\<lambda>(k, v). (k,
     if k \<in> {''for'', ''id'', ''name''} then (case v of JStr s \<Rightarrow> JStr (replace_attr p n s) | _ \<Rightarrow> v) else v)) a"

fun renumber :: "string \<Rightarrow> int \<Rightarrow> JsView.node \<Rightarrow> JsView.node" where
  "renumber p n (Text s) = Text s"
| "renumber p n (Elem t a ns) = Elem t (index_attrs p n a) (map (renumber p n) ns)"

definition renumber_inside :: "string \<Rightarrow> int \<Rightarrow> JsView.node \<Rightarrow> JsView.node" where
  "renumber_inside p n row =
     (case row of Text s \<Rightarrow> Text s | Elem t a ns \<Rightarrow> Elem t a (map (renumber p n) ns))"

definition swap_class :: "string \<Rightarrow> string \<Rightarrow> jsval obj \<Rightarrow> string" where
  "swap_class old new a =
     (let cs = filter (\<lambda>c. c \<noteq> old) (class_list a)
      in join_with '' '' (if new \<in> set cs then cs else cs @ [new]))"

text \<open>The element of a new form: a clone of the empty one, with the id of the next index, and a link.\<close>

definition cloned_form :: "formset_options \<Rightarrow> int \<Rightarrow> JsView.node \<Rightarrow> JsView.node" where
  "cloned_form opts nextIndex template =
     (case template of Text s \<Rightarrow> Text s
      | Elem t a ns \<Rightarrow>
          addDeleteLink opts
            (Elem t (obj_set ''id'' (JStr (fo_prefix opts @ ''-'' @ show_int nextIndex))
               (obj_set ''class'' (JStr (swap_class (fo_emptyCssClass opts) (fo_formCssClass opts) a)) a)) ns))"

definition new_form :: "formset_options \<Rightarrow> int \<Rightarrow> int \<Rightarrow> JsView.node \<Rightarrow> JsView.node" where
  "new_form opts nextIndex totalForms template =
     renumber_inside (fo_prefix opts) totalForms (cloned_form opts nextIndex template)"

subsection \<open>Prepopulated fields\<close>

text \<open>\<open>find\<close>, by the elements below one that pass a test, in the order of the document.\<close>

definition below :: "test \<Rightarrow> JsView.node \<Rightarrow> JsView.node list" where
  "below P n = filter (passes P) (concat (map elements (childNodes n)))"

definition is_input :: test where
  "is_input t a \<longleftrightarrow> t \<in> {''input'', ''select'', ''textarea''}"

definition id_of :: "JsView.node \<Rightarrow> string option" where
  "id_of n = (case n of Text s \<Rightarrow> None
     | Elem t a ns \<Rightarrow> (case map_of a ''id'' of Some (JStr s) \<Rightarrow> Some s | _ \<Rightarrow> None))"

text \<open>The attribute \<open>id\<close> of the first element of a collection.\<close>

definition first_id :: "JsView.node list \<Rightarrow> string option" where
  "first_id ns = (case ns of [] \<Rightarrow> None | n # _ \<Rightarrow> id_of n)"

record prepop_call =
  pc_inputs :: "string option list"
  pc_deps :: "string option list"
  pc_max :: "string option"

text \<open>What \<open>prepopulate\<close> selects the dependencies by.\<close>

definition dep_selector :: "string option \<Rightarrow> string" where
  "dep_selector d = (case d of None \<Rightarrow> ''#undefined'' | Some i \<Rightarrow> CHR ''#'' # i)"

text \<open>Where a form shows a field: in a stacked one below a row, else as the row itself.\<close>

definition field_elements :: "bool \<Rightarrow> JsView.node \<Rightarrow> string \<Rightarrow> JsView.node list" where
  "field_elements stacked row nm =
     (let c = ''field-'' @ nm
      in if stacked
         then (let es = concat (map (below (with_class c)) (below (with_class ''form-row'') row))
               in if es \<noteq> [] then es
                  else below (\<lambda>t a. with_class ''form-row'' t a \<and> with_class c t a) row)
         else below (with_class c) row)"

text \<open>
  The calls of \<open>prepopulate\<close> for one field.  Its dependency list is jQuery data of the input, which
  \<open>prepopulate_init.js\<close> puts on the inputs of the empty form and a copy with its data takes over; here it is
  an attribute that \<open>dl\<close> reads.
\<close>

definition prepop_of :: "(string \<Rightarrow> string list) \<Rightarrow> bool \<Rightarrow> JsView.node \<Rightarrow> JsView.node \<Rightarrow> prepop_call list" where
  "prepop_of dl stacked row field =
     (let ins = below is_input field;
          dependency_list = (case ins of [] \<Rightarrow> [] | i # _ \<Rightarrow> dl (get_attr ''data-dependency_list'' i));
          dependencies = map (\<lambda>nm. first_id (concat (map (below is_input) (field_elements stacked row nm))))
            dependency_list
      in if dependencies \<noteq> []
         then [\<lparr>pc_inputs = map id_of ins, pc_deps = dependencies,
                pc_max = (case ins of [] \<Rightarrow> None | i # _ \<Rightarrow>
                  (case i of Text s \<Rightarrow> None | Elem t a ns \<Rightarrow>
                    (case map_of a ''maxlength'' of Some (JStr s) \<Rightarrow> Some s | _ \<Rightarrow> None)))\<rparr>]
         else [])"

definition initPrepopulatedFields ::
  "(string \<Rightarrow> string list) \<Rightarrow> bool \<Rightarrow> JsView.node \<Rightarrow> prepop_call list" where
  "initPrepopulatedFields dl stacked row =
     concat (map (prepop_of dl stacked row) (below (with_class ''prepopulated_field'') row))"

subsection \<open>Clocks, calendars and selectors\<close>

text \<open>
  \<open>DateTimeShortcuts.init\<close> on a page that has shortcuts already: \<open>fs\<close> are the inputs now, \<open>pos\<close> says
  where those of before stand among them.  The boxes made before stay in the document.
\<close>

definition moved_box :: "(nat \<Rightarrow> nat) \<Rightarrow> box \<Rightarrow> box" where
  "moved_box pos b = b\<lparr>bx_field := pos (bx_field b)\<rparr>"

definition reinitDateTimeShortCuts ::
  "dt_env \<Rightarrow> int \<Rightarrow> (nat \<Rightarrow> nat) \<Rightarrow> dt_field list \<Rightarrow> dt_state \<Rightarrow> dt_state" where
  "reinitDateTimeShortCuts e t pos fs s =
     fold (add_shortcuts e t) [0..<length fs]
       (s\<lparr>inputs := fs, clocks := map (map_prod (moved_box pos) id) (clocks s),
          cals := map (map_prod (moved_box pos) id) (cals s), focused := map_option pos (focused s),
          timezoneOffset := (case serverOffset e of
             Some so \<Rightarrow> zone_offset (dt_zone e) t - so | None \<Rightarrow> timezoneOffset s)\<rparr>)"

definition selector_calls :: "string \<Rightarrow> bool \<Rightarrow> JsView.node \<Rightarrow> (string \<times> string \<times> bool) list" where
  "selector_calls c stacked doc =
     map (\<lambda>n. (get_attr ''id'' n, get_attr ''data-field-name'' n, stacked)) (below (with_class c) doc)"

definition updateSelectFilter :: "translation \<Rightarrow> selector_page \<Rightarrow> selector_page option" where
  "updateSelectFilter trn s =
     Option.bind (init_each trn (selector_calls ''selectfilter'' False (fst s)) s)
       (\<lambda>s. init_each trn (selector_calls ''selectfilterstacked'' True (fst s)) s)"

text \<open>
  The function \<open>added\<close> of both kinds of formset, after the form \<open>row\<close> is on the page; the labels of
  stacked ones are in \<open>Inlines\<close>.
\<close>

record inline_page =
  ip_prepop :: "prepop_call list"
  ip_dates :: dt_state
  ip_selectors :: selector_page

definition form_added ::
  "(string \<Rightarrow> string list) \<Rightarrow> bool \<Rightarrow> dt_env \<Rightarrow> int \<Rightarrow> (nat \<Rightarrow> nat) \<Rightarrow> dt_field list \<Rightarrow> translation
    \<Rightarrow> JsView.node \<Rightarrow> inline_page \<Rightarrow> inline_page option" where
  "form_added dl stacked e t pos fs trn row s =
     (let s = s\<lparr>ip_prepop := ip_prepop s @ initPrepopulatedFields dl stacked row\<rparr>;
          s = s\<lparr>ip_dates := reinitDateTimeShortCuts e t pos fs (ip_dates s)\<rparr>
      in map_option (\<lambda>d. s\<lparr>ip_selectors := d\<rparr>) (updateSelectFilter trn (ip_selectors s)))"

subsection \<open>The formsets of a page\<close>

text \<open>The forms of a formset by its type, below the element with the id of its group.\<close>

definition formset_rows :: "string \<Rightarrow> JsView.node \<Rightarrow> JsView.node list" where
  "formset_rows ty grp =
     (if ty = ''stacked'' then below (with_class ''inline-related'') grp
      else if ty = ''tabular''
      then (case concat (map (below (with_tag ''tbody''))
              (below (\<lambda>t a. with_class ''tabular'' t a \<and> with_class ''inline-related'' t a) grp)) of
              [] \<Rightarrow> []
            | tb # _ \<Rightarrow> filter (passes (\<lambda>t a. with_tag ''tr'' t a \<and> with_class ''form-row'' t a)) (childNodes tb))
      else [])"

subsection \<open>The fields of a new form depend on its own\<close>

text \<open>Tests that do not read what numbering changes.\<close>

definition unnumbered :: "test \<Rightarrow> bool" where
  "unnumbered P \<longleftrightarrow> (\<forall>p n t a. P t (index_attrs p n a) = P t a)"

lemma map_of_map_key: "map_of (map (\<lambda>(k, v). (k, g k v)) a) k = map_option (g k) (map_of a k)"
  by (induction a) auto

lemma map_of_index_attrs:
  "map_of (index_attrs p n a) k = map_option (\<lambda>v. if k \<in> {''for'', ''id'', ''name''}
     then (case v of JStr s \<Rightarrow> JStr (replace_attr p n s) | _ \<Rightarrow> v) else v) (map_of a k)"
  unfolding index_attrs_def by (rule map_of_map_key)

lemma attr_text_index [simp]:
  "k \<notin> {''for'', ''id'', ''name''} \<Longrightarrow> attr_text k (index_attrs p n a) = attr_text k a"
  by (cases "map_of a k") (simp_all add: attr_text_def map_of_index_attrs)

lemma unnumbered_tests:
  "unnumbered (with_class c)" "unnumbered (with_tag tg)" "unnumbered is_input"
  "unnumbered P \<Longrightarrow> unnumbered Q \<Longrightarrow> unnumbered (\<lambda>t a. P t a \<and> Q t a)"
  by (simp_all add: unnumbered_def with_class_def class_list_def with_tag_def is_input_def)

lemma passes_renumber: "unnumbered P \<Longrightarrow> passes P (renumber p n x) = passes P x"
  by (cases x) (simp_all add: unnumbered_def)

lemma elements_renumber: "elements (renumber p n x) = map (renumber p n) (elements x)"
proof (induction x)
  case (Elem t a ns)
  then have "map (\<lambda>x. elements (renumber p n x)) ns = map (\<lambda>x. map (renumber p n) (elements x)) ns" by simp
  then have "concat (map (\<lambda>x. elements (renumber p n x)) ns) = concat (map (\<lambda>x. map (renumber p n) (elements x)) ns)"
    by (rule arg_cong)
  then show ?case by (simp add: map_concat comp_def)
qed simp

lemma below_children:
  assumes "unnumbered P" and "childNodes y = map (renumber p n) (childNodes x)"
  shows "below P y = map (renumber p n) (below P x)"
proof -
  have "concat (map elements (childNodes y)) = map (renumber p n) (concat (map elements (childNodes x)))"
    by (simp add: assms(2) map_concat comp_def elements_renumber)
  then show ?thesis
    using passes_renumber [OF assms(1)] by (simp add: below_def filter_map comp_def)
qed

lemma below_renumber: "unnumbered P \<Longrightarrow> below P (renumber p n x) = map (renumber p n) (below P x)"
  by (rule below_children) (cases x; simp)+

lemma renumber_attrs:
  "id_of (renumber p n x) = map_option (replace_attr p n) (id_of x)"
  "get_attr ''data-dependency_list'' (renumber p n x) = get_attr ''data-dependency_list'' x"
  by (cases x; simp add: id_of_def attr_text_def map_of_index_attrs split: option.split jsval.split)+

lemma first_id_renumber: "first_id (map (renumber p n) xs) = map_option (replace_attr p n) (first_id xs)"
  by (cases xs) (simp_all add: first_id_def renumber_attrs)

lemma concat_below_renumber:
  "unnumbered P \<Longrightarrow> concat (map (below P) (map (renumber p n) xs)) = map (renumber p n) (concat (map (below P) xs))"
  by (induction xs) (simp_all add: below_renumber)

definition renumbered_call :: "string \<Rightarrow> int \<Rightarrow> prepop_call \<Rightarrow> prepop_call" where
  "renumbered_call p n c =
     c\<lparr>pc_inputs := map (map_option (replace_attr p n)) (pc_inputs c),
       pc_deps := map (map_option (replace_attr p n)) (pc_deps c)\<rparr>"

lemma if_map: "(if b then map f u else map f v) = map f (if b then u else v)"
  by simp

lemma field_elements_renumber:
  "childNodes y = map (renumber p n) (childNodes x) \<Longrightarrow>
     field_elements st y nm = map (renumber p n) (field_elements st x nm)"
proof -
  assume ch: "childNodes y = map (renumber p n) (childNodes x)"
  let ?c = "with_class (''field-'' @ nm)" and ?r = "with_class ''form-row''"
  have "concat (map (below ?c) (below ?r y)) = map (renumber p n) (concat (map (below ?c) (below ?r x)))"
    unfolding below_children [OF unnumbered_tests(1) ch] by (rule concat_below_renumber [OF unnumbered_tests(1)])
  moreover have "below ?c y = map (renumber p n) (below ?c x)"
    "below (\<lambda>t a. ?r t a \<and> ?c t a) y = map (renumber p n) (below (\<lambda>t a. ?r t a \<and> ?c t a) x)"
    by (rule below_children [OF _ ch], rule unnumbered_tests unnumbered_tests(4) [OF unnumbered_tests(1,1)])+
  ultimately show ?thesis unfolding field_elements_def Let_def by (simp only: map_is_Nil_conv if_map)
qed

lemma prepop_of_renumber:
  assumes "childNodes y = map (renumber p n) (childNodes x)"
  shows "prepop_of dl st y (renumber p n f) = map (renumbered_call p n) (prepop_of dl st x f)"
proof -
  have ins: "below is_input (renumber p n f) = map (renumber p n) (below is_input f)"
    by (simp add: below_renumber unnumbered_tests)
  have deps: "first_id (concat (map (below is_input) (field_elements st y nm)))
      = map_option (replace_attr p n) (first_id (concat (map (below is_input) (field_elements st x nm))))" for nm
    unfolding field_elements_renumber [OF assms] concat_below_renumber [OF unnumbered_tests(3)]
    by (rule first_id_renumber)
  have mx: "(case renumber p n i of Text s \<Rightarrow> None | Elem t a ns \<Rightarrow>
        (case map_of a ''maxlength'' of Some (JStr s) \<Rightarrow> Some s | _ \<Rightarrow> None))
      = (case i of Text s \<Rightarrow> None | Elem t a ns \<Rightarrow>
        (case map_of a ''maxlength'' of Some (JStr s) \<Rightarrow> Some s | _ \<Rightarrow> None))" for i
    by (cases i) (simp_all add: map_of_index_attrs split: option.split)
  show ?thesis
    by (cases "below is_input f")
      (simp_all add: prepop_of_def Let_def ins deps mx renumber_attrs renumbered_call_def)
qed

lemma childNodes_inside: "childNodes (renumber_inside p n x) = map (renumber p n) (childNodes x)"
  by (cases x) (simp_all add: renumber_inside_def)

lemma elements_trans: "x \<in> set (elements y) \<Longrightarrow> y \<in> set (elements z) \<Longrightarrow> x \<in> set (elements z)"
  by (induction z) auto

lemma below_trans: "x \<in> set (below P y) \<Longrightarrow> y \<in> set (below Q z) \<Longrightarrow> x \<in> set (below P z)"
proof -
  assume x: "x \<in> set (below P y)" and y: "y \<in> set (below Q z)"
  then obtain c where c: "c \<in> set (childNodes z)" "y \<in> set (elements c)" by (auto simp: below_def)
  have "x \<in> set (elements y)" using x by (cases y) (auto simp: below_def)
  with c x show ?thesis by (auto simp: below_def intro: elements_trans)
qed

lemma field_elements_below:
  "f \<in> set (field_elements st row nm) \<Longrightarrow> x \<in> set (below P f) \<Longrightarrow> x \<in> set (below P row)"
  by (auto simp: field_elements_def Let_def intro: below_trans split: if_splits)

lemma prepop_deps_inside:
  assumes "c \<in> set (initPrepopulatedFields dl st row)" and "Some d \<in> set (pc_deps c)"
  shows "\<exists>x \<in> set (below is_input row). id_of x = Some d"
proof -
  from assms obtain nm where "first_id (concat (map (below is_input) (field_elements st row nm))) = Some d"
    by (auto simp: initPrepopulatedFields_def prepop_of_def Let_def split: if_splits)
  then obtain x xs where c: "concat (map (below is_input) (field_elements st row nm)) = x # xs"
    and d: "id_of x = Some d" by (auto simp: first_id_def split: list.splits)
  have "x \<in> set (concat (map (below is_input) (field_elements st row nm)))" unfolding c by simp
  then obtain f where "f \<in> set (field_elements st row nm)" "x \<in> set (below is_input f)" by auto
  with d show ?thesis using field_elements_below by blast
qed

text \<open>
  C14: the fields of an added form follow its own.  The calls that start the prepopulated fields of a new
  form are those of the empty form it is a clone of, with the form's number in every id: of the fields
  and of the fields they depend on; and every dependency found is an element of the new form.
\<close>

theorem added_form_prepopulates:
  "initPrepopulatedFields dl st (new_form opts i n template)
     = map (renumbered_call (fo_prefix opts) n) (initPrepopulatedFields dl st (cloned_form opts i template))
   \<and> (\<forall>c \<in> set (initPrepopulatedFields dl st (new_form opts i n template)). \<forall>d.
        Some d \<in> set (pc_deps c) \<longrightarrow> (\<exists>x \<in> set (below is_input (new_form opts i n template)). id_of x = Some d))"
proof
  let ?y = "new_form opts i n template" and ?x = "cloned_form opts i template"
  have ch: "childNodes ?y = map (renumber (fo_prefix opts) n) (childNodes ?x)"
    by (simp add: new_form_def childNodes_inside)
  show "initPrepopulatedFields dl st ?y = map (renumbered_call (fo_prefix opts) n) (initPrepopulatedFields dl st ?x)"
    unfolding initPrepopulatedFields_def below_children [OF unnumbered_tests(1) ch]
    by (simp add: comp_def prepop_of_renumber [OF ch] map_concat)
  show "\<forall>c \<in> set (initPrepopulatedFields dl st ?y). \<forall>d. Some d \<in> set (pc_deps c) \<longrightarrow>
      (\<exists>x \<in> set (below is_input ?y). id_of x = Some d)"
    using prepop_deps_inside by blast
qed

text \<open>
  In a tabular formset of books, the slug of the second form follows the title of the second form.
\<close>

definition book_template :: JsView.node where
  "book_template = Elem ''tr'' (text_attrs [(''id'', ''book-empty''), (''class'', ''form-row empty-form'')])
     [Elem ''td'' (text_attrs [(''class'', ''field-title'')])
        [Elem ''input'' (text_attrs [(''id'', ''id_book-__prefix__-title'')]) []],
      Elem ''td'' (text_attrs [(''class'', ''field-slug prepopulated_field'')])
        [Elem ''input'' (text_attrs [(''id'', ''id_book-__prefix__-slug''), (''maxlength'', ''50''),
           (''data-dependency_list'', ''title'')]) []]]"

lemma second_book:
  "initPrepopulatedFields (\<lambda>s. [s]) False
     (new_form (inline_options ''book'' ''Add'' ''Remove'') 1 1 book_template)
   = [\<lparr>pc_inputs = [Some ''id_book-1-slug''], pc_deps = [Some ''id_book-1-title''], pc_max = Some ''50''\<rparr>]"
  by code_simp

theorem added_form_prepopulates_witness:
  "\<exists>x \<in> set (below is_input (new_form (inline_options ''book'' ''Add'' ''Remove'') 1 1 book_template)).
     id_of x = Some ''id_book-1-title''"
  using added_form_prepopulates [of "\<lambda>s. [s]" False "inline_options ''book'' ''Add'' ''Remove''" 1 1 book_template]
  unfolding second_book by simp

subsection \<open>Shortcuts and selectors after an addition\<close>

lemma reinit_ok:
  assumes "dt_ok s" and "\<forall>i < length (inputs s). pos i < length fs"
  shows "dt_ok (reinitDateTimeShortCuts e t pos fs s)"
proof -
  let ?s = "s\<lparr>inputs := fs, clocks := map (map_prod (moved_box pos) id) (clocks s),
      cals := map (map_prod (moved_box pos) id) (cals s), focused := map_option pos (focused s),
      timezoneOffset := (case serverOffset e of
         Some so \<Rightarrow> zone_offset (dt_zone e) t - so | None \<Rightarrow> timezoneOffset s)\<rparr>"
  have "dt_ok ?s"
    using assms by (auto simp: dt_ok_def list_all_iff clock_ok_def calbox_ok_def moved_box_def)
  then show ?thesis by (simp add: reinitDateTimeShortCuts_def dt_ok_fold)
qed

text \<open>The boxes of before are left on the page: every addition makes a new one for every field.\<close>

lemma boxes_accumulate:
  "length (clocks (reinitDateTimeShortCuts e t pos fs s)) + length (cals (reinitDateTimeShortCuts e t pos fs s))
    = length (clocks s) + length (cals s) + length (filter boxed fs)"
proof -
  have "length (filter boxed fs) = length (filter boxed (map ((!) fs) [0..<length fs]))" by (simp add: map_nth)
  then have "length (filter (\<lambda>i. boxed (fs ! i)) [0..<length fs]) = length (filter boxed fs)"
    by (simp add: filter_map comp_def)
  then show ?thesis by (simp add: reinitDateTimeShortCuts_def fold_boxes)
qed

text \<open>The selects of an empty form are left alone.\<close>

lemma empty_forms_untouched:
  "\<forall>(fid, fname, st) \<in> set xs. str_includes fid ''__prefix__'' \<Longrightarrow> init_each trn xs s = Some s"
  by (induction trn xs s rule: init_each.induct) (auto simp: selector_init_def)

end
