(* ===== verification/AdminScripts.thy ===== *)
theory AdminScripts
  imports InlineWidgets JsUri
begin

text \<open>
  The small scripts of the admin under \<open>koded-cli/web/backend/staticfiles/admin/js/\<close>: the link that leaves a page
  (\<open>cancel.js\<close>), the field focused first (\<open>change_form.js\<close>), the form that sets or removes a password
  (\<open>unusable_password_field.js\<close>), the start of the prepopulated fields (\<open>prepopulate_init.js\<close>) and of the
  autocompleted ones (\<open>autocomplete.js\<close>).
\<close>

subsection \<open>The cancel link\<close>

text \<open>
  The names in the query of an address, read as \<open>URLSearchParams\<close> does; \<open>dec\<close> is its decoding of percent
  signs, which never fails.
\<close>

definition query_names :: "(string \<Rightarrow> string) \<Rightarrow> string \<Rightarrow> string list" where
  "query_names dec q =
     (let s = (if take 1 q = ''?'' then drop 1 q else q)
      in map (\<lambda>p. dec (map (\<lambda>c. if c = CHR ''+'' then CHR '' '' else c) (takeWhile (\<lambda>c. c \<noteq> CHR ''='') p)))
           (filter (\<lambda>p. p \<noteq> []) (split_on (CHR ''&'') s)))"

datatype leaving = Close_popup | Go_back

definition cancel_click :: "(string \<Rightarrow> string) \<Rightarrow> string \<Rightarrow> leaving" where
  "cancel_click dec q = (if ''_popup'' \<in> set (query_names dec q) then Close_popup else Go_back)"

definition query_text :: "(string \<times> string) list \<Rightarrow> string" where
  "query_text ps = CHR ''?'' # join_with ''&'' (map (\<lambda>(k, v). encodeURIComponent k @ ''='' @ encodeURIComponent v) ps)"

lemma encode_plain: "c \<in> set (encodeURIComponent k) \<Longrightarrow> c \<noteq> CHR ''='' \<and> c \<noteq> CHR ''&'' \<and> c \<noteq> CHR ''+''"
  by (drule encode_safe) (auto simp: uri_safe_def uri_unescaped_def char_class_defs)

lemma query_names_text:
  assumes "\<And>s. dec (encodeURIComponent s) = s" and "ps \<noteq> []"
  shows "query_names dec (query_text ps) = map fst ps"
proof -
  let ?f = "\<lambda>(k, v). encodeURIComponent k @ ''='' @ encodeURIComponent v"
  have "\<forall>p \<in> set (map ?f ps). CHR ''&'' \<notin> set p" using encode_plain by fastforce
  then have "split_on (CHR ''&'') (join_with ''&'' (map ?f ps)) = map ?f ps"
    using split_on_join [of "map ?f ps" "CHR ''&''"] assms(2) by simp
  moreover have "filter (\<lambda>p. p \<noteq> []) (map ?f ps) = map ?f ps" by (auto simp: filter_id_conv)
  moreover have "dec (map (\<lambda>c. if c = CHR ''+'' then CHR '' '' else c) (takeWhile (\<lambda>c. c \<noteq> CHR ''='') (?f p))) = fst p" for p
  proof -
    obtain k v where p: "p = (k, v)" by fastforce
    have "takeWhile (\<lambda>c. c \<noteq> CHR ''='') (?f p) = encodeURIComponent k"
      using encode_plain [of _ k] by (simp add: p takeWhile_append2)
    moreover have "map (\<lambda>c. if c = CHR ''+'' then CHR '' '' else c) (encodeURIComponent k) = encodeURIComponent k"
      using encode_plain [of _ k] by (intro map_idI) auto
    ultimately show ?thesis by (simp add: p assms(1))
  qed
  ultimately show ?thesis by (simp add: query_names_def query_text_def)
qed

text \<open>A page in a popup is closed, any other is left for the one before.\<close>

lemma cancel_closes_popups:
  assumes "\<And>s. dec (encodeURIComponent s) = s" and "ps \<noteq> []"
  shows "cancel_click dec (query_text ps) = Close_popup \<longleftrightarrow> ''_popup'' \<in> fst ` set ps"
  by (simp add: cancel_click_def query_names_text [OF assms])

subsection \<open>The first field\<close>

text \<open>An element of a form: its tag, whether it is disabled, and whether it is rendered.\<close>

record form_item =
  fi_tag :: string
  fi_disabled :: bool
  fi_rendered :: bool

definition takes_input :: "form_item \<Rightarrow> bool" where
  "takes_input i \<longleftrightarrow> fi_tag i \<in> {''BUTTON'', ''INPUT'', ''SELECT'', ''TEXTAREA''} \<and> \<not> fi_disabled i \<and> fi_rendered i"

text \<open>The number of the element focused, for the elements of the form of a model's name.\<close>

fun first_input :: "nat \<Rightarrow> form_item list \<Rightarrow> nat option" where
  "first_input k [] = None"
| "first_input k (i # is) = (if takes_input i then Some k else first_input (Suc k) is)"

definition focus_first :: "string \<Rightarrow> (string \<Rightarrow> form_item list) \<Rightarrow> nat option" where
  "focus_first modelName form = (if modelName = [] then None else first_input 0 (form (modelName @ ''_form'')))"

lemma first_input_spec:
  "first_input k is = Some n \<longleftrightarrow>
     k \<le> n \<and> n - k < length is \<and> takes_input (is ! (n - k)) \<and> (\<forall>j < n - k. \<not> takes_input (is ! j))"
proof (induction "is" arbitrary: k)
  case (Cons i "is")
  show ?case
  proof (cases "n = k")
    case False
    then have "n - k = Suc (n - Suc k)" if "k \<le> n" using that by linarith
    with False Cons show ?thesis by (cases "k \<le> n") (auto simp: less_Suc_eq_0_disj)
  qed (use Cons in auto)
qed simp

subsection \<open>Setting or removing a password\<close>

text \<open>
  The options called \<open>usable_password\<close>, each its value and whether it is checked, and what is hidden: the fields of
  the password, the warning and the two buttons, where the page has them.  The script runs in browsers that cannot
  apply the rules of \<open>unusable_password_field.css\<close>.
\<close>

record password_form =
  pw_options :: "(string \<times> bool) list"
  pw_fields_hidden :: bool
  pw_warning_hidden :: "bool option"
  pw_buttons_hidden :: "(bool \<times> bool) option"

definition password_change :: "nat \<Rightarrow> password_form \<Rightarrow> password_form" where
  "password_change i f =
     (let (v, checked) = pw_options f ! i;
          usablePassword = (if v = ''true'' then checked else \<not> checked)
      in f\<lparr>pw_fields_hidden := \<not> usablePassword,
           pw_warning_hidden := map_option (\<lambda>_. usablePassword) (pw_warning_hidden f),
           pw_buttons_hidden := map_option (\<lambda>_. (\<not> usablePassword, usablePassword)) (pw_buttons_hidden f)\<rparr>)"

definition password_init :: "password_form \<Rightarrow> password_form" where
  "password_init f = fold password_change [0..<length (pw_options f)] f"

text \<open>Choosing an option checks it and no other, and its change is reported when it was not checked before.\<close>

definition choose_option :: "nat \<Rightarrow> password_form \<Rightarrow> password_form" where
  "choose_option i f =
     (if i < length (pw_options f) \<and> \<not> snd (pw_options f ! i)
      then password_change i
        (f\<lparr>pw_options := map (\<lambda>(j, v, c). (v, j = i)) (enumerate 0 (pw_options f))\<rparr>)
      else f)"

text \<open>What the rules of the style sheet hide: by the option that is checked.\<close>

definition css_hides :: "password_form \<Rightarrow> bool \<times> bool option \<times> (bool \<times> bool) option" where
  "css_hides f =
     (let yes = (''true'', True) \<in> set (pw_options f); no = (''false'', True) \<in> set (pw_options f)
      in (no, map_option (\<lambda>_. yes) (pw_warning_hidden f), map_option (\<lambda>_. (no, yes)) (pw_buttons_hidden f)))"

definition script_hides :: "password_form \<Rightarrow> bool \<times> bool option \<times> (bool \<times> bool) option" where
  "script_hides f = (pw_fields_hidden f, pw_warning_hidden f, pw_buttons_hidden f)"

text \<open>The two options of the page, of which one is checked.\<close>

definition two_options :: "password_form \<Rightarrow> bool" where
  "two_options f \<longleftrightarrow>
     pw_options f \<in> {[(''true'', True), (''false'', False)], [(''true'', False), (''false'', True)]}"

lemma two_options_cases:
  assumes "two_options f"
  obtains "pw_options f = [(''true'', True), (''false'', False)]" | "pw_options f = [(''true'', False), (''false'', True)]"
  using assms by (auto simp: two_options_def)

lemmas password_defs = two_options_def password_init_def password_change_def choose_option_def script_hides_def css_hides_def

lemma init_hides:
  assumes "two_options f"
  shows "two_options (password_init f) \<and> script_hides (password_init f) = css_hides (password_init f)"
  using assms by (cases rule: two_options_cases) (simp_all add: password_defs option.map_comp o_def Let_def)

lemma choose_hides:
  assumes "two_options f \<and> script_hides f = css_hides f"
  shows "two_options (choose_option i f) \<and> script_hides (choose_option i f) = css_hides (choose_option i f)"
proof -
  consider "i = 0" | "i = 1" | "2 \<le> i" by linarith
  then show ?thesis
  proof cases
    case 3
    then have "choose_option i f = f" using assms by (auto simp: choose_option_def two_options_def)
    with assms show ?thesis by simp
  qed (use assms in \<open>cases rule: two_options_cases [OF conjunct1 [OF assms]];
      simp add: password_defs option.map_comp o_def Let_def\<close>)+
qed

interpretation password: event_machine choose_option "\<lambda>f. two_options f \<and> script_hides f = css_hides f"
  by unfold_locales (rule choose_hides)

text \<open>
  The script does what the style sheet would.  From a page with the two options, of which one is checked, after the
  script has started and whatever is chosen, the password's fields, the warning and the buttons are hidden exactly as the
  rules of the style sheet say.
\<close>

theorem password_as_css:
  assumes "two_options f" and "f' = fold choose_option is (password_init f)"
  shows "script_hides f' = css_hides f' \<and> two_options f'"
  using password.run_invar [OF init_hides [OF assms(1)]] assms(2) by blast

definition sample_password :: password_form where
  "sample_password = \<lparr>pw_options = [(''true'', False), (''false'', True)], pw_fields_hidden = False,
     pw_warning_hidden = Some False, pw_buttons_hidden = None\<rparr>"

theorem password_as_css_witness:
  "css_hides (fold choose_option [0] (password_init sample_password)) = (False, Some True, None)
   \<and> script_hides (fold choose_option [0] (password_init sample_password)) = (False, Some True, None)"
proof -
  have "two_options sample_password" by (simp add: two_options_def sample_password_def)
  from password_as_css [OF this refl, of "[0]"]
  have "script_hides (fold choose_option [0] (password_init sample_password))
    = css_hides (fold choose_option [0] (password_init sample_password))" by blast
  moreover have "css_hides (fold choose_option [0] (password_init sample_password)) = (False, Some True, None)"
    by code_simp
  ultimately show ?thesis by simp
qed

text \<open>With no option checked the script goes by the last option, where the rules hide nothing.\<close>

lemma none_checked_differs:
  "pw_options f = [(''true'', False), (''false'', False)] \<Longrightarrow> pw_warning_hidden f = Some w \<Longrightarrow>
     pw_warning_hidden (password_init f) = Some True \<and> fst (snd (css_hides (password_init f))) = Some False"
  by (simp add: password_init_def password_change_def css_hides_def)

subsection \<open>Starting the prepopulated fields\<close>

text \<open>
  What the page says about a prepopulated field: its id, its name, the names of the fields it is made from and their
  ids, and how it is made.  \<open>enc\<close> writes the list of names into the data of the element.
\<close>

record prepopulated =
  pf_id :: string
  pf_name :: string
  pf_list :: "string list"
  pf_ids :: "string list"
  pf_max :: int
  pf_unicode :: bool

definition add_class :: "string \<Rightarrow> jsval obj \<Rightarrow> jsval obj" where
  "add_class c a = (if c \<in> set (class_list a) then a else obj_set ''class'' (JStr (join_with '' '' (class_list a @ [c]))) a)"

text \<open>
  The rows of a field in an empty form: below a row of one, below an empty form that is a row, or itself a row of one.
  \<open>e\<close>, \<open>er\<close> and \<open>ef\<close> say whether an element above is an empty form, a row of one, or both.
\<close>

definition field_row :: "string \<Rightarrow> bool \<Rightarrow> bool \<Rightarrow> bool \<Rightarrow> test" where
  "field_row nm e er ef t a \<longleftrightarrow> with_class (''field-'' @ nm) t a \<and> (er \<or> ef \<or> e \<and> with_class ''form-row'' t a)"

fun mark :: "string \<Rightarrow> bool \<Rightarrow> bool \<Rightarrow> bool \<Rightarrow> JsView.node \<Rightarrow> JsView.node" where
  "mark nm e er ef (Text s) = Text s"
| "mark nm e er ef (Elem t a ns) =
     (let row = with_class ''form-row'' t a; emp = with_class ''empty-form'' t a
      in Elem t (if field_row nm e er ef t a then add_class ''prepopulated_field'' a else a)
           (map (mark nm (e \<or> emp) (er \<or> e \<and> row) (ef \<or> emp \<and> row)) ns))"

fun set_dependencies :: "string \<Rightarrow> string \<Rightarrow> JsView.node \<Rightarrow> JsView.node" where
  "set_dependencies i v (Text s) = Text s"
| "set_dependencies i v (Elem t a ns) =
     Elem t (if with_attr ''id'' i t a then obj_set ''data-dependency_list'' (JStr v) a else a) (map (set_dependencies i v) ns)"

text \<open>The calls of \<open>prepopulate\<close>, for the elements of the id, with the marked page.\<close>

definition prepopulate_field ::
  "(string list \<Rightarrow> string) \<Rightarrow> prepopulated \<Rightarrow> JsView.node \<times> (string \<times> string list \<times> int \<times> bool) list
     \<Rightarrow> JsView.node \<times> (string \<times> string list \<times> int \<times> bool) list" where
  "prepopulate_field enc f st =
     (let (page, starts) = st
      in (set_dependencies (pf_id f) (enc (pf_list f)) (mark (pf_name f) False False False page),
          starts @ map (\<lambda>_. (pf_id f, pf_ids f, pf_max f, pf_unicode f)) (els (with_attr ''id'' (pf_id f)) page)))"

definition prepopulate_init ::
  "(string list \<Rightarrow> string) \<Rightarrow> prepopulated list \<Rightarrow> JsView.node \<Rightarrow> JsView.node \<times> (string \<times> string list \<times> int \<times> bool) list" where
  "prepopulate_init enc fs page = fold (prepopulate_field enc) fs (page, [])"

subsection \<open>Autocompleted fields\<close>

text \<open>The parameters of a request for choices: what is typed, the page, and the field.\<close>

definition select2_data :: "string \<Rightarrow> int \<Rightarrow> JsView.node \<Rightarrow> (string \<times> string) list" where
  "select2_data term page el =
     [(''term'', term), (''page'', show_int page), (''app_label'', get_attr ''data-app-label'' el),
      (''model_name'', get_attr ''data-model-name'' el), (''field_name'', get_attr ''data-field-name'' el)]"

definition autocomplete :: test where
  "autocomplete = with_class ''admin-autocomplete''"

definition contains_text :: "string \<Rightarrow> string \<Rightarrow> bool" where
  "contains_text d s = list_ex (\<lambda>k. starts_with (drop k s) d) [0..<Suc (length s)]"

text \<open>The elements started when the page is ready, and when a form is added.\<close>

definition autocomplete_ready :: "JsView.node \<Rightarrow> JsView.node list" where
  "autocomplete_ready page =
     els (\<lambda>t a. autocomplete t a \<and> \<not> contains_text ''__prefix__'' (attr_text ''name'' a)) page"

definition autocomplete_added :: "JsView.node \<Rightarrow> JsView.node list" where
  "autocomplete_added row = below autocomplete row"

subsection \<open>What is started\<close>

lemma class_words: "c \<in> set (class_list a) \<Longrightarrow> c \<noteq> [] \<and> (\<forall>x \<in> set c. \<not> is_ws x)"
  using split_by_parts by (fastforce simp: class_list_def)

lemma join_words:
  "\<forall>c \<in> set cs. c \<noteq> [] \<and> (\<forall>x \<in> set c. \<not> is_ws x) \<Longrightarrow>
     filter (\<lambda>w. w \<noteq> []) (split_by is_ws (join_with '' '' cs)) = cs"
proof (induction cs)
  case (Cons c cs)
  show ?case
  proof (cases "cs = []")
    case True
    with Cons.prems show ?thesis by (simp add: split_by_none)
  next
    case False
    have "split_by is_ws (c @ CHR '' '' # join_with '' '' cs) = c # split_by is_ws (join_with '' '' cs)"
      using Cons.prems by (intro split_by_append) (auto simp: is_ws_def)
    with False Cons show ?thesis by (simp add: join_with_Cons)
  qed
qed simp

lemma add_class_list:
  assumes "c \<noteq> []" and "\<forall>x \<in> set c. \<not> is_ws x"
  shows "with_class d t (add_class c a) \<longleftrightarrow> d = c \<or> with_class d t a"
proof -
  have "class_list (obj_set ''class'' (JStr (join_with '' '' (class_list a @ [c]))) a) = class_list a @ [c]"
    using join_words [of "class_list a @ [c]"] class_words assms by (simp add: class_list_def [of "obj_set _ _ _"] attr_text_def)
  then show ?thesis by (auto simp: with_class_def add_class_def)
qed

lemma prepopulated_word: "''prepopulated_field'' \<noteq> []" "\<forall>x \<in> set ''prepopulated_field''. \<not> is_ws x"
  by (simp_all add: is_ws_def)

lemma counts_map:
  assumes "\<And>x. x \<in> set ns \<Longrightarrow> f (g x) = h x"
  shows "sum_list (map (f \<circ> g) ns) = sum_list (map h ns)"
proof -
  have "map (f \<circ> g) ns = map h ns" using assms by simp
  then show ?thesis by (rule arg_cong)
qed

lemma mark_class:
  assumes "d \<noteq> ''prepopulated_field''"
  shows "count_els (with_class d) (mark nm e er ef n) = count_els (with_class d) n"
proof (induction nm e er ef n rule: mark.induct)
  case (2 nm e er ef t a ns)
  note sum = counts_map [of ns "count_els (with_class d)" _ "count_els (with_class d)", OF 2 [OF refl refl]]
  show ?case using assms by (simp add: add_class_list [OF prepopulated_word] Let_def sum)
qed simp

text \<open>
  In a form of a table, where the empty form is itself a row, the elements marked are those of the field, and those
  that were; \<open>initPrepopulatedFields\<close> of a form made from it finds them.
\<close>

lemma mark_in_row:
  "count_els (with_class ''prepopulated_field'') (mark nm e er True n)
    = count_els (\<lambda>t a. with_class ''prepopulated_field'' t a \<or> with_class (''field-'' @ nm) t a) n"
proof (induction nm e er True n rule: mark.induct)
  case (2 nm e er t a ns)
  have "count_els (with_class ''prepopulated_field'') (mark nm e' er' (True \<or> ef') x)
    = count_els (\<lambda>t a. with_class ''prepopulated_field'' t a \<or> with_class (''field-'' @ nm) t a) x"
    if "x \<in> set ns" "e' = (e \<or> with_class ''empty-form'' t a)" "er' = (er \<or> e \<and> with_class ''form-row'' t a)"
      for x e' er' ef'
    using 2 [OF refl refl that(1)] that by simp
  note sum = counts_map [of ns "count_els (with_class ''prepopulated_field'')" _
      "count_els (\<lambda>t a. with_class ''prepopulated_field'' t a \<or> with_class (''field-'' @ nm) t a)", OF this [OF _ refl refl]]
  show ?case by (auto simp: add_class_list [OF prepopulated_word] field_row_def Let_def sum [simplified])
qed simp

text \<open>Outside the empty forms nothing is marked.\<close>

lemma mark_outside: "count_els (with_class ''empty-form'') n = 0 \<Longrightarrow> mark nm False False False n = n"
proof (induction n)
  case (Elem t a ns)
  then have "map (mark nm False False False) ns = ns" by (intro map_idI) (auto simp: in_set_conv_decomp)
  moreover have "\<not> with_class ''empty-form'' t a" using Elem.prems by (simp split: if_splits)
  ultimately show ?case by (simp add: field_row_def)
qed simp

text \<open>Numbering a form leaves its autocompleted fields, so each of them is started when the form is added.\<close>

lemma index_attrs_class: "attr_text ''class'' (index_attrs p n a) = attr_text ''class'' a"
  by (induction a) (auto simp: index_attrs_def attr_text_def)

lemma renumber_autocomplete: "count_els autocomplete (renumber p n x) = count_els autocomplete x"
proof (induction p n x rule: renumber.induct)
  case (2 p n t a ns)
  have "autocomplete t (index_attrs p n a) = autocomplete t a"
    by (simp add: autocomplete_def with_class_def class_list_def index_attrs_class)
  then show ?case using counts_map [of ns "count_els autocomplete" _ "count_els autocomplete", OF 2] by simp
qed simp

end
