(* ===== verification/UrlParse.thy ===== *)
theory UrlParse
  imports JsUri JsValue
begin

text \<open>
  The URL library of the API client, modules 17 to 20 of
  \<open>koded-cli/web/backend/staticfiles/rest_framework/js/coreapi-0.1.1.js\<close>: query strings, default
  ports, and parsing, resolving, changing and printing URLs.
\<close>

subsection \<open>Query strings\<close>

definition qs_delim :: "char \<Rightarrow> bool" where
  "qs_delim c = (c = CHR ''='' \<or> c = CHR ''?'' \<or> c = CHR ''&'')"

text \<open>
  The matches of the regular expression, one after the other: a key of characters that are no
  delimiters, then perhaps an equals sign, then a value that runs up to the next ampersand.  A
  component that does not decode throws (\<open>None\<close>).
\<close>

definition qs_value :: "string \<Rightarrow> string" where
  "qs_value r =
     (let r1 = dropWhile (\<lambda>c. \<not> qs_delim c) r
      in if r1 \<noteq> [] \<and> hd r1 = CHR ''='' then tl r1 else r1)"

lemma qs_step_less:
  assumes "dropWhile qs_delim q \<noteq> []"
  shows "length (dropWhile (\<lambda>c. c \<noteq> CHR ''&'') (qs_value (dropWhile qs_delim q))) < length q"
proof -
  let ?r = "dropWhile qs_delim q" and ?n = "\<lambda>c. \<not> qs_delim c"
  obtain c s where r: "?r = c # s" "\<not> qs_delim c"
    using assms hd_dropWhile [of qs_delim q] by (cases ?r) auto
  have "length (dropWhile ?n ?r) \<le> length s" by (simp add: r length_dropWhile_le)
  then have "length (qs_value ?r) \<le> length s" by (auto simp: qs_value_def Let_def)
  moreover have "length ?r \<le> length q" by (rule length_dropWhile_le)
  moreover have "length (dropWhile (\<lambda>c. c \<noteq> CHR ''&'') (qs_value ?r)) \<le> length (qs_value ?r)"
    by (rule length_dropWhile_le)
  ultimately show ?thesis using r(1) by simp
qed

function qs_loop :: "string \<Rightarrow> string obj \<Rightarrow> string obj option" where
  "qs_loop q result =
     (let r = dropWhile qs_delim q;
          k = takeWhile (\<lambda>c. \<not> qs_delim c) r;
          v = takeWhile (\<lambda>c. c \<noteq> CHR ''&'') (qs_value r)
      in if r = [] then Some result
         else (case (decodeURIComponent k, decodeURIComponent v) of
                 (Some k', Some v') \<Rightarrow>
                   qs_loop (dropWhile (\<lambda>c. c \<noteq> CHR ''&'') (qs_value r)) (obj_set k' v' result)
               | _ \<Rightarrow> None))"
  by pat_completeness auto
termination
proof (relation "measure (\<lambda>(q, _). length q)", goal_cases)
  case 1
  show ?case by simp
next
  case 2
  then show ?case by (simp add: qs_step_less)
qed

declare qs_loop.simps [simp del]

definition querystring :: "string \<Rightarrow> string obj option" where
  "querystring q = qs_loop q []"

text \<open>\<open>prefix\<close> is a string here, as every caller has it.\<close>

definition querystringify :: "jsval obj \<Rightarrow> string \<Rightarrow> string" where
  "querystringify ob prefix =
     (let pairs = map (\<lambda>(k, v). encodeURIComponent k @ ''='' @ encodeURIComponent (to_string v))
                    (own_entries ob)
      in if pairs \<noteq> [] then prefix @ join_with ''&'' pairs else [])"

subsection \<open>Default ports\<close>

text \<open>The port comes as a string of digits or empty; an empty one, or 0, needs no port.\<close>

definition required_port :: "string \<Rightarrow> string \<Rightarrow> bool" where
  "required_port port protocol =
     (let p = hd (split_on (CHR '':'') protocol); n = digits_val port
      in if n = 0 then False
         else if p = ''http'' \<or> p = ''ws'' then n \<noteq> 80
         else if p = ''https'' \<or> p = ''wss'' then n \<noteq> 443
         else if p = ''ftp'' then n \<noteq> 21
         else if p = ''gopher'' then n \<noteq> 70
         else if p = ''file'' then False
         else n \<noteq> 0)"

subsection \<open>Parsing\<close>

definition scheme_char :: "char \<Rightarrow> bool" where
  "scheme_char c = (is_alpha c \<or> is_digit c \<or> c = CHR ''.'' \<or> c = CHR ''+'' \<or> c = CHR ''-'')"

record extracted =
  ex_protocol :: string
  ex_slashes :: bool
  ex_rest :: string

definition extractProtocol :: "string \<Rightarrow> extracted" where
  "extractProtocol address =
     (let s = takeWhile scheme_char address; r = dropWhile scheme_char address;
          has = (s \<noteq> [] \<and> is_alpha (hd s) \<and> r \<noteq> [] \<and> hd r = CHR '':'');
          rest = (if has then tl r else address);
          sl = starts_with rest ''//''
      in \<lparr>ex_protocol = (if has then toLowerCase s @ '':'' else []), ex_slashes = sl,
          ex_rest = (if sl then drop 2 rest else rest)\<rparr>)"

text \<open>
  The loop of \<open>resolve\<close> goes through the segments from the last to the first; here \<open>rev\<close> of the
  path is consumed and the kept segments are put back in front.  The result is the path and the
  flag \<open>unshift\<close>.
\<close>

fun resolve_loop :: "string list \<Rightarrow> nat \<Rightarrow> bool \<Rightarrow> string list \<Rightarrow> string list \<times> bool" where
  "resolve_loop [] up un kept = (kept, un)"
| "resolve_loop (s # rest) up un kept =
     (if s = ''.'' then resolve_loop rest up un kept
      else if s = ''..'' then resolve_loop rest (Suc up) un kept
      else if up > 0 then resolve_loop rest (up - 1) (if rest = [] then True else un) kept
      else resolve_loop rest up un (s # kept))"

definition resolve :: "string \<Rightarrow> string \<Rightarrow> string" where
  "resolve relative base =
     (let path = butlast (split_on (CHR ''/'') (if base = [] then ''/'' else base))
                   @ split_on (CHR ''/'') relative;
          (kept, un) = resolve_loop (rev path) 0 False [];
          kept = (if un then [] # kept else kept);
          kept = (if last path = ''.'' \<or> last path = ''..'' then kept @ [[]] else kept)
      in join_with ''/'' kept)"

text \<open>A location to resolve against: the page's, or a URL's without its query and hash.\<close>

record location =
  loc_protocol :: string
  loc_slashes :: bool
  loc_host :: string
  loc_port :: string
  loc_hostname :: string
  loc_pathname :: string

definition no_location :: location where
  "no_location = \<lparr>loc_protocol = [], loc_slashes = False, loc_host = [], loc_port = [],
     loc_hostname = [], loc_pathname = []\<rparr>"

text \<open>\<open>query\<close> is the text of the query or, after it was set, an object.\<close>

datatype query = QText string | QObj "jsval obj"

record url =
  slashes :: bool
  protocol :: string
  hash :: string
  query :: query
  pathname :: string
  auth :: string
  host :: string
  port :: string
  hostname :: string
  username :: string
  password :: string
  origin :: string
  href :: string

text \<open>\<open>address\<close> cut at the first \<open>d\<close>: what comes before, and the rest with \<open>d\<close>.\<close>

definition cut_at :: "char \<Rightarrow> string \<Rightarrow> string \<times> string" where
  "cut_at d a = (takeWhile (\<lambda>c. c \<noteq> d) a, dropWhile (\<lambda>c. c \<noteq> d) a)"

text \<open>The match of \<open>/:(\d+)$/\<close>: the text before it and the digits.\<close>

definition port_split :: "string \<Rightarrow> string \<times> string" where
  "port_split a =
     (let ds = takeWhile is_digit (rev a); r = dropWhile is_digit (rev a)
      in if ds \<noteq> [] \<and> r \<noteq> [] \<and> hd r = CHR '':'' then (rev (tl r), rev ds) else (a, []))"

definition or_else :: "string \<Rightarrow> string \<Rightarrow> string" where
  "or_else a b = (if a \<noteq> [] then a else b)"

lemma or_else_Nil [simp]: "or_else a [] = a"
  by (simp add: or_else_def)

definition url_toString :: "url \<Rightarrow> string" where
  "url_toString u =
     (let p = (if protocol u \<noteq> [] \<and> last (protocol u) \<noteq> CHR '':'' then protocol u @ '':''
               else protocol u);
          r = p @ (if slashes u then ''//'' else []);
          r = (if username u \<noteq> []
               then r @ username u @ (if password u \<noteq> [] then '':'' @ password u else []) @ ''@''
               else r);
          r = r @ host u @ pathname u;
          q = (case query u of QObj ob \<Rightarrow> querystringify ob [] | QText s \<Rightarrow> s);
          r = (if q \<noteq> [] then (if hd q \<noteq> CHR ''?'' then r @ ''?'' @ q else r @ q) else r)
      in if hash u \<noteq> [] then r @ hash u else r)"

definition origin_of :: "url \<Rightarrow> string" where
  "origin_of u =
     (if protocol u \<noteq> [] \<and> host u \<noteq> [] \<and> protocol u \<noteq> ''file:''
      then protocol u @ ''//'' @ host u else ''null'')"

text \<open>The end of the constructor and of \<open>set\<close>: the derived properties.\<close>

definition finish :: "url \<Rightarrow> url" where
  "finish u = (let u = u\<lparr>origin := origin_of u\<rparr> in u\<lparr>href := url_toString u\<rparr>)"

text \<open>The rules one after the other, on an address without protocol and slashes.\<close>

definition parse_rules :: "location \<Rightarrow> extracted \<Rightarrow> url" where
  "parse_rules loc ex =
     (let relative = (ex_protocol ex = [] \<and> \<not> ex_slashes ex);
          inh = (\<lambda>v d. if relative then or_else v d else v);
          (a1, h) = cut_at (CHR ''#'') (ex_rest ex);
          (a2, q) = cut_at (CHR ''?'') a1;
          (a3, pn) = (if ex_slashes ex then cut_at (CHR ''/'') a2
                      else ([], takeWhile (\<lambda>c. code c \<noteq> 10 \<and> code c \<noteq> 13) a2));
          (au, a4) = (case cut_at (CHR ''@'') a3 of (x, y) \<Rightarrow> if y = [] then ([], x) else (x, tl y));
          ho = toLowerCase (inh a4 (loc_host loc));
          (a5, po) = port_split a4;
          hn = toLowerCase (inh a5 (loc_hostname loc))
      in \<lparr>slashes = (ex_slashes ex \<or> relative \<and> loc_slashes loc),
          protocol = or_else (ex_protocol ex) (loc_protocol loc),
          hash = h, query = QText q, pathname = pn, auth = au, host = ho,
          port = inh po (loc_port loc), hostname = hn,
          username = [], password = [], origin = [], href = []\<rparr>)"

text \<open>The constructor, after \<open>lolcation\<close> has settled the location.\<close>

definition url_new :: "location \<Rightarrow> string \<Rightarrow> url" where
  "url_new loc address =
     (let ex = extractProtocol address;
          relative = (ex_protocol ex = [] \<and> \<not> ex_slashes ex);
          u = parse_rules loc ex;
          u = (if relative \<and> loc_slashes loc \<and> \<not> starts_with (pathname u) ''/''
                  \<and> (pathname u \<noteq> [] \<or> loc_pathname loc \<noteq> [])
               then u\<lparr>pathname := resolve (pathname u) (loc_pathname loc)\<rparr> else u);
          u = (if \<not> required_port (port u) (protocol u) then u\<lparr>host := hostname u, port := []\<rparr> else u);
          u = (if auth u \<noteq> []
               then (case split_on (CHR '':'') (auth u) of
                       [a] \<Rightarrow> u\<lparr>username := a\<rparr>
                     | a # b # _ \<Rightarrow> u\<lparr>username := a, password := b\<rparr>
                     | [] \<Rightarrow> u)
               else u)
      in finish u)"

text \<open>\<open>lolcation\<close>: a base address is parsed against nothing; without one the page's location is
  used (of a page that is no blob).\<close>

definition lolcation :: "location \<Rightarrow> string option \<Rightarrow> location" where
  "lolcation page base =
     (case base of
        None \<Rightarrow> page
      | Some b \<Rightarrow>
          if b = [] then page
          else (let u = url_new no_location b
                in \<lparr>loc_protocol = protocol u, loc_slashes = slashes u, loc_host = host u,
                    loc_port = port u, loc_hostname = hostname u, loc_pathname = pathname u\<rparr>))"

definition URL :: "location \<Rightarrow> string \<Rightarrow> string option \<Rightarrow> url" where
  "URL page address base = url_new (lolcation page base) address"

subsection \<open>Setting\<close>

text \<open>The property set and its new value; a query text is parsed, and the protocol comes with
  the flag that drops the slashes.\<close>

datatype url_set =
    SetQuery query
  | SetPort string
  | SetHostname string
  | SetHost string
  | SetProtocol string bool
  | SetPathname string
  | SetHash string
  | SetUsername string
  | SetPassword string

definition set_part :: "url_set \<Rightarrow> url \<Rightarrow> url option" where
  "set_part a u =
     (case a of
        SetQuery (QText s) \<Rightarrow>
          (if s \<noteq> []
           then map_option (\<lambda>ob. u\<lparr>query := QObj (map (\<lambda>(k, v). (k, JStr v)) ob)\<rparr>) (querystring s)
           else Some (u\<lparr>query := QText []\<rparr>))
      | SetQuery (QObj ob) \<Rightarrow> Some (u\<lparr>query := QObj ob\<rparr>)
      | SetPort v \<Rightarrow>
          Some (if \<not> required_port v (protocol u) then u\<lparr>host := hostname u, port := []\<rparr>
                else if v \<noteq> [] then u\<lparr>port := v, host := hostname u @ '':'' @ v\<rparr>
                else u\<lparr>port := v\<rparr>)
      | SetHostname v \<Rightarrow>
          Some (u\<lparr>hostname := v, host := (if port u \<noteq> [] then v @ '':'' @ port u else v)\<rparr>)
      | SetHost v \<Rightarrow>
          Some (case port_split v of
                  (hn, po) \<Rightarrow> u\<lparr>host := v, port := po, hostname := hn\<rparr>)
      | SetProtocol v fn \<Rightarrow> Some (u\<lparr>protocol := toLowerCase v, slashes := \<not> fn\<rparr>)
      | SetPathname v \<Rightarrow>
          Some (u\<lparr>pathname := (if v \<noteq> [] \<and> hd v \<noteq> CHR ''/'' then ''/'' @ v else v)\<rparr>)
      | SetHash v \<Rightarrow> Some (u\<lparr>hash := v\<rparr>)
      | SetUsername v \<Rightarrow> Some (u\<lparr>username := v\<rparr>)
      | SetPassword v \<Rightarrow> Some (u\<lparr>password := v\<rparr>))"

definition url_set :: "url_set \<Rightarrow> url \<Rightarrow> url option" where
  "url_set a u =
     map_option (\<lambda>u. finish (u\<lparr>host := toLowerCase (host u), hostname := toLowerCase (hostname u)\<rparr>))
       (set_part a u)"

subsection \<open>A query printed and parsed\<close>

lemma enc_no_delim: "c \<in> set (encodeURIComponent s) \<Longrightarrow> \<not> qs_delim c"
  by (auto simp: qs_delim_def)

lemma takeWhile_enc: "\<not> P d \<Longrightarrow> (\<And>c. c \<in> set u \<Longrightarrow> P c) \<Longrightarrow> takeWhile P (u @ d # t) = u"
  by (simp add: takeWhile_append2)

lemma dropWhile_enc: "\<not> P d \<Longrightarrow> (\<And>c. c \<in> set u \<Longrightarrow> P c) \<Longrightarrow> dropWhile P (u @ d # t) = d # t"
  by (simp add: dropWhile_append2)

lemma qs_one:
  assumes "k \<noteq> []" and "\<forall>c \<in> set p. qs_delim c" and "t = [] \<or> hd t = CHR ''&''"
  shows "qs_loop (p @ encodeURIComponent k @ CHR ''='' # encodeURIComponent v @ t) res
    = qs_loop t (obj_set k v res)"
proof -
  let ?k = "encodeURIComponent k" and ?v = "encodeURIComponent v"
  obtain c s where c: "?k = c # s" "\<not> qs_delim c"
    using assms(1) enc_no_delim [of _ k] by (cases ?k) auto
  have drop: "dropWhile qs_delim (p @ ?k @ CHR ''='' # ?v @ t) = ?k @ CHR ''='' # ?v @ t"
    using assms(2) c by simp
  have eq: "qs_delim CHR ''=''" by (simp add: qs_delim_def)
  have key: "takeWhile (\<lambda>c. \<not> qs_delim c) (?k @ CHR ''='' # ?v @ t) = ?k"
    "dropWhile (\<lambda>c. \<not> qs_delim c) (?k @ CHR ''='' # ?v @ t) = CHR ''='' # ?v @ t"
    using eq enc_no_delim by (simp_all add: takeWhile_enc dropWhile_enc)
  then have val: "qs_value (?k @ CHR ''='' # ?v @ t) = ?v @ t" by (simp add: qs_value_def)
  have amp: "x \<noteq> CHR ''&''" if "x \<in> set ?v" for x using that by auto
  have v: "takeWhile (\<lambda>c. c \<noteq> CHR ''&'') (?v @ t) = ?v"
    "dropWhile (\<lambda>c. c \<noteq> CHR ''&'') (?v @ t) = t"
    using assms(3) amp by (cases t; auto simp: takeWhile_append2 dropWhile_append2)+
  have ne: "?k @ CHR ''='' # ?v @ t \<noteq> []" by simp
  show ?thesis
    by (subst qs_loop.simps) (simp only: Let_def drop key val v ne if_False decode_encode, simp)
qed

text \<open>The pairs of an object, each with the ampersand before it.\<close>

definition amp_pairs :: "jsval obj \<Rightarrow> string" where
  "amp_pairs es = concat (map (\<lambda>(k, v). CHR ''&'' # encodeURIComponent k @ CHR ''='' #
     encodeURIComponent (to_string v)) es)"

lemma amp_pairs_Cons: "amp_pairs ((k, v) # es) =
    [CHR ''&''] @ encodeURIComponent k @ CHR ''='' # encodeURIComponent (to_string v) @ amp_pairs es"
  by (simp add: amp_pairs_def)

lemma amp_pairs_hd: "amp_pairs es = [] \<or> hd (amp_pairs es) = CHR ''&''"
  by (cases es) (auto simp: amp_pairs_def)

lemma qs_pairs:
  assumes "distinct (map fst res @ map fst es)" and "[] \<notin> fst ` set es"
  shows "qs_loop (amp_pairs es) res = Some (res @ map (\<lambda>(k, v). (k, to_string v)) es)"
  using assms
proof (induction es arbitrary: res)
  case Nil
  then show ?case by (subst qs_loop.simps) (simp add: amp_pairs_def)
next
  case (Cons e es)
  obtain k v where e: "e = (k, v)" by (cases e)
  have "k \<noteq> []" "k \<notin> fst ` set res" using Cons.prems by (auto simp: e)
  moreover have "qs_loop (amp_pairs es) (res @ [(k, to_string v)])
      = Some ((res @ [(k, to_string v)]) @ map (\<lambda>(k, v). (k, to_string v)) es)"
    using Cons.prems by (intro Cons.IH) (auto simp: e)
  moreover have "\<forall>c \<in> set [CHR ''&'']. qs_delim c" by (simp add: qs_delim_def)
  ultimately show ?case
    using qs_one [of k "[CHR ''&'']" "amp_pairs es" "to_string v" res] amp_pairs_hd [of es]
    by (simp add: e amp_pairs_Cons obj_set_new)
qed

lemma join_amp: "join_with ''&'' (x # xs) = x @ concat (map ((#) CHR ''&'') xs)"
  by (induction xs arbitrary: x) simp_all

text \<open>Encoded pairs joined by ampersands read back, whatever their keys and values contain.\<close>

lemma querystring_join:
  assumes "distinct (map fst es)" and "[] \<notin> fst ` set es" and "p \<in> {[], ''?''}"
  shows "querystring (p @ join_with ''&''
      (map (\<lambda>(k, v). encodeURIComponent k @ ''='' @ encodeURIComponent (to_string v)) es))
    = Some (map (\<lambda>(k, v). (k, to_string v)) es)"
proof (cases es)
  case Nil
  have "dropWhile qs_delim p = []" using assms(3) by (auto simp: qs_delim_def)
  then show ?thesis by (simp add: Nil querystring_def) (subst qs_loop.simps, simp)
next
  case (Cons e fs)
  obtain k v where e: "e = (k, v)" by (cases e)
  let ?enc = "\<lambda>(k, v). encodeURIComponent k @ ''='' @ encodeURIComponent (to_string v)"
  have "concat (map ((#) CHR ''&'') (map ?enc fs)) = amp_pairs fs"
    by (induction fs) (auto simp: amp_pairs_def)
  then have "p @ join_with ''&'' (map ?enc es) = p @ encodeURIComponent k @ CHR ''='' #
      encodeURIComponent (to_string v) @ amp_pairs fs"
    by (simp add: Cons e join_amp)
  moreover have "\<forall>c \<in> set p. qs_delim c" using assms(3) by (auto simp: qs_delim_def)
  moreover have "k \<noteq> []" using assms(2) by (auto simp: Cons e)
  ultimately have "querystring (p @ join_with ''&'' (map ?enc es))
      = qs_loop (amp_pairs fs) [(k, to_string v)]"
    using qs_one [of k p "amp_pairs fs" "to_string v" "[]"] amp_pairs_hd [of fs]
    by (simp add: querystring_def)
  also have "\<dots> = Some ([(k, to_string v)] @ map (\<lambda>(k, v). (k, to_string v)) fs)"
    using assms(1,2) by (intro qs_pairs) (auto simp: Cons e)
  finally show ?thesis by (simp add: Cons e)
qed

lemma querystring_nothing: "querystring [] = Some []"
  using querystring_join [of "[]" "[]"] by simp

text \<open>
  A query string reads back.  Printing an object whose keys are not empty, with or without the
  question mark in front, and parsing the text gives each key with its value as text, in the order
  the properties are visited, whatever characters keys and values contain.
\<close>

theorem querystring_querystringify:
  assumes "obj_wf ob" and "[] \<notin> fst ` set ob" and "p \<in> {[], ''?''}"
  shows "querystring (querystringify ob p) = Some (map (\<lambda>(k, v). (k, to_string v)) (own_entries ob))"
  using querystring_join [of "own_entries ob" p] assms obj_wf_own_entries [of ob]
  by (cases "own_entries ob = []")
    (simp_all add: querystringify_def obj_wf_def Let_def querystring_nothing)

theorem querystring_querystringify_witness:
  "querystring (querystringify [(''a&b'', JStr ''1=2''), (''page'', JNum 3)] ''?'')
    = Some [(''a&b'', ''1=2''), (''page'', ''3'')]"
proof -
  have o: "own_entries [(''a&b'', JStr ''1=2''), (''page'', JNum 3)]
      = [(''a&b'', JStr ''1=2''), (''page'', JNum 3)]" by code_simp
  have t: "show_int 3 = ''3''" by code_simp
  from querystring_querystringify [of "[(''a&b'', JStr ''1=2''), (''page'', JNum 3)]" "''?''"]
  show ?thesis unfolding o by (simp add: obj_wf_def t)
qed

subsection \<open>Paths without dot segments\<close>

lemma resolve_loop_kept:
  "resolve_loop ps up un kept = (kept', un') \<Longrightarrow>
     set kept' \<subseteq> set kept \<union> (set ps - {''.'', ''..''})"
proof (induction ps up un kept rule: resolve_loop.induct)
  case (2 s rest up un kept)
  from 2(5) show ?case
    using 2(1-4) by (auto split: if_splits)
qed simp

text \<open>
  A resolved path has no dot segments.  Whatever the relative path and the base are, no
  segment of the result is a single or a double dot, so nothing is left that a server would read
  as a step out of a directory.
\<close>

theorem resolve_no_dots:
  "''.'' \<notin> set (split_on (CHR ''/'') (resolve rel b))
   \<and> ''..'' \<notin> set (split_on (CHR ''/'') (resolve rel b))"
proof -
  define path where "path = butlast (split_on (CHR ''/'') (if b = [] then ''/'' else b))
    @ split_on (CHR ''/'') rel"
  obtain kept un where k: "resolve_loop (rev path) 0 False [] = (kept, un)" by fastforce
  define segs where "segs = (if last path = ''.'' \<or> last path = ''..''
    then (if un then [] # kept else kept) @ [[]] else (if un then [] # kept else kept))"
  have r: "resolve rel b = join_with ''/'' segs"
    by (simp add: resolve_def Let_def k segs_def flip: path_def)
  have "set kept \<subseteq> set path - {''.'', ''..''}"
    using resolve_loop_kept [OF k] by auto
  then have sub: "set segs \<subseteq> insert [] (set path - {''.'', ''..''})"
    by (auto simp: segs_def split: if_splits)
  have "CHR ''/'' \<notin> set q" if "q \<in> set path" for q
  proof
    assume "CHR ''/'' \<in> set q"
    moreover from that have "q \<in> set (split_on (CHR ''/'') (if b = [] then ''/'' else b))
        \<or> q \<in> set (split_on (CHR ''/'') rel)"
      by (auto simp: path_def dest: in_set_butlastD)
    ultimately show False using split_by_parts by fastforce
  qed
  with sub have "\<forall>q \<in> set segs. CHR ''/'' \<notin> set q" by auto
  then have "split_on (CHR ''/'') (join_with ''/'' segs) = (if segs = [] then [[]] else segs)"
    using split_on_join [of segs "CHR ''/''"] by simp
  then have "set (split_on (CHR ''/'') (resolve rel b)) \<subseteq> insert [] (set path - {''.'', ''..''})"
    using sub by (auto simp: r split: if_splits)
  then show ?thesis by auto
qed

subsection \<open>A URL printed and parsed\<close>

lemma toLowerCase_eq_Nil [simp]: "toLowerCase s = [] \<longleftrightarrow> s = []"
  by (simp add: toLowerCase_def)

lemma cut_at_none: "d \<notin> set a \<Longrightarrow> cut_at d a = (a, [])"
  by (auto simp: cut_at_def takeWhile_eq_all_conv)

lemma cut_at_some: "d \<notin> set a \<Longrightarrow> cut_at d (a @ d # t) = (a, d # t)"
  by (auto simp: cut_at_def intro!: takeWhile_enc dropWhile_enc)

lemma cut_at_part:
  assumes "d \<notin> set a" and "t = [] \<or> hd t = d"
  shows "cut_at d (a @ t) = (a, t)"
  using assms cut_at_none [of d a] cut_at_some [of d a "tl t"] by (cases t) auto

lemma port_split_none: "CHR '':'' \<notin> set a \<Longrightarrow> port_split a = (a, [])"
proof -
  assume a: "CHR '':'' \<notin> set a"
  have "set (dropWhile is_digit (rev a)) \<subseteq> set a" using set_dropWhileD by fastforce
  with a have "dropWhile is_digit (rev a) = [] \<or> hd (dropWhile is_digit (rev a)) \<noteq> CHR '':''"
    by (metis list.set_sel(1) subsetD)
  then show ?thesis by (auto simp: port_split_def Let_def)
qed

lemma colon_not_digit [simp]: "\<not> is_digit CHR '':''"
  by (simp add: is_digit_def)

lemma port_split_some:
  assumes "p \<noteq> []" and "\<forall>c \<in> set p. is_digit c"
  shows "port_split (a @ CHR '':'' # p) = (a, p)"
proof -
  have "takeWhile is_digit (rev p @ CHR '':'' # rev a) = rev p"
    "dropWhile is_digit (rev p @ CHR '':'' # rev a) = CHR '':'' # rev a"
    using assms(2) by (intro takeWhile_enc dropWhile_enc; simp)+
  then show ?thesis using assms(1) by (simp add: port_split_def)
qed

lemma port_split_cases:
  "port_split a = (x, p) \<Longrightarrow>
     p = [] \<and> x = a \<or> p \<noteq> [] \<and> (\<forall>c \<in> set p. is_digit c) \<and> a = x @ CHR '':'' # p"
proof -
  assume s: "port_split a = (x, p)"
  let ?d = "takeWhile is_digit (rev a)" and ?r = "dropWhile is_digit (rev a)"
  show ?thesis
  proof (cases "?d \<noteq> [] \<and> ?r \<noteq> [] \<and> hd ?r = CHR '':''")
    case True
    then have "?r = CHR '':'' # tl ?r" by (metis list.collapse)
    then have "rev a = ?d @ CHR '':'' # tl ?r" by (metis takeWhile_dropWhile_id)
    then have "a = rev (tl ?r) @ CHR '':'' # rev ?d" by (metis rev_rev_ident rev_append rev.simps(2)
          append.assoc append_Cons append_Nil)
    moreover from True s have "x = rev (tl ?r)" "p = rev ?d" by (auto simp: port_split_def Let_def)
    moreover have "\<forall>c \<in> set ?d. is_digit c" by (auto dest: set_takeWhileD)
    ultimately show ?thesis using True by simp
  next
    case False
    with s show ?thesis by (auto simp: port_split_def Let_def)
  qed
qed

text \<open>The parts of an absolute URL, in the form the parser keeps them.\<close>

record url_parts =
  up_scheme :: string
  up_host :: string
  up_port :: string
  up_path :: string
  up_query :: string
  up_hash :: string

definition parts_text :: "url_parts \<Rightarrow> string" where
  "parts_text p = up_scheme p @ ''://'' @ up_host p
     @ (if up_port p = [] then [] else CHR '':'' # up_port p) @ up_path p @ up_query p @ up_hash p"

definition free_of :: "string \<Rightarrow> string \<Rightarrow> bool" where
  "free_of ds s = list_all (\<lambda>d. d \<notin> set s) ds"

definition parts_ok :: "url_parts \<Rightarrow> bool" where
  "parts_ok p =
     (up_scheme p \<noteq> [] \<and> is_lower (hd (up_scheme p)) \<and> list_all scheme_char (up_scheme p)
      \<and> toLowerCase (up_scheme p) = up_scheme p
      \<and> up_host p \<noteq> [] \<and> toLowerCase (up_host p) = up_host p \<and> free_of ''/?#@:'' (up_host p)
      \<and> (up_port p = [] \<or> list_all is_digit (up_port p) \<and> required_port (up_port p) (up_scheme p @ '':''))
      \<and> (up_path p = [] \<or> hd (up_path p) = CHR ''/'') \<and> free_of ''?#'' (up_path p)
      \<and> (up_query p = [] \<or> hd (up_query p) = CHR ''?'') \<and> free_of ''#'' (up_query p)
      \<and> (up_hash p = [] \<or> hd (up_hash p) = CHR ''#''))"

definition url_shows :: "url_parts \<Rightarrow> url \<Rightarrow> bool" where
  "url_shows p u =
     (protocol u = up_scheme p @ '':'' \<and> slashes u \<and> hostname u = up_host p \<and> port u = up_port p
      \<and> host u = up_host p @ (if up_port p = [] then [] else CHR '':'' # up_port p)
      \<and> pathname u = up_path p \<and> query u = QText (up_query p) \<and> hash u = up_hash p)"

lemma not_scheme_char [simp]: "\<not> scheme_char CHR '':''" "\<not> scheme_char CHR ''/''"
  by (simp_all add: scheme_char_def char_class_defs)

lemma extractProtocol_absolute:
  assumes "s \<noteq> []" and "is_alpha (hd s)" and "list_all scheme_char s"
  shows "extractProtocol (s @ ''://'' @ t) =
    \<lparr>ex_protocol = toLowerCase s @ '':'', ex_slashes = True, ex_rest = t\<rparr>"
proof -
  have "takeWhile scheme_char (s @ ''://'' @ t) = s" "dropWhile scheme_char (s @ ''://'' @ t) = ''://'' @ t"
    using assms(3) by (simp_all add: takeWhile_append2 dropWhile_append2 list_all_iff)
  with assms(1,2) show ?thesis by (simp add: extractProtocol_def starts_with_def)
qed

lemma lower_colon [simp]: "lower_char CHR '':'' = CHR '':''"
  by code_simp

lemma digits_lower: "list_all is_digit s \<Longrightarrow> toLowerCase s = s"
  by (induction s) auto

lemma digit_delims: "list_all is_digit p \<Longrightarrow> d \<in> set ''/?#@:'' \<Longrightarrow> d \<notin> set p"
  by (auto simp: list_all_iff is_digit_def)

lemma parse_absolute:
  assumes "parts_ok p"
  shows "parse_rules loc (extractProtocol (parts_text p)) =
    \<lparr>slashes = True, protocol = up_scheme p @ '':'', hash = up_hash p, query = QText (up_query p),
     pathname = up_path p, auth = [],
     host = up_host p @ (if up_port p = [] then [] else CHR '':'' # up_port p),
     port = up_port p, hostname = up_host p, username = [], password = [], origin = [], href = []\<rparr>"
proof -
  let ?hp = "up_host p @ (if up_port p = [] then [] else CHR '':'' # up_port p)"
  note ok = assms [unfolded parts_ok_def free_of_def]
  have alpha: "is_alpha (hd (up_scheme p))" using ok by (simp add: is_alpha_def)
  have hp: "CHR ''/'' \<notin> set ?hp" "CHR ''?'' \<notin> set ?hp" "CHR ''#'' \<notin> set ?hp" "CHR ''@'' \<notin> set ?hp"
    using ok digit_delims [of "up_port p"] by auto
  have c1: "cut_at CHR ''#'' (?hp @ up_path p @ up_query p @ up_hash p) =
      (?hp @ up_path p @ up_query p, up_hash p)"
    using cut_at_part [of "CHR ''#''" "?hp @ up_path p @ up_query p" "up_hash p"] ok hp by simp
  have c2: "cut_at CHR ''?'' (?hp @ up_path p @ up_query p) = (?hp @ up_path p, up_query p)"
    using cut_at_part [of "CHR ''?''" "?hp @ up_path p" "up_query p"] ok hp by simp
  have c3: "cut_at CHR ''/'' (?hp @ up_path p) = (?hp, up_path p)"
    using cut_at_part [of "CHR ''/''" ?hp "up_path p"] ok hp by simp
  have c4: "cut_at CHR ''@'' ?hp = (?hp, [])" using hp by (intro cut_at_none)
  have c5: "port_split ?hp = (up_host p, up_port p)"
    using ok port_split_none [of "up_host p"] port_split_some [of "up_port p" "up_host p"]
    by (auto simp: list_all_iff)
  have low: "up_port p \<noteq> [] \<longrightarrow> toLowerCase (up_port p) = up_port p"
    using ok digits_lower by blast
  have ex: "extractProtocol (parts_text p) = \<lparr>ex_protocol = up_scheme p @ '':'', ex_slashes = True,
      ex_rest = ?hp @ up_path p @ up_query p @ up_hash p\<rparr>"
    using extractProtocol_absolute [OF _ alpha] ok by (simp add: parts_text_def)
  show ?thesis
    unfolding parse_rules_def ex Let_def
    using ok by (simp add: c1 c2 c3 c4 c5 low or_else_def del: append_assoc)
qed

lemma finish_simps [simp]:
  "slashes (finish u) = slashes u" "protocol (finish u) = protocol u" "hash (finish u) = hash u"
  "query (finish u) = query u" "pathname (finish u) = pathname u" "auth (finish u) = auth u"
  "host (finish u) = host u" "port (finish u) = port u" "hostname (finish u) = hostname u"
  "username (finish u) = username u" "password (finish u) = password u"
  "origin (finish u) = origin_of u"
  by (simp_all add: finish_def Let_def)

lemma url_toString_upd [simp]:
  "url_toString (u\<lparr>origin := x\<rparr>) = url_toString u" "url_toString (u\<lparr>href := x\<rparr>) = url_toString u"
  "url_toString (u\<lparr>origin := x, href := y\<rparr>) = url_toString u"
  by (simp_all add: url_toString_def Let_def)

lemma href_finish [simp]:
  "href (finish u) = url_toString u" "url_toString (finish u) = url_toString u"
  by (simp_all only: finish_def Let_def url_toString_upd) simp

lemma absolute_shows:
  assumes "parts_ok p"
  shows "url_shows p (url_new loc (parts_text p)) \<and> href (url_new loc (parts_text p)) = parts_text p"
proof -
  note ok = assms [unfolded parts_ok_def free_of_def]
  have alpha: "is_alpha (hd (up_scheme p))" using ok by (simp add: is_alpha_def)
  have ex: "ex_protocol (extractProtocol (parts_text p)) \<noteq> []"
    using extractProtocol_absolute [OF _ alpha] ok by (simp add: parts_text_def)
  let ?u = "\<lparr>slashes = True, protocol = up_scheme p @ '':'', hash = up_hash p,
     query = QText (up_query p), pathname = up_path p, auth = [],
     host = up_host p @ (if up_port p = [] then [] else CHR '':'' # up_port p),
     port = up_port p, hostname = up_host p, username = [], password = [], origin = [], href = []\<rparr>"
  have "required_port [] q = False" for q by (simp add: required_port_def digits_val_def)
  then have "url_new loc (parts_text p) = finish ?u"
    using ok ex unfolding url_new_def Let_def parse_absolute [OF assms] by auto
  moreover have "href (finish ?u) = url_toString ?u" by (rule href_finish)
  moreover have "url_toString ?u = parts_text p"
    using ok by (auto simp: url_toString_def parts_text_def Let_def)
  ultimately show ?thesis by (simp add: url_shows_def)
qed

text \<open>
  C22: an absolute URL reads back.  Parsing the text of a URL with a lower-case scheme and host, an
  optional port that is not the scheme's default, and a path, query and hash that start with their
  delimiters gives exactly these parts, whatever the page's location is, and printing the result
  gives the text again.
\<close>

theorem url_roundtrip:
  assumes "parts_ok p"
  shows "url_shows p (url_new loc (parts_text p)) \<and> href (url_new loc (parts_text p)) = parts_text p"
  using assms by (rule absolute_shows)

definition sample_parts :: url_parts where
  "sample_parts = \<lparr>up_scheme = ''https'', up_host = ''koded.dev'', up_port = ''8443'',
     up_path = ''/api/waitlist/'', up_query = ''?page=2'', up_hash = []\<rparr>"

theorem url_roundtrip_witness:
  "url_shows sample_parts (url_new no_location ''https://koded.dev:8443/api/waitlist/?page=2'')"
proof -
  have "parts_ok sample_parts" by code_simp
  from url_roundtrip [OF this, of no_location] show ?thesis
    by (simp add: parts_text_def sample_parts_def)
qed

subsection \<open>Relative URLs stay at their base\<close>

definition relative_address :: "string \<Rightarrow> bool" where
  "relative_address a = (ex_protocol (extractProtocol a) = [] \<and> \<not> ex_slashes (extractProtocol a))"

lemma parse_relative:
  assumes "relative_address a"
  shows "protocol (parse_rules loc (extractProtocol a)) = loc_protocol loc"
    and "host (parse_rules loc (extractProtocol a)) = toLowerCase (loc_host loc)"
    and "port (parse_rules loc (extractProtocol a)) = loc_port loc"
    and "hostname (parse_rules loc (extractProtocol a)) = toLowerCase (loc_hostname loc)"
    and "auth (parse_rules loc (extractProtocol a)) = []"
  using assms by (simp_all add: relative_address_def parse_rules_def Let_def cut_at_def or_else_def
      port_split_def split_beta)

lemma url_new_parts:
  defines "u loc a \<equiv> parse_rules loc (extractProtocol a)"
  shows "protocol (url_new loc a) = protocol (u loc a)"
    and "host (url_new loc a) = (if required_port (port (u loc a)) (protocol (u loc a))
           then host (u loc a) else hostname (u loc a))"
    and "port (url_new loc a) = (if required_port (port (u loc a)) (protocol (u loc a))
           then port (u loc a) else [])"
    and "hostname (url_new loc a) = hostname (u loc a)"
    and "origin (url_new loc a) = origin_of (url_new loc a)"
  by (simp_all add: url_new_def Let_def u_def origin_of_def split: list.split)

lemma required_port_empty [simp]: "\<not> required_port [] q"
  by (simp add: required_port_def digits_val_def)

lemma host_lower:
  "toLowerCase (host (parse_rules loc ex)) = host (parse_rules loc ex)"
  "toLowerCase (hostname (parse_rules loc ex)) = hostname (parse_rules loc ex)"
  by (simp_all add: parse_rules_def Let_def split_beta)

lemma url_new_lower:
  "toLowerCase (host (url_new loc a)) = host (url_new loc a)"
  "toLowerCase (hostname (url_new loc a)) = hostname (url_new loc a)"
  by (simp_all add: url_new_parts host_lower)

lemma url_new_port:
  "port (url_new loc a) \<noteq> [] \<longrightarrow> required_port (port (url_new loc a)) (protocol (url_new loc a))"
  "port (url_new loc a) = [] \<longrightarrow> host (url_new loc a) = hostname (url_new loc a)
     \<or> port (parse_rules loc (extractProtocol a)) = []"
  by (simp_all add: url_new_parts)

text \<open>
  C30: a relative address stays on its base's server.  An address with neither a scheme nor two
  leading slashes, resolved against any base address, has the protocol, the host name and the port
  of that base, and its origin.
\<close>

theorem relative_same_origin:
  fixes page :: location
  assumes "relative_address a" and "b \<noteq> []"
  defines "u \<equiv> URL page a (Some b)" and "v \<equiv> url_new no_location b"
  shows "protocol u = protocol v \<and> hostname u = hostname v \<and> port u = port v \<and> origin u = origin v"
proof -
  let ?loc = "lolcation page (Some b)"
  have loc: "loc_protocol ?loc = protocol v" "loc_host ?loc = host v" "loc_port ?loc = port v"
    "loc_hostname ?loc = hostname v"
    using assms(2) by (simp_all add: lolcation_def v_def Let_def)
  have low: "toLowerCase (host v) = host v" "toLowerCase (hostname v) = hostname v"
    by (simp_all add: v_def url_new_lower)
  have pr: "protocol u = protocol v" "hostname u = hostname v"
    unfolding u_def URL_def url_new_parts parse_relative [OF assms(1)] loc low by simp_all
  have po: "port u = port v"
    using url_new_port(1) [of no_location b, folded v_def]
    unfolding u_def URL_def url_new_parts(3) parse_relative [OF assms(1)] loc by auto
  have "host u = (if required_port (port v) (protocol v) then host v else hostname v)"
    unfolding u_def URL_def url_new_parts(2) parse_relative [OF assms(1)] loc low ..
  moreover have "\<not> required_port (port v) (protocol v) \<Longrightarrow> hostname v = host v"
    unfolding v_def url_new_parts by (simp split: if_splits)
  ultimately have "host u = host v" by auto
  with pr have "origin u = origin v"
    unfolding u_def v_def URL_def url_new_parts(5) by (simp add: origin_of_def u_def v_def URL_def)
  with pr po show ?thesis by simp
qed

theorem relative_same_origin_witness:
  "origin (URL no_location ''../b?x=1'' (Some ''http://Koded.dev:8000/a/c/d'')) =
     origin (url_new no_location ''http://Koded.dev:8000/a/c/d'')"
proof -
  have "relative_address ''../b?x=1''" by code_simp
  from relative_same_origin [OF this, of "''http://Koded.dev:8000/a/c/d''" no_location]
  show ?thesis by simp
qed

subsection \<open>Host and port stay consistent\<close>

definition host_ok :: "url \<Rightarrow> bool" where
  "host_ok u = (host u = hostname u @ (if port u = [] then [] else CHR '':'' # port u)
     \<and> list_all is_digit (port u) \<and> toLowerCase (hostname u) = hostname u)"

text \<open>Ports are set to digits; a host is set with its port or without.\<close>

definition set_ok :: "url_set \<Rightarrow> bool" where
  "set_ok a = (case a of SetPort v \<Rightarrow> list_all is_digit v | _ \<Rightarrow> True)"

lemma set_part_host:
  assumes "host_ok u" and "set_ok a" and "set_part a u = Some v"
  shows "host v = hostname v @ (if port v = [] then [] else CHR '':'' # port v)
    \<and> list_all is_digit (port v)"
proof (cases a)
  case (SetHost h)
  obtain hn po where s: "port_split h = (hn, po)" by fastforce
  from port_split_cases [OF s] assms(3) show ?thesis
    by (auto simp: SetHost set_part_def s list_all_iff)
next
  case (SetQuery q)
  with assms show ?thesis by (cases q) (auto simp: set_part_def host_ok_def split: if_splits)
qed (use assms in \<open>auto simp: set_part_def host_ok_def set_ok_def split: if_splits\<close>)

lemma url_set_host: "host_ok u \<Longrightarrow> set_ok a \<Longrightarrow> url_set a u = Some w \<Longrightarrow> host_ok w"
proof -
  assume u: "host_ok u" "set_ok a" "url_set a u = Some w"
  from u(3) obtain v where v: "set_part a u = Some v"
    "w = finish (v\<lparr>host := toLowerCase (host v), hostname := toLowerCase (hostname v)\<rparr>)"
    by (auto simp: url_set_def)
  from set_part_host [OF u(1,2) v(1)] show "host_ok w"
    by (auto simp: host_ok_def v(2) digits_lower)
qed

lemma url_new_host_ok: "host_ok (url_new no_location a)"
proof -
  let ?u = "parse_rules no_location (extractProtocol a)"
  have "\<exists>x. host ?u = toLowerCase x \<and> (case port_split x of (h, p) \<Rightarrow>
      hostname ?u = toLowerCase h \<and> port ?u = p)"
    by (auto simp: parse_rules_def Let_def split_beta no_location_def)
  then obtain x h p where x: "host ?u = toLowerCase x" "port_split x = (h, p)"
    "hostname ?u = toLowerCase h" "port ?u = p" by auto
  from port_split_cases [OF x(2)] x(1,3,4) show ?thesis
    unfolding host_ok_def url_new_parts by (auto simp: list_all_iff digits_lower)
qed

text \<open>
  C36: the parts of the host agree.  After parsing any address and then setting any properties, in
  any order, the host is the host name in lower case followed, when there is a port, by a colon
  and the port, and the link shown is the text of the current parts.
\<close>

theorem url_host_consistent:
  assumes "list_all set_ok as" and "run_events url_set as (url_new no_location a) = Some u"
  shows "host_ok u \<and> href u = url_toString u"
proof -
  have "run_events url_set as w = Some u \<Longrightarrow> list_all set_ok as \<Longrightarrow>
      host_ok w \<and> href w = url_toString w \<Longrightarrow> host_ok u \<and> href u = url_toString u" for w
  proof (induction as arbitrary: w)
    case (Cons s as)
    then obtain w' where w': "url_set s w = Some w'" "run_events url_set as w' = Some u"
      by (auto split: bind_splits)
    then have "host_ok w'" using url_set_host [of w s w'] Cons.prems by simp
    moreover have "href w' = url_toString w'"
      using w'(1) by (auto simp: url_set_def)
    ultimately show ?case using Cons.IH [OF w'(2)] Cons.prems(2) by simp
  qed simp
  moreover have "href (url_new no_location a) = url_toString (url_new no_location a)"
    by (simp add: url_new_def Let_def)
  ultimately show ?thesis using assms url_new_host_ok by blast
qed

theorem url_host_consistent_witness:
  "\<exists>u. run_events url_set [SetPort ''8000'', SetHostname ''API.koded.dev'', SetPathname ''v1'']
      (url_new no_location ''http://koded.dev/'') = Some u
    \<and> host_ok u \<and> href u = url_toString u"
proof -
  have "run_events url_set [SetPort ''8000'', SetHostname ''API.koded.dev'', SetPathname ''v1'']
      (url_new no_location ''http://koded.dev/'') \<noteq> None"
    by (simp add: url_set_def set_part_def)
  then obtain u where u: "run_events url_set [SetPort ''8000'', SetHostname ''API.koded.dev'',
      SetPathname ''v1''] (url_new no_location ''http://koded.dev/'') = Some u" by auto
  have "list_all set_ok [SetPort ''8000'', SetHostname ''API.koded.dev'', SetPathname ''v1'']"
    by code_simp
  from url_host_consistent [OF this u] u show ?thesis by blast
qed

end
