(* ===== verification/UrlTemplate.thy ===== *)
theory UrlTemplate
  imports JsUri JsValue "HOL-Library.Monad_Syntax"
begin

text \<open>
  The URI template library of the API client, module 21 of
  \<open>koded-cli/web/backend/staticfiles/rest_framework/js/coreapi-0.1.1.js\<close>.  \<open>None\<close> is a
  \<open>TypeError\<close>: \<open>encodeReserved\<close> calls a string method on what may be no string, and
  \<open>toString\<close> and \<open>Object.keys\<close> are called on defined values only.
  A path parameter is one encoded segment of the path, which only a value of one dot or two can leave.
\<close>

subsection \<open>Encoding\<close>

text \<open>\<open>encodeURI\<close> keeps, besides what \<open>encodeURIComponent\<close> keeps, the reserved characters.\<close>

definition enc_uri_char :: "char \<Rightarrow> string" where
  "enc_uri_char c = (if c \<in> set '';/?:@&=+$,#'' then [c] else enc_char c)"

definition encodeURI :: "string \<Rightarrow> string" where
  "encodeURI s = concat (map enc_uri_char s)"

fun replace_pct :: "char \<Rightarrow> char \<Rightarrow> char \<Rightarrow> string \<Rightarrow> string" where
  "replace_pct h l r (p # a # b # s) =
     (if p = CHR ''%'' \<and> a = h \<and> b = l then r # replace_pct h l r s
      else p # replace_pct h l r (a # b # s))"
| "replace_pct h l r s = s"

abbreviation is_hex :: "char \<Rightarrow> bool" where
  "is_hex c \<equiv> hex_val c \<noteq> None"

fun cons_hd :: "char \<Rightarrow> string list \<Rightarrow> string list" where
  "cons_hd c [] = [[c]]"
| "cons_hd c (x # xs) = (c # x) # xs"

text \<open>\<open>split(/(%[0-9A-Fa-f]{2})/g)\<close>: the text between the escapes, and the escapes.\<close>

fun split_pct :: "string \<Rightarrow> string list" where
  "split_pct (p # h # l # s) =
     (if p = CHR ''%'' \<and> is_hex h \<and> is_hex l then [] # [p, h, l] # split_pct s
      else cons_hd p (split_pct (h # l # s)))"
| "split_pct s = [s]"

text \<open>The test of a part finds a percent sign with a hexadecimal digit after it anywhere.\<close>

fun has_pct :: "string \<Rightarrow> bool" where
  "has_pct (p # h # s) = (p = CHR ''%'' \<and> is_hex h \<or> has_pct (h # s))"
| "has_pct s = False"

definition encodeReserved :: "string \<Rightarrow> string" where
  "encodeReserved s =
     concat (map (\<lambda>part. if \<not> has_pct part
        then replace_pct (CHR ''5'') (CHR ''D'') (CHR '']'')
               (replace_pct (CHR ''5'') (CHR ''B'') (CHR ''['') (encodeURI part))
        else part) (split_pct s))"

definition encodeUnreserved :: "string \<Rightarrow> string" where
  "encodeUnreserved s =
     concat (map (\<lambda>c. if c \<in> set ''!()*'' \<or> c = CHR 0x27 then pct (code c) else [c])
       (encodeURIComponent s))"

definition encodeValue :: "char option \<Rightarrow> jsval \<Rightarrow> string option \<Rightarrow> string option" where
  "encodeValue operator v key =
     do { e \<leftarrow> (if operator = Some (CHR ''+'') \<or> operator = Some (CHR ''#'')
                then (case v of JStr s \<Rightarrow> Some (encodeReserved s) | _ \<Rightarrow> None)
                else Some (encodeUnreserved (to_string v)));
          Some (case key of
                  Some k \<Rightarrow> (if k \<noteq> [] then encodeUnreserved k @ ''='' @ e else e)
                | None \<Rightarrow> e) }"

definition isDefined :: "jsval \<Rightarrow> bool" where
  "isDefined v = (v \<noteq> JUndef \<and> v \<noteq> JNull)"

definition isKeyOperator :: "char option \<Rightarrow> bool" where
  "isKeyOperator operator =
     (operator = Some (CHR '';'') \<or> operator = Some (CHR ''&'') \<or> operator = Some (CHR ''?''))"

fun all_some :: "'a option list \<Rightarrow> 'a list option" where
  "all_some [] = Some []"
| "all_some (x # xs) = do { a \<leftarrow> x; as \<leftarrow> all_some xs; Some (a # as) }"

definition ctx_get :: "jsval obj \<Rightarrow> string \<Rightarrow> jsval" where
  "ctx_get ob k = (case map_of ob k of None \<Rightarrow> JUndef | Some v \<Rightarrow> v)"

text \<open>A modifier is an asterisk or a number of characters.\<close>

datatype modifier = Explode | Prefix nat

text \<open>The branches of \<open>getValues\<close>: a value that is defined and not empty, of each type, and one
  that is not.\<close>

definition simple_value ::
  "char option \<Rightarrow> string \<Rightarrow> modifier option \<Rightarrow> string \<Rightarrow> string list option" where
  "simple_value operator key modifier s =
     (let s = (case modifier of Some (Prefix n) \<Rightarrow> take n s | _ \<Rightarrow> s)
      in map_option (\<lambda>e. [e])
           (encodeValue operator (JStr s) (if isKeyOperator operator then Some key else None)))"

definition exploded_value :: "char option \<Rightarrow> string \<Rightarrow> jsval \<Rightarrow> string list option" where
  "exploded_value operator key v =
     (case v of
        JArr vs \<Rightarrow>
          all_some (map (\<lambda>w. encodeValue operator w (if isKeyOperator operator then Some key else None))
            (filter isDefined vs))
      | JObj ob \<Rightarrow>
          all_some (map (\<lambda>(k, w). encodeValue operator w (Some k))
            (filter (\<lambda>(k, w). isDefined w) (own_entries ob)))
      | _ \<Rightarrow> Some [])"

definition listed_value :: "char option \<Rightarrow> string \<Rightarrow> jsval \<Rightarrow> string list option" where
  "listed_value operator key v =
     do { tmp \<leftarrow> (case v of
                    JArr vs \<Rightarrow> all_some (map (\<lambda>w. encodeValue operator w None) (filter isDefined vs))
                  | JObj ob \<Rightarrow>
                      map_option concat (all_some (map (\<lambda>(k, w).
                          map_option (\<lambda>e. [encodeUnreserved k, e])
                            (encodeValue operator (JStr (to_string w)) None))
                        (filter (\<lambda>(k, w). isDefined w) (own_entries ob))))
                  | _ \<Rightarrow> Some []);
          Some (if isKeyOperator operator then [encodeUnreserved key @ ''='' @ join_with '','' tmp]
                else if tmp \<noteq> [] then [join_with '','' tmp] else []) }"

definition empty_value :: "char option \<Rightarrow> string \<Rightarrow> jsval \<Rightarrow> string list" where
  "empty_value operator key v =
     (if operator = Some (CHR '';'')
      then (if isDefined v then [encodeUnreserved key] else [])
      else if v = JStr [] \<and> (operator = Some (CHR ''&'') \<or> operator = Some (CHR ''?''))
      then [encodeUnreserved key @ ''='']
      else if v = JStr [] then [[]] else [])"

definition getValues ::
  "jsval obj \<Rightarrow> char option \<Rightarrow> string \<Rightarrow> modifier option \<Rightarrow> string list option" where
  "getValues context operator key modifier =
     (let v = ctx_get context key in
      if isDefined v \<and> v \<noteq> JStr []
      then (case v of
              JStr s \<Rightarrow> simple_value operator key modifier s
            | JNum n \<Rightarrow> simple_value operator key modifier (to_string v)
            | JBool b \<Rightarrow> simple_value operator key modifier (to_string v)
            | _ \<Rightarrow> (if modifier = Some Explode then exploded_value operator key v
                   else listed_value operator key v))
      else Some (empty_value operator key v))"

subsection \<open>Expanding a template\<close>

definition operators :: string where
  "operators = ''+#./;?&''"

text \<open>The match of \<open>/([^:\*]*)(?::(\d+)|(\*))?/\<close> in one variable.\<close>

definition parse_variable :: "string \<Rightarrow> string \<times> modifier option" where
  "parse_variable variable =
     (let k = takeWhile (\<lambda>c. c \<noteq> CHR '':'' \<and> c \<noteq> CHR ''*'') variable;
          r = dropWhile (\<lambda>c. c \<noteq> CHR '':'' \<and> c \<noteq> CHR ''*'') variable;
          ds = takeWhile is_digit (tl r)
      in if r = [] then (k, None)
         else if hd r = CHR ''*'' then (k, Some Explode)
         else if ds \<noteq> [] then (k, Some (Prefix (digits_val ds)))
         else (k, None))"

definition expand_expression :: "jsval obj \<Rightarrow> string \<Rightarrow> string option" where
  "expand_expression context expression =
     (let has = (expression \<noteq> [] \<and> hd expression \<in> set operators);
          operator = (if has then Some (hd expression) else None);
          expression = (if has then tl expression else expression)
      in do { vs \<leftarrow> all_some (map (\<lambda>variable.
                        case parse_variable variable of (k, m) \<Rightarrow> getValues context operator k m)
                      (split_on (CHR '','') expression));
              let values = concat vs;
              Some (case operator of
                      Some c \<Rightarrow>
                        if c = CHR ''+'' then join_with '','' values
                        else (let sep = (if c = CHR ''?'' then CHR ''&''
                                         else if c \<noteq> CHR ''#'' then c else CHR '','')
                              in (if values \<noteq> [] then [c] else []) @ join_with [sep] values)
                    | None \<Rightarrow> join_with '','' values) })"

abbreviation not_brace :: "char \<Rightarrow> bool" where
  "not_brace c \<equiv> c \<noteq> CHR ''{'' \<and> c \<noteq> CHR ''}''"

text \<open>
  The replacement goes from left to right: an expression between braces is expanded, a run of
  characters that are no braces is encoded, any other brace stays.
\<close>

function expand :: "jsval obj \<Rightarrow> string \<Rightarrow> string option" where
  "expand context template =
     (if template = [] then Some []
      else if not_brace (hd template)
      then map_option ((@) (encodeReserved (takeWhile not_brace template)))
             (expand context (dropWhile not_brace template))
      else (let e = takeWhile not_brace (tl template); r = dropWhile not_brace (tl template)
            in if hd template = CHR ''{'' \<and> e \<noteq> [] \<and> r \<noteq> [] \<and> hd r = CHR ''}''
               then do { x \<leftarrow> expand_expression context e; y \<leftarrow> expand context (tl r); Some (x @ y) }
               else map_option ((#) (hd template)) (expand context (tl template))))"
  by pat_completeness auto
termination
proof (relation "measure (\<lambda>(_, t). length t)", goal_cases)
  case (2 c t)
  then show ?case by (cases t) (simp_all add: le_imp_less_Suc length_dropWhile_le)
next
  case (3 c t e r x)
  have "length r \<le> length (tl t)" unfolding 3(4) by (rule length_dropWhile_le)
  with 3 show ?case by (cases t; cases r) simp_all
qed auto

declare expand.simps [simp del]

subsection \<open>What a value can put into a URL\<close>

definition special :: "char \<Rightarrow> bool" where
  "special c = (c \<in> set ''!()*'' \<or> c = CHR 0x27)"

text \<open>The unreserved characters of a URL.\<close>

definition unreserved :: "char \<Rightarrow> bool" where
  "unreserved c = (is_alpha c \<or> is_digit c \<or> c \<in> set ''-_.~'')"

definition unres_token :: "char \<Rightarrow> string" where
  "unres_token c = (if special c then pct (code c) else enc_char c)"

lemma special_code: "special c \<Longrightarrow> code c < 128 \<and> uri_unescaped c"
  by (auto simp: special_def uri_unescaped_def)

lemma hex_digit_unreserved: "d < 16 \<Longrightarrow> unreserved (hex_digit d)"
  by (auto simp: unreserved_def hex_digit_def is_digit_def is_alpha_def is_upper_def)

lemma unreserved_not_special: "unreserved c \<Longrightarrow> \<not> special c"
  by (auto simp: unreserved_def special_def char_class_defs)

lemma pct_unreserved: "b < 256 \<Longrightarrow> c \<in> set (pct b) \<Longrightarrow> unreserved c \<or> c = CHR ''%''"
  by (auto simp: pct_def less_mult_imp_div_less intro!: hex_digit_unreserved)

lemma enc_char_plain:
  assumes "x \<in> set (enc_char c)" and "\<not> special c"
  shows "unreserved x \<or> x = CHR ''%''"
proof (cases "uri_unescaped c")
  case True
  with assms show ?thesis
    by (auto simp: enc_char_def uri_unescaped_def unreserved_def special_def)
next
  case False
  have "code c < 64 * 64" using code_less_256 [of c] by linarith
  then have "code c div 64 < 64" by (rule less_mult_imp_div_less)
  then have "192 + code c div 64 < 256" "128 + code c mod 64 < 256" "code c < 256" by auto
  with False assms(1) show ?thesis
    using pct_unreserved [of "code c" x] pct_unreserved [of "192 + code c div 64" x]
      pct_unreserved [of "128 + code c mod 64" x]
    by (simp add: enc_char_def split: if_splits) blast
qed

lemma unres_token_eq:
  "concat (map (\<lambda>c. if special c then pct (code c) else [c]) (enc_char c))
     = unres_token c"
proof (cases "special c")
  case True
  with special_code [OF True] show ?thesis
    by (simp add: enc_char_def unres_token_def)
next
  case False
  have "\<not> special CHR ''%''" by (simp add: special_def)
  then have "\<forall>x \<in> set (enc_char c). \<not> special x"
    using enc_char_plain [OF _ False] unreserved_not_special by blast
  then have "concat (map (\<lambda>c. if special c then pct (code c) else [c]) xs) = xs"
    if "set xs \<subseteq> set (enc_char c)" for xs
    using that by (induction xs) auto
  with False show ?thesis by (simp add: unres_token_def)
qed

lemma encodeUnreserved_eq: "encodeUnreserved s = concat (map unres_token s)"
proof -
  have "encodeUnreserved s = concat (map (\<lambda>c. if special c then pct (code c) else [c]) (encodeURIComponent s))"
    by (simp add: encodeUnreserved_def special_def)
  moreover have "concat (map (\<lambda>c. if special c then pct (code c) else [c]) (encodeURIComponent s))
      = concat (map unres_token s)"
    by (induction s) (simp_all add: encodeURIComponent_def unres_token_eq)
  ultimately show ?thesis by simp
qed

lemma decode_unres_token:
  "decodeURIComponent (unres_token c @ s) = map_option ((#) c) (decodeURIComponent s)"
proof (cases "special c")
  case True
  with special_code [OF True] show ?thesis
    using decode_pct1 [of "pct (code c) @ s" "code c" s] by (simp add: unres_token_def)
next
  case False
  then show ?thesis by (simp add: unres_token_def decode_enc_char)
qed

lemma decode_unreserved: "decodeURIComponent (encodeUnreserved s) = Some s"
  unfolding encodeUnreserved_eq by (induction s) (simp_all add: decode_unres_token)

lemma encodeUnreserved_chars:
  assumes "x \<in> set (encodeUnreserved s)"
  shows "unreserved x \<or> x = CHR ''%''"
proof -
  from assms obtain c where c: "x \<in> set (unres_token c)" by (auto simp: encodeUnreserved_eq)
  show ?thesis
  proof (cases "special c")
    case True
    with special_code [OF True] c show ?thesis
      using pct_unreserved [of "code c" x] by (simp add: unres_token_def)
  next
    case False
    with c show ?thesis by (intro enc_char_plain [of x c]) (simp_all add: unres_token_def)
  qed
qed

lemma encodeReserved_Nil [simp]: "encodeReserved [] = []"
  by (simp add: encodeReserved_def encodeURI_def)

text \<open>A plain variable: no operator, no modifier, one name.\<close>

definition plain_key :: "string \<Rightarrow> bool" where
  "plain_key k = (k \<noteq> [] \<and> hd k \<notin> set operators \<and> list_all not_brace k
     \<and> CHR '','' \<notin> set k \<and> CHR '':'' \<notin> set k \<and> CHR ''*'' \<notin> set k)"

lemma parse_plain: "plain_key k \<Longrightarrow> parse_variable k = (k, None)"
proof -
  assume k: "plain_key k"
  then have "takeWhile (\<lambda>c. c \<noteq> CHR '':'' \<and> c \<noteq> CHR ''*'') k = k"
    "dropWhile (\<lambda>c. c \<noteq> CHR '':'' \<and> c \<noteq> CHR ''*'') k = []"
    by (auto simp: plain_key_def takeWhile_eq_all_conv dropWhile_eq_Nil_conv)
  then show ?thesis by (simp add: parse_variable_def Let_def)
qed

lemma expand_plain:
  assumes "plain_key k" and "map_of ctx k = Some (JStr v)" and "v \<noteq> []"
  shows "expand_expression ctx k = Some (encodeUnreserved v)"
proof -
  have "split_on (CHR '','') k = [k]"
    using assms(1) by (intro split_by_none) (auto simp: plain_key_def)
  moreover have "getValues ctx None k None = Some [encodeUnreserved v]"
    using assms(2,3) by (simp add: getValues_def ctx_get_def isDefined_def simple_value_def
        encodeValue_def isKeyOperator_def Let_def)
  ultimately show ?thesis
    using assms(1) by (simp add: expand_expression_def plain_key_def parse_plain [OF assms(1)] Let_def)
qed

lemma expand_variable:
  assumes "plain_key k"
  shows "expand ctx (CHR ''{'' # k @ CHR ''}'' # post) =
    Option.bind (expand_expression ctx k) (\<lambda>x. Option.bind (expand ctx post) (\<lambda>y. Some (x @ y)))"
proof -
  have "takeWhile not_brace (k @ CHR ''}'' # post) = k"
    "dropWhile not_brace (k @ CHR ''}'' # post) = CHR ''}'' # post"
    using assms by (auto simp: plain_key_def list_all_iff takeWhile_append2 dropWhile_append2)
  with assms show ?thesis by (simp add: expand.simps [of ctx "CHR ''{'' # _"] plain_key_def Let_def)
qed

lemma expand_literal:
  assumes "list_all not_brace pre" and "post = [] \<or> \<not> not_brace (hd post)"
  shows "expand ctx (pre @ post) = map_option ((@) (encodeReserved pre)) (expand ctx post)"
proof (cases pre)
  case Nil
  then show ?thesis by (cases "expand ctx post") simp_all
next
  case (Cons c s)
  have "takeWhile not_brace (pre @ post) = pre" "dropWhile not_brace (pre @ post) = post"
    using assms by (cases post; auto simp: list_all_iff takeWhile_append2 dropWhile_append2
        takeWhile_eq_all_conv)+
  moreover have "pre @ post \<noteq> []" "not_brace (hd (pre @ post))" using Cons assms(1) by simp_all
  ultimately show ?thesis by (subst expand.simps) (simp only: if_False if_True not_False_eq_True simp_thms)
qed

subsection \<open>Slashes of a template\<close>

text \<open>A slash is no part of an escape, so the text before and after it is encoded by itself.\<close>

lemma slash_facts [simp]: "hex_val CHR ''/'' = None" "encodeURI (s @ t) = encodeURI s @ encodeURI t"
  "encodeURI ''/'' = ''/''"
  by (simp_all add: hex_val_def is_digit_def encodeURI_def enc_uri_char_def)

lemma split_pct_ne [simp]: "split_pct s \<noteq> []"
proof -
  have "cons_hd c xs \<noteq> []" for c xs by (cases xs) simp_all
  then show ?thesis by (induction s rule: split_pct.induct) simp_all
qed

lemma cons_hd_snoc: "xs \<noteq> [] \<Longrightarrow>
   cons_hd p (butlast xs @ [last xs @ d]) = butlast (cons_hd p xs) @ [last (cons_hd p xs) @ d]"
  by (cases xs; cases "tl xs") auto

lemma split_pct_slash: "split_pct (s @ ''/'') = butlast (split_pct s) @ [last (split_pct s) @ ''/'']"
proof (induction s rule: split_pct.induct)
  case (1 p h l s)
  note c = cons_hd_snoc [of "split_pct (h # l # s)" p "''/''", OF split_pct_ne]
  show ?case
  proof (cases "p = CHR ''%'' \<and> is_hex h \<and> is_hex l")
    case True
    then show ?thesis using 1(1) by auto
  next
    case False
    then show ?thesis using 1(2) c by auto
  qed
qed simp_all

lemma split_pct_slash_first: "split_pct (CHR ''/'' # s) = cons_hd (CHR ''/'') (split_pct s)"
proof (cases s)
  case (Cons a t)
  then show ?thesis by (cases t) simp_all
qed simp

lemma has_pct_slash [simp]: "has_pct (s @ ''/'') = has_pct s" "has_pct (CHR ''/'' # s) = has_pct s"
proof -
  show "has_pct (s @ ''/'') = has_pct s" by (induction s rule: has_pct.induct) simp_all
  show "has_pct (CHR ''/'' # s) = has_pct s" by (cases s) simp_all
qed

lemma replace_pct_slash:
  assumes "l \<noteq> CHR ''/''" and "h \<noteq> CHR ''/''"
  shows "replace_pct h l r (s @ ''/'') = replace_pct h l r s @ ''/''"
    and "replace_pct h l r (CHR ''/'' # s) = CHR ''/'' # replace_pct h l r s"
proof -
  show "replace_pct h l r (s @ ''/'') = replace_pct h l r s @ ''/''"
    using assms by (induction h l r s rule: replace_pct.induct) auto
  show "replace_pct h l r (CHR ''/'' # s) = CHR ''/'' # replace_pct h l r s"
  proof (cases s)
    case (Cons a t)
    then show ?thesis by (cases t) simp_all
  qed simp
qed

definition enc_part :: "string \<Rightarrow> string" where
  "enc_part part =
     (if \<not> has_pct part
      then replace_pct (CHR ''5'') (CHR ''D'') (CHR '']'')
             (replace_pct (CHR ''5'') (CHR ''B'') (CHR ''['') (encodeURI part))
      else part)"

lemma enc_part_slash: "enc_part (s @ ''/'') = enc_part s @ ''/''" "enc_part (CHR ''/'' # s) = CHR ''/'' # enc_part s"
proof -
  have "encodeURI (CHR ''/'' # s) = CHR ''/'' # encodeURI s"
    using slash_facts(2) [of "''/''" s] by simp
  then show "enc_part (s @ ''/'') = enc_part s @ ''/''" "enc_part (CHR ''/'' # s) = CHR ''/'' # enc_part s"
    by (simp_all add: enc_part_def replace_pct_slash)
qed

lemma encodeReserved_parts: "encodeReserved s = concat (map enc_part (split_pct s))"
  unfolding encodeReserved_def enc_part_def ..

lemma encodeReserved_slash:
  "encodeReserved (s @ ''/'') = encodeReserved s @ ''/''"
  "encodeReserved (CHR ''/'' # s) = CHR ''/'' # encodeReserved s"
proof -
  obtain ys y where "split_pct s = ys @ [y]" using split_pct_ne [of s] by (metis rev_exhaust)
  then show "encodeReserved (s @ ''/'') = encodeReserved s @ ''/''"
    by (simp add: encodeReserved_parts split_pct_slash enc_part_slash)
  show "encodeReserved (CHR ''/'' # s) = CHR ''/'' # encodeReserved s"
    by (cases "split_pct s") (simp_all add: encodeReserved_parts split_pct_slash_first enc_part_slash)
qed

lemma expand_slash:
  assumes "expand ctx (CHR ''/'' # post) = Some r"
  shows "\<exists>t. r = CHR ''/'' # t"
proof -
  have "expand ctx (CHR ''/'' # post) =
      map_option ((@) (encodeReserved (CHR ''/'' # takeWhile not_brace post))) (expand ctx (dropWhile not_brace post))"
    by (subst expand.simps) simp
  with assms show ?thesis by (auto simp: encodeReserved_slash)
qed

subsection \<open>Segments of a path\<close>

text \<open>
  What a browser makes of the segments of a path: one dot, also when it is written as an escape, is
  dropped, and two dots drop the segment before them.
\<close>

definition single_dot :: "string \<Rightarrow> bool" where
  "single_dot s \<longleftrightarrow> toLowerCase s \<in> {''.'', ''%2e''}"

definition double_dot :: "string \<Rightarrow> bool" where
  "double_dot s \<longleftrightarrow> toLowerCase s \<in> {''..'', ''.%2e'', ''%2e.'', ''%2e%2e''}"

definition resolve_segment :: "string \<Rightarrow> string list \<Rightarrow> string list" where
  "resolve_segment s up =
     (if double_dot s then butlast up else if single_dot s then up else up @ [s])"

definition resolve_segments :: "string list \<Rightarrow> string list" where
  "resolve_segments ss = fold resolve_segment ss []"

lemma lower_char_inv:
  "lower_char c = CHR ''%'' \<longleftrightarrow> c = CHR ''%''" "lower_char c = CHR ''2'' \<longleftrightarrow> c = CHR ''2''"
  "lower_char c = CHR ''.'' \<longleftrightarrow> c = CHR ''.''" "lower_char c = CHR ''e'' \<longleftrightarrow> c = CHR ''e'' \<or> c = CHR ''E''"
proof -
  have cd: "a = d \<longleftrightarrow> code a = n" if "code d = n" for a d :: char and n :: nat
    using that by (metis of_char_eq_iff)
  have l: "code (lower_char c) = (if is_upper c \<or> (192 \<le> code c \<and> code c \<le> 222 \<and> code c \<noteq> 215) then code c + 32 else code c)"
    by (simp add: lower_char_def is_upper_def)
  have n: "code CHR ''%'' = 37" "code CHR ''2'' = 50" "code CHR ''.'' = 46" "code CHR ''e'' = 101" "code CHR ''E'' = 69"
    by simp_all
  show "lower_char c = CHR ''%'' \<longleftrightarrow> c = CHR ''%''" "lower_char c = CHR ''2'' \<longleftrightarrow> c = CHR ''2''"
    "lower_char c = CHR ''.'' \<longleftrightarrow> c = CHR ''.''" "lower_char c = CHR ''e'' \<longleftrightarrow> c = CHR ''e'' \<or> c = CHR ''E''"
    unfolding n [THEN cd] l is_upper_def by auto
qed

lemma lower_Cons: "toLowerCase s = d # t \<longleftrightarrow> (\<exists>c u. s = c # u \<and> lower_char c = d \<and> toLowerCase u = t)"
  by (cases s) auto

lemma lower_Nil: "toLowerCase s = [] \<longleftrightarrow> s = []"
  by (cases s) simp_all

lemma dots_decode:
  "single_dot x \<Longrightarrow> decodeURIComponent x = Some ''.''" "double_dot x \<Longrightarrow> decodeURIComponent x = Some ''..''"
  unfolding single_dot_def double_dot_def insert_iff empty_iff lower_Cons lower_Nil lower_char_inv
  by (elim disjE exE conjE FalseE; hypsubst; code_simp)+

text \<open>No encoded value is a dot written as an escape: its percent sign is encoded itself.\<close>

lemma encoded_dots:
  "single_dot (encodeUnreserved v) \<longleftrightarrow> v = ''.''" "double_dot (encodeUnreserved v) \<longleftrightarrow> v = ''..''"
proof -
  have "single_dot (encodeUnreserved ''.'')" "double_dot (encodeUnreserved ''..'')" by code_simp+
  then show "single_dot (encodeUnreserved v) \<longleftrightarrow> v = ''.''" "double_dot (encodeUnreserved v) \<longleftrightarrow> v = ''..''"
    using dots_decode [of "encodeUnreserved v"] decode_unreserved [of v] by auto
qed
lemma kept_segment: "v \<noteq> ''.'' \<Longrightarrow> v \<noteq> ''..'' \<Longrightarrow>
   resolve_segments (ss @ [encodeUnreserved v]) = resolve_segments ss @ [encodeUnreserved v]"
  by (simp add: resolve_segments_def resolve_segment_def encoded_dots)

lemma encoded_no_slash: "CHR ''/'' \<notin> set (encodeUnreserved v)"
proof
  assume "CHR ''/'' \<in> set (encodeUnreserved v)"
  from encodeUnreserved_chars [OF this] show False by (auto simp: unreserved_def char_class_defs)
qed

lemma split_on_append: "split_on d (s @ d # t) = split_on d s @ split_on d t"
  by (induction s) (auto split: list.split)

text \<open>
  C24: a path parameter is one segment of the path.  Expanding a plain variable that stands between
  slashes, or after the last one, puts there the value percent-encoded, and the rest of the template
  goes on as it would alone.  The result splits at its slashes into the segments before the
  variable, the encoded value, and the segments after it.  The encoded value decodes to the value and
  has no characters but unreserved ones and percent signs, so no value can end its segment, start a
  query or name another host; and a browser that resolves the dots of the path keeps the
  value as a segment of its own and what stands before it as it was, unless the value is one dot or two.
\<close>

theorem path_parameter_contained:
  assumes "list_all not_brace pre" and "plain_key k"
    and "map_of ctx k = Some (JStr v)" and "v \<noteq> []" and "post = [] \<or> hd post = CHR ''/''"
  defines "u \<equiv> expand ctx (pre @ ''/'' @ CHR ''{'' # k @ CHR ''}'' # post)"
  shows "u = map_option (\<lambda>r. encodeReserved pre @ ''/'' @ encodeUnreserved v @ r) (expand ctx post)
    \<and> (\<forall>r. expand ctx post = Some r \<longrightarrow> split_on (CHR ''/'') (the u) =
          split_on (CHR ''/'') (encodeReserved pre) @ encodeUnreserved v # tl (split_on (CHR ''/'') r))
    \<and> decodeURIComponent (encodeUnreserved v) = Some v
    \<and> (\<forall>c \<in> set (encodeUnreserved v). unreserved c \<or> c = CHR ''%'')
    \<and> (v \<noteq> ''.'' \<and> v \<noteq> ''..'' \<longrightarrow> (\<forall>ss. resolve_segments (ss @ [encodeUnreserved v])
          = resolve_segments ss @ [encodeUnreserved v]))"
proof -
  have "list_all not_brace (pre @ ''/'')" using assms(1) by simp
  from expand_literal [OF this, of "CHR ''{'' # k @ CHR ''}'' # post" ctx]
  have u: "u = map_option (\<lambda>r. encodeReserved pre @ ''/'' @ encodeUnreserved v @ r) (expand ctx post)"
    using expand_variable [OF assms(2), of ctx post] expand_plain [OF assms(2-4)]
    by (cases "expand ctx post") (simp_all add: u_def encodeReserved_slash)
  have "split_on (CHR ''/'') (the u) =
      split_on (CHR ''/'') (encodeReserved pre) @ encodeUnreserved v # tl (split_on (CHR ''/'') r)"
    if r: "expand ctx post = Some r" for r
  proof (cases post)
    case Nil
    then have "r = []" using r by (simp add: expand.simps)
    then show ?thesis
      using u r split_by_none [of "encodeUnreserved v" "\<lambda>c. c = CHR ''/''"] encoded_no_slash [of v]
      by (auto simp: split_on_append)
  next
    case (Cons a s)
    then obtain t where "r = CHR ''/'' # t" using expand_slash [of ctx s r] r assms(5) by auto
    then show ?thesis
      using u r split_by_none [of "encodeUnreserved v" "\<lambda>c. c = CHR ''/''"] encoded_no_slash [of v]
        split_on_append [of "CHR ''/''" "encodeUnreserved v" t]
      by (auto simp: split_on_append)
  qed
  with u show ?thesis using decode_unreserved [of v] encodeUnreserved_chars [of _ v] kept_segment [of v] by blast
qed

theorem path_parameter_contained_witness:
  "expand [(''id'', JStr ''../x?y'')] (''/users'' @ ''/'' @ CHR ''{'' # ''id'' @ CHR ''}'' # ''/'')
     = Some ''/users/..%2Fx%3Fy/''
   \<and> (\<forall>ss. resolve_segments (ss @ [''..%2Fx%3Fy'']) = resolve_segments ss @ [''..%2Fx%3Fy''])"
proof -
  have e: "encodeReserved ''/users'' = ''/users''" "encodeUnreserved ''../x?y'' = ''..%2Fx%3Fy''"
    "expand [(''id'', JStr ''../x?y'')] ''/'' = Some ''/''" by code_simp+
  have "list_all not_brace ''/users''" "plain_key ''id''" by code_simp+
  from path_parameter_contained [OF this, of "[(''id'', JStr ''../x?y'')]" "''../x?y''" "''/''"] e
  show ?thesis by simp
qed

text \<open>
  Two dots are unreserved characters and stay as they are, so a value of two dots takes the segment
  before it away: the address of one object becomes that of another resource.
\<close>

lemma dots_leave_segment:
  "expand [(''id'', JStr ''..'')] (''/users/'' @ CHR ''{'' # ''id'' @ CHR ''}'' # ''/delete/'') = Some ''/users/../delete/''"
  "resolve_segments (split_on (CHR ''/'') ''/users/../delete/'') = split_on (CHR ''/'') ''/delete/''"
proof -
  have e: "encodeReserved ''/users'' = ''/users''" "encodeUnreserved ''..'' = ''..''"
    "expand [(''id'', JStr ''..'')] ''/delete/'' = Some ''/delete/''" by code_simp+
  have k: "list_all not_brace ''/users/''" "plain_key ''id''" by code_simp+
  show "expand [(''id'', JStr ''..'')] (''/users/'' @ CHR ''{'' # ''id'' @ CHR ''}'' # ''/delete/'') = Some ''/users/../delete/''"
    using e expand_literal [OF k(1), of "CHR ''{'' # ''id'' @ CHR ''}'' # ''/delete/''" "[(''id'', JStr ''..'')]"]
      expand_variable [OF k(2), of "[(''id'', JStr ''..'')]" "''/delete/''"] expand_plain [OF k(2), of "[(''id'', JStr ''..'')]"]
      encodeReserved_slash(1) [of "''/users''"] by simp
  show "resolve_segments (split_on (CHR ''/'') ''/users/../delete/'') = split_on (CHR ''/'') ''/delete/''"
    by code_simp
qed

text \<open>A percent sign with one hexadecimal digit after it keeps the literal from being encoded.\<close>

lemma literal_left_raw: "encodeReserved ''50%a b'' = ''50%a b''"
  by code_simp

end
