(* ===== verification/CoreJson.thy ===== *)
theory CoreJson
  imports UrlParse UrlTemplate
begin

text \<open>
  Documents and codecs of the API client, modules 5 to 11 and 15 of
  \<open>koded-cli/web/backend/staticfiles/rest_framework/js/coreapi-0.1.1.js\<close>: the schema document
  decoded from JSON, the lookup of a link in it, and the choice of decoder and transport.
\<close>

subsection \<open>Documents\<close>

record field =
  fl_name :: string
  fl_required :: bool
  fl_location :: string
  fl_description :: string

record link =
  l_url :: string
  l_method :: string
  l_encoding :: string
  l_fields :: "field list"
  l_title :: string
  l_description :: string

text \<open>Decoded content: the document's classes and the values they hold.\<close>

datatype cnode =
    Prim jsval
  | Arr "cnode list"
  | Obj "(string \<times> cnode) list"
  | Document string string string "(string \<times> cnode) list"
  | Link link

text \<open>The constructor calls: an argument that is not given has its default.\<close>

definition new_link :: "string \<Rightarrow> string \<Rightarrow> link" where
  "new_link u m = \<lparr>l_url = u, l_method = m, l_encoding = ''application/json'', l_fields = [],
     l_title = [], l_description = []\<rparr>"

subsection \<open>The codec\<close>

definition ends_with :: "string \<Rightarrow> string \<Rightarrow> bool" where
  "ends_with s t = starts_with (rev s) (rev t)"

definition unescapeKey :: "string \<Rightarrow> string" where
  "unescapeKey key =
     (if ends_with key ''__type'' \<or> ends_with key ''__meta'' then drop 1 key else key)"

text \<open>Reading a property of \<open>null\<close> throws.\<close>

definition getString :: "jsval \<Rightarrow> string \<Rightarrow> js_error + string" where
  "getString ob key =
     (case get_prop ob key of Inl e \<Rightarrow> Inl e
      | Inr v \<Rightarrow> Inr (case v of JStr s \<Rightarrow> s | _ \<Rightarrow> []))"

definition getBoolean :: "jsval \<Rightarrow> string \<Rightarrow> js_error + bool" where
  "getBoolean ob key =
     (case get_prop ob key of Inl e \<Rightarrow> Inl e
      | Inr v \<Rightarrow> Inr (case v of JBool b \<Rightarrow> b | _ \<Rightarrow> False))"

text \<open>\<open>null\<close> is an object to \<open>typeof\<close>.\<close>

definition getObject :: "jsval \<Rightarrow> string \<Rightarrow> js_error + jsval" where
  "getObject ob key =
     (case get_prop ob key of Inl e \<Rightarrow> Inl e
      | Inr v \<Rightarrow> Inr (case v of JNull \<Rightarrow> v | JArr _ \<Rightarrow> v | JObj _ \<Rightarrow> v | _ \<Rightarrow> JObj []))"

definition getArray :: "jsval \<Rightarrow> string \<Rightarrow> js_error + jsval list" where
  "getArray ob key =
     (case get_prop ob key of Inl e \<Rightarrow> Inl e
      | Inr v \<Rightarrow> Inr (case v of JArr vs \<Rightarrow> vs | _ \<Rightarrow> []))"

definition bind_err :: "'e + 'a \<Rightarrow> ('a \<Rightarrow> 'e + 'b) \<Rightarrow> 'e + 'b" where
  "bind_err r f = (case r of Inl e \<Rightarrow> Inl e | Inr a \<Rightarrow> f a)"

lemma bind_err_cong [fundef_cong]:
  "r = r' \<Longrightarrow> (\<And>a. r' = Inr a \<Longrightarrow> f a = f' a) \<Longrightarrow> bind_err r f = bind_err r' f'"
  by (auto simp: bind_err_def split: sum.split)

fun all_ok :: "('e + 'a) list \<Rightarrow> 'e + 'a list" where
  "all_ok [] = Inr []"
| "all_ok (x # xs) = bind_err x (\<lambda>a. bind_err (all_ok xs) (\<lambda>as. Inr (a # as)))"

definition decode_field :: "jsval \<Rightarrow> js_error + field" where
  "decode_field v =
     bind_err (getString v ''name'') (\<lambda>nm.
     bind_err (getBoolean v ''required'') (\<lambda>rq.
     bind_err (getString v ''location'') (\<lambda>lc.
     bind_err (getString v ''fieldDescription'') (\<lambda>ds.
       Inr \<lparr>fl_name = nm, fl_required = rq, fl_location = lc, fl_description = ds\<rparr>))))"

text \<open>\<open>relativeUrl ? URL(relativeUrl, baseUrl).toString() : ''\<close>\<close>

definition resolve_url :: "location \<Rightarrow> string option \<Rightarrow> string \<Rightarrow> string" where
  "resolve_url page base rel = (if rel \<noteq> [] then url_toString (URL page rel base) else [])"

definition decode_link :: "location \<Rightarrow> string option \<Rightarrow> jsval \<Rightarrow> js_error + link" where
  "decode_link page base data =
     bind_err (getString data ''url'') (\<lambda>u.
     bind_err (getString data ''action'') (\<lambda>m.
     bind_err (getString data ''title'') (\<lambda>t.
     bind_err (getString data ''description'') (\<lambda>d.
     bind_err (getArray data ''fields'') (\<lambda>fs.
     bind_err (all_ok (map decode_field fs)) (\<lambda>fields.
       Inr \<lparr>l_url = resolve_url page base u, l_method = or_else m ''get'',
            l_encoding = ''application/json'', l_fields = fields, l_title = t,
            l_description = d\<rparr>))))))"

text \<open>The parts of a document besides its content: address, title and description.\<close>

definition document_head ::
  "location \<Rightarrow> string option \<Rightarrow> jsval \<Rightarrow> js_error + (string \<times> string \<times> string)" where
  "document_head page base data =
     bind_err (getObject data ''_meta'') (\<lambda>meta.
     bind_err (getString meta ''url'') (\<lambda>u.
     bind_err (getString meta ''title'') (\<lambda>t.
     bind_err (getString meta ''description'') (\<lambda>d.
       Inr (resolve_url page base u, t, d)))))"

definition build_obj :: "(string \<times> 'a) list \<Rightarrow> (string \<times> 'a) list" where
  "build_obj es = foldl (\<lambda>ob e. obj_set (fst e) (snd e) ob) [] es"

definition excluded :: "string list" where
  "excluded = [''_type'', ''_meta'']"

definition content_entries :: "(string \<times> jsval) list \<Rightarrow> (string \<times> jsval) list" where
  "content_entries ob = filter (\<lambda>e. fst e \<notin> set excluded) (own_entries ob)"

lemma set_content_entries [simp]:
  "set (content_entries ob) = {e \<in> set ob. fst e \<notin> set excluded}"
  by (auto simp: content_entries_def)

definition type_of :: "(string \<times> jsval) list \<Rightarrow> jsval" where
  "type_of ob = (case map_of ob ''_type'' of None \<Rightarrow> JUndef | Some v \<Rightarrow> v)"

text \<open>A data object with a property called \<open>hasOwnProperty\<close> hides the method the loops call.\<close>

definition hides_method :: "(string \<times> jsval) list \<Rightarrow> bool" where
  "hides_method ob = (map_of ob ''hasOwnProperty'' \<noteq> None)"

definition not_a_function :: js_error where
  "not_a_function = js_err TypeError ''hasOwnProperty is not a function''"

fun primitiveToNode :: "location \<Rightarrow> string option \<Rightarrow> jsval \<Rightarrow> js_error + cnode" where
  "primitiveToNode page base (JObj ob) =
     (if type_of ob = JStr ''document'' then
        bind_err (document_head page base (JObj ob)) (\<lambda>(u, t, d).
          if hides_method ob then Inl not_a_function
          else bind_err (all_ok (map (\<lambda>(k, v).
                   bind_err (primitiveToNode page (Some u) v) (\<lambda>n. Inr (unescapeKey k, n)))
                 (content_entries ob)))
                 (\<lambda>es. Inr (Document u t d (build_obj es))))
      else if type_of ob = JStr ''link'' then
        bind_err (decode_link page base (JObj ob)) (\<lambda>l. Inr (Link l))
      else if hides_method ob then Inl not_a_function
      else bind_err (all_ok (map (\<lambda>(k, v).
               bind_err (primitiveToNode page base v) (\<lambda>n. Inr (k, n))) (own_entries ob)))
             (\<lambda>es. Inr (Obj (build_obj es))))"
| "primitiveToNode page base (JArr vs) =
     bind_err (all_ok (map (primitiveToNode page base) vs)) (\<lambda>ns. Inr (Arr ns))"
| "primitiveToNode page base v = Inr (Prim v)"

text \<open>The codecs and their \<open>decode\<close>; the text of a response comes with what \<open>JSON.parse\<close>
  makes of it.\<close>

datatype codec = CoreJSONCodec | JSONCodec | TextCodec

definition mediaType :: "codec \<Rightarrow> string" where
  "mediaType c = (case c of CoreJSONCodec \<Rightarrow> ''application/coreapi+json''
     | JSONCodec \<Rightarrow> ''application/json'' | TextCodec \<Rightarrow> ''text/*'')"

fun embed :: "jsval \<Rightarrow> cnode" where
  "embed (JArr vs) = Arr (map embed vs)"
| "embed (JObj ob) = Obj (map (\<lambda>(k, v). (k, embed v)) ob)"
| "embed v = Prim v"

record text_body =
  tb_text :: string
  tb_json :: "js_error + jsval"

definition CoreJSON_decode :: "location \<Rightarrow> text_body \<Rightarrow> string option \<Rightarrow> js_error + cnode" where
  "CoreJSON_decode page body url = bind_err (tb_json body) (primitiveToNode page url)"

definition JSON_decode :: "text_body \<Rightarrow> js_error + cnode" where
  "JSON_decode body = bind_err (tb_json body) (\<lambda>v. Inr (embed v))"

definition Text_decode :: "text_body \<Rightarrow> js_error + cnode" where
  "Text_decode body = Inr (Prim (JStr (tb_text body)))"

definition decode :: "location \<Rightarrow> codec \<Rightarrow> text_body \<Rightarrow> string option \<Rightarrow> js_error + cnode" where
  "decode page c body url =
     (case c of
        CoreJSONCodec \<Rightarrow> CoreJSON_decode page body url
      | JSONCodec \<Rightarrow> JSON_decode body
      | TextCodec \<Rightarrow> Text_decode body)"

subsection \<open>Looking up a link\<close>

text \<open>
  The value of a property of a node, \<open>None\<close> for \<open>undefined\<close>.  No property of a link or of a
  primitive is a link or leads to one, so a lookup that goes through them ends in the same error
  whether the property exists or not; it is \<open>None\<close> here.
\<close>

definition node_get :: "cnode \<Rightarrow> string \<Rightarrow> js_error + cnode option" where
  "node_get n key =
     (case n of
        Document u t d content \<Rightarrow> Inr (map_of content key)
      | Obj ob \<Rightarrow> Inr (map_of ob key)
      | Arr ns \<Rightarrow>
          Inr (if is_index_key key \<and> digits_val key < length ns then Some (ns ! digits_val key)
               else None)
      | Prim JNull \<Rightarrow> bind_err (get_prop JNull key) (\<lambda>_. Inr None)
      | Prim JUndef \<Rightarrow> bind_err (get_prop JUndef key) (\<lambda>_. Inr None)
      | _ \<Rightarrow> Inr None)"

definition invalid_lookup :: "string list \<Rightarrow> js_error" where
  "invalid_lookup keys = js_err LinkLookupError (''Invalid link lookup: '' @ json (JArr (map JStr keys)))"

fun walk :: "string list \<Rightarrow> cnode \<Rightarrow> string list \<Rightarrow> js_error + cnode" where
  "walk all n [] = Inr n"
| "walk all n (k # ks) =
     bind_err (node_get n k) (\<lambda>m.
       case m of None \<Rightarrow> Inl (invalid_lookup all) | Some n' \<Rightarrow> walk all n' ks)"

definition lookupLink :: "cnode \<Rightarrow> string list \<Rightarrow> js_error + link" where
  "lookupLink n keys =
     bind_err (walk keys n keys) (\<lambda>m. case m of Link l \<Rightarrow> Inr l | _ \<Rightarrow> Inl (invalid_lookup keys))"

subsection \<open>Transports and decoders\<close>

text \<open>A transport is given by its schemes; the result is its position.\<close>

definition determineTransport :: "location \<Rightarrow> string list list \<Rightarrow> string \<Rightarrow> js_error + nat" where
  "determineTransport page transports url =
     (let scheme = replace_first (protocol (URL page url None)) '':'' []
      in case find (\<lambda>(i, schemes). scheme \<in> set schemes) (enumerate 0 transports) of
           Some (i, _) \<Rightarrow> Inr i
         | None \<Rightarrow> Inl (js_err GenericError (''Unsupported scheme in URL: '' @ url)))"

definition acceptable_types :: "string \<Rightarrow> string list" where
  "acceptable_types contentType =
     (let fullType = trim (hd (split_on (CHR '';'') (toLowerCase contentType)));
          mainType = hd (split_on (CHR ''/'') fullType) @ ''/*''
      in [fullType, mainType, ''*/*''])"

text \<open>Without a content type the first decoder is taken, \<open>None\<close> when there is none.\<close>

definition negotiateDecoder :: "codec list \<Rightarrow> string option \<Rightarrow> js_error + codec option" where
  "negotiateDecoder decoders contentType =
     (case contentType of
        None \<Rightarrow> Inr (case decoders of [] \<Rightarrow> None | d # _ \<Rightarrow> Some d)
      | Some ct \<Rightarrow>
          (case find (\<lambda>d. mediaType d \<in> set (acceptable_types ct)) decoders of
             Some d \<Rightarrow> Inr (Some d)
           | None \<Rightarrow> Inl (js_err GenericError
                       (''Unsupported media in Content-Type header: '' @ ct))))"

definition csrfSafeMethod :: "string \<Rightarrow> bool" where
  "csrfSafeMethod m = (m \<in> {''GET'', ''HEAD'', ''OPTIONS'', ''TRACE''})"

subsection \<open>Sums\<close>

lemma bind_err_Inr: "bind_err r f = Inr b \<longleftrightarrow> (\<exists>a. r = Inr a \<and> f a = Inr b)"
  by (auto simp: bind_err_def split: sum.split)

lemma bind_err_simps [simp]: "bind_err (Inr a) f = f a" "bind_err (Inl e) f = Inl e"
  by (simp_all add: bind_err_def)

lemma all_ok_map: "all_ok (map f xs) = Inr ys \<longleftrightarrow> list_all2 (\<lambda>x y. f x = Inr y) xs ys"
proof (induction xs arbitrary: ys)
  case (Cons x xs)
  then show ?case by (cases ys) (auto simp: bind_err_Inr)
qed auto

lemma build_obj_snoc: "build_obj (es @ [e]) = obj_set (fst e) (snd e) (build_obj es)"
  by (simp add: build_obj_def)

lemma build_obj_lookup:
  "(k, x) \<in> set es \<Longrightarrow> (\<And>y. (k, y) \<in> set es \<Longrightarrow> y = x) \<Longrightarrow> map_of (build_obj es) k = Some x"
proof (induction es rule: rev_induct)
  case (snoc e es)
  show ?case
  proof (cases "fst e = k")
    case True
    then have "snd e = x" by (intro snoc.prems(2)) (metis in_set_conv_decomp prod.collapse)
    with True show ?thesis by (simp add: build_obj_snoc)
  next
    case False
    with snoc.prems(1) have "(k, x) \<in> set es" by auto
    moreover have "y = x" if "(k, y) \<in> set es" for y using snoc.prems(2) [of y] that by simp
    ultimately have "map_of (build_obj es) k = Some x" by (rule snoc.IH)
    with False show ?thesis by (simp add: build_obj_snoc)
  qed
qed simp

subsection \<open>Finding a link in a decoded document\<close>

text \<open>The raw data at the end of a path, with the address its links are relative to.\<close>

fun raw_at :: "location \<Rightarrow> string option \<Rightarrow> jsval \<Rightarrow> string list \<Rightarrow> (string option \<times> jsval) option" where
  "raw_at page base v [] = Some (base, v)"
| "raw_at page base (JObj ob) (k # ks) =
     (if type_of ob = JStr ''document''
      then (case document_head page base (JObj ob) of
              Inl _ \<Rightarrow> None
            | Inr (u, _, _) \<Rightarrow>
                if k \<in> set excluded then None
                else (case map_of ob k of None \<Rightarrow> None | Some w \<Rightarrow> raw_at page (Some u) w ks))
      else if type_of ob = JStr ''link'' then None
      else (case map_of ob k of None \<Rightarrow> None | Some w \<Rightarrow> raw_at page base w ks))"
| "raw_at page base v (k # ks) = None"

text \<open>No key twice in an object, as \<open>JSON.parse\<close> makes them.\<close>

fun json_wf :: "jsval \<Rightarrow> bool" where
  "json_wf (JArr vs) = list_all json_wf vs"
| "json_wf (JObj ob) = (obj_wf ob \<and> list_all (\<lambda>(k, v). json_wf v) ob)"
| "json_wf v = True"

definition plain_name :: "string \<Rightarrow> bool" where
  "plain_name k = (\<not> ends_with k ''__type'' \<and> \<not> ends_with k ''__meta'')"

lemma ends_with_iff: "ends_with s t \<longleftrightarrow> (\<exists>u. s = u @ t)"
  unfolding ends_with_def starts_with_iff by (metis rev_append rev_rev_ident)

lemma unescape_plain:
  assumes "unescapeKey k = m" and "plain_name m" and "m \<notin> set excluded"
  shows "k = m"
proof (rule ccontr)
  assume "k \<noteq> m"
  with assms(1) have e: "ends_with k ''__type'' \<or> ends_with k ''__meta''" "m = drop 1 k"
    by (auto simp: unescapeKey_def split: if_splits)
  then obtain u t where u: "k = u @ t" "t = ''__type'' \<or> t = ''__meta''"
    by (auto simp: ends_with_iff)
  show False
  proof (cases u)
    case Nil
    with u e(2) assms(3) show False by (auto simp: excluded_def)
  next
    case (Cons c s)
    with u e(2) assms(2) show False by (auto simp: plain_name_def ends_with_iff)
  qed
qed

lemma list_all2_in:
  assumes "list_all2 P xs ys"
  shows "x \<in> set xs \<Longrightarrow> \<exists>y \<in> set ys. P x y" and "y \<in> set ys \<Longrightarrow> \<exists>x \<in> set xs. P x y"
  using assms by (induction rule: list_all2_induct) auto

lemma decoded_entry:
  assumes "list_all2 (\<lambda>x y. f x = Inr y) xs ys" and "\<And>k v n. f (k, v) = Inr n \<Longrightarrow> fst n = g k"
    and "obj_wf xs" and "(k, v) \<in> set xs" and "\<And>k'. g k' = g k \<Longrightarrow> k' = k"
  shows "\<exists>n. f (k, v) = Inr (g k, n) \<and> map_of (build_obj ys) (g k) = Some n"
proof -
  from list_all2_in(1) [OF assms(1,4)] obtain y where y: "f (k, v) = Inr y" "y \<in> set ys" by blast
  have "map_of (build_obj ys) (g k) = Some (snd y)"
  proof (rule build_obj_lookup)
    show "(g k, snd y) \<in> set ys" using y assms(2) [OF y(1)] by (metis prod.collapse)
    fix z
    assume "(g k, z) \<in> set ys"
    with list_all2_in(2) [OF assms(1)] obtain x where x: "x \<in> set xs" "f x = Inr (g k, z)" by blast
    obtain k' v' where kv: "x = (k', v')" by (cases x)
    with x(2) assms(2) have "k' = k" by (intro assms(5)) (metis fst_conv)
    with assms(3,4) x(1) kv have "v' = v"
      unfolding obj_wf_def by (metis eq_key_imp_eq_value)
    with x(2) y(1) kv \<open>k' = k\<close> show "z = snd y" by simp
  qed
  with y(1) assms(2) [OF y(1)] show ?thesis by (metis prod.collapse)
qed

lemma obj_wf_content [simp]: "obj_wf ob \<Longrightarrow> obj_wf (content_entries ob)"
  using obj_wf_own_entries [of ob] by (auto simp: obj_wf_def content_entries_def intro: distinct_map_filter)

lemma decoded_step:
  assumes "primitiveToNode page base (JObj ob) = Inr n" and "json_wf (JObj ob)" and "plain_name k"
    and "raw_at page base (JObj ob) (k # ks) = Some r"
  shows "\<exists>b w m. map_of ob k = Some w \<and> raw_at page b w ks = Some r
    \<and> primitiveToNode page b w = Inr m \<and> node_get n k = Inr (Some m)"
proof (cases "type_of ob = JStr ''document''")
  case True
  from assms(1) True obtain u t d es where es:
    "document_head page base (JObj ob) = Inr (u, t, d)" "n = Document u t d (build_obj es)"
    "list_all2 (\<lambda>x y. (case x of (k, v) \<Rightarrow> bind_err (primitiveToNode page (Some u) v)
        (\<lambda>n. Inr (unescapeKey k, n))) = Inr y) (content_entries ob) es"
    by (auto simp: bind_err_Inr all_ok_map split: if_splits)
  from assms(4) True es(1) obtain w where w: "k \<notin> set excluded" "map_of ob k = Some w"
    "raw_at page (Some u) w ks = Some r" by (auto split: if_splits option.splits)
  have mem: "(k, w) \<in> set (content_entries ob)" using w(1,2) by (auto dest: map_of_SomeD)
  have uk: "unescapeKey k = k" using assms(3) by (simp add: unescapeKey_def plain_name_def)
  have "\<exists>m. bind_err (primitiveToNode page (Some u) w) (\<lambda>n. Inr (unescapeKey k, n)) = Inr (unescapeKey k, m)
      \<and> map_of (build_obj es) (unescapeKey k) = Some m"
    using decoded_entry [OF es(3), of unescapeKey k w] mem assms(2,3) w(1) unescape_plain [of _ k] uk
    by (auto simp: bind_err_Inr)
  then show ?thesis using w by (auto simp: bind_err_Inr uk es(2) node_get_def)
next
  case False
  with assms(4) have nl: "type_of ob \<noteq> JStr ''link''" by (auto split: if_splits)
  from assms(1) False nl obtain es where es: "n = Obj (build_obj es)"
    "list_all2 (\<lambda>x y. (case x of (k, v) \<Rightarrow> bind_err (primitiveToNode page base v)
        (\<lambda>n. Inr (k, n))) = Inr y) (own_entries ob) es"
    by (auto simp: bind_err_Inr all_ok_map split: if_splits)
  from assms(4) False nl obtain w where w: "map_of ob k = Some w" "raw_at page base w ks = Some r"
    by (auto split: if_splits option.splits)
  have mem: "(k, w) \<in> set (own_entries ob)" using w(1) by (auto dest: map_of_SomeD)
  have "\<exists>m. bind_err (primitiveToNode page base w) (\<lambda>n. Inr (k, n)) = Inr (k, m)
      \<and> map_of (build_obj es) k = Some m"
    using decoded_entry [OF es(2), of id k w] mem assms(2) by (auto simp: bind_err_Inr)
  then show ?thesis using w by (auto simp: bind_err_Inr es(1) node_get_def)
qed

lemma decoded_walk:
  assumes "primitiveToNode page base data = Inr n" and "json_wf data" and "list_all plain_name ks"
    and "raw_at page base data ks = Some (b, v)"
  shows "\<exists>m. primitiveToNode page b v = Inr m \<and> walk all n ks = Inr m"
  using assms
proof (induction ks arbitrary: base data n)
  case (Cons k ks)
  from Cons.prems(4) obtain ob where ob: "data = JObj ob" by (cases data) auto
  from decoded_step [of page base ob n k ks "(b, v)"] Cons.prems obtain b' w m where
    s: "map_of ob k = Some w" "raw_at page b' w ks = Some (b, v)"
      "primitiveToNode page b' w = Inr m" "node_get n k = Inr (Some m)" by (auto simp: ob)
  have "json_wf w" using Cons.prems(2) s(1) by (auto simp: ob list_all_iff dest: map_of_SomeD)
  with Cons.IH [OF s(3) _ _ s(2)] Cons.prems(3) s(4) show ?case by auto
qed simp


definition sample_schema :: jsval where
  "sample_schema = JObj
     [(''_type'', JStr ''document''), (''_meta'', JObj [(''title'', JStr ''API'')]),
      (''users'', JObj [(''add'', JObj [(''_type'', JStr ''link''), (''action'', JStr ''post'')])])]"


text \<open>An escaped key is any key that ends like one: the first character of another is lost.\<close>

lemma unescape_any_key: "unescapeKey ''doc__type'' = ''oc__type''"
  by code_simp

subsection \<open>Choosing a decoder\<close>

text \<open>
  The decoder of a response.  With the client's own three decoders, the media type (without
  its parameters, in any case) decides: the schema codec for \<open>application/coreapi+json\<close>, the JSON
  codec for \<open>application/json\<close>, the text codec for every text type, an error for the rest; no
  content type means the schema codec.
\<close>

theorem negotiate_default:
  "negotiateDecoder [CoreJSONCodec, JSONCodec, TextCodec] contentType =
     (case contentType of
        None \<Rightarrow> Inr (Some CoreJSONCodec)
      | Some ct \<Rightarrow>
          (let full = trim (hd (split_on (CHR '';'') (toLowerCase ct))) in
           if full = ''application/coreapi+json'' then Inr (Some CoreJSONCodec)
           else if full = ''application/json'' then Inr (Some JSONCodec)
           else if hd (split_on (CHR ''/'') full) = ''text'' then Inr (Some TextCodec)
           else Inl (js_err GenericError (''Unsupported media in Content-Type header: '' @ ct))))"
proof (cases contentType)
  case (Some ct)
  let ?full = "trim (hd (split_on (CHR '';'') (toLowerCase ct)))"
  let ?main = "hd (split_on (CHR ''/'') ?full)"
  have star: "?main @ ''/*'' \<noteq> s" if "last s \<noteq> CHR ''*''" for s
    using that by auto
  have c: "mediaType CoreJSONCodec \<in> set (acceptable_types ct) \<longleftrightarrow> ?full = ''application/coreapi+json''"
    using star [of "''application/coreapi+json''"]
    by (auto simp: mediaType_def acceptable_types_def Let_def)
  have j: "mediaType JSONCodec \<in> set (acceptable_types ct) \<longleftrightarrow> ?full = ''application/json''"
    using star [of "''application/json''"]
    by (auto simp: mediaType_def acceptable_types_def Let_def)
  have m: "hd (split_on (CHR ''/'') ''text/*'') = ''text''" by code_simp
  have "?main = ''text''" if "''text/*'' = ?full" by (subst that [symmetric]) (rule m)
  then have t: "mediaType TextCodec \<in> set (acceptable_types ct) \<longleftrightarrow> ?main = ''text''"
    using append_same_eq [of ?main "''/*''" "''text''"]
    by (auto simp: mediaType_def acceptable_types_def Let_def)
  show ?thesis by (simp add: Some negotiateDecoder_def c j t Let_def)
qed (simp add: negotiateDecoder_def)

end
