(* ===== verification/HttpClient.thy ===== *)
theory HttpClient
  imports CoreJson
begin

text \<open>
  Requests of the API client, modules 1 to 5 and 13 of
  \<open>koded-cli/web/backend/staticfiles/rest_framework/js/coreapi-0.1.1.js\<close>: the three
  authentication schemes, the HTTP transport that turns a link and parameters into a request and a
  response into a value, and the client.  The network is a parameter; the request and response
  callbacks, which only observe, are left out.
\<close>

text \<open>A body: a text, or the entries of a \<open>FormData\<close>, whose values are strings.\<close>

datatype body = NoBody | TextBody string | FormBody "(string \<times> string) list"

record request_options =
  ro_method :: string
  ro_headers :: "string obj"
  ro_credentials :: "string option"
  ro_body :: body

record request =
  rq_url :: string
  rq_options :: request_options

subsection \<open>Authentication\<close>

text \<open>\<open>btoa\<close>: the base 64 of the bytes of a string of code units below 256.\<close>

definition b64_char :: "nat \<Rightarrow> char" where
  "b64_char n =
     (if n < 26 then char_of (65 + n) else if n < 52 then char_of (71 + n)
      else if n < 62 then char_of (n - 4) else if n = 62 then CHR ''+'' else CHR ''/'')"

fun btoa :: "string \<Rightarrow> string" where
  "btoa [] = []"
| "btoa [a] = [b64_char (code a div 4), b64_char (code a mod 4 * 16), CHR ''='', CHR ''='']"
| "btoa [a, b] =
     [b64_char (code a div 4), b64_char (code a mod 4 * 16 + code b div 16),
      b64_char (code b mod 16 * 4), CHR ''='']"
| "btoa (a # b # c # s) =
     b64_char (code a div 4) # b64_char (code a mod 4 * 16 + code b div 16)
     # b64_char (code b mod 16 * 4 + code c div 64) # b64_char (code c mod 64) # btoa s"

datatype authentication =
    BasicAuthentication string
  | SessionAuthentication "string option" string
  | TokenAuthentication string string

definition new_basic :: "string \<Rightarrow> string \<Rightarrow> authentication" where
  "new_basic user pass = BasicAuthentication (''Basic '' @ btoa (user @ '':'' @ pass))"

text \<open>
  The first cookie whose text starts with the name and an equals sign, decoded.  \<open>page_cookie\<close> is
  \<open>window.document.cookie\<close>, used when no cookie string is given.
\<close>

fun find_cookie :: "string \<Rightarrow> string list \<Rightarrow> js_error + string option" where
  "find_cookie nm [] = Inr None"
| "find_cookie nm (c # cs) =
     (let cookie = trim c in
      if substring cookie 0 (length nm + 1) = nm @ ''=''
      then (case decodeURIComponent (drop (length nm + 1) cookie) of
              None \<Rightarrow> Inl (js_err URIError ''URI malformed'')
            | Some v \<Rightarrow> Inr (Some v))
      else find_cookie nm cs)"

definition getCookie :: "string \<Rightarrow> string \<Rightarrow> string \<Rightarrow> js_error + string option" where
  "getCookie page_cookie nm cookieString =
     (let cs = or_else cookieString page_cookie
      in if cs \<noteq> [] then find_cookie nm (split_on (CHR '';'') cs) else Inr None)"

definition new_session ::
  "string \<Rightarrow> string \<Rightarrow> string \<Rightarrow> string \<Rightarrow> js_error + authentication" where
  "new_session page_cookie csrfCookieName cookieString csrfHeaderName =
     bind_err (getCookie page_cookie csrfCookieName cookieString)
       (\<lambda>tok. Inr (SessionAuthentication tok csrfHeaderName))"

definition new_token :: "string \<Rightarrow> string \<Rightarrow> authentication" where
  "new_token tok scheme = TokenAuthentication tok (or_else scheme ''Bearer'')"

definition set_header :: "string \<Rightarrow> string \<Rightarrow> request_options \<Rightarrow> request_options" where
  "set_header k v r = r\<lparr>ro_headers := obj_set k v (ro_headers r)\<rparr>"

definition authenticate_session ::
  "string option \<Rightarrow> string \<Rightarrow> request_options \<Rightarrow> request_options" where
  "authenticate_session tok hname r =
     (let r = r\<lparr>ro_credentials := Some ''same-origin''\<rparr>
      in case tok of
           Some t \<Rightarrow> (if t \<noteq> [] \<and> \<not> csrfSafeMethod (ro_method r) then set_header hname t r else r)
         | None \<Rightarrow> r)"

definition authenticate_token :: "string \<Rightarrow> string \<Rightarrow> request_options \<Rightarrow> request_options" where
  "authenticate_token tok scheme r = set_header ''Authorization'' (scheme @ '' '' @ tok) r"

definition authenticate :: "authentication \<Rightarrow> request_options \<Rightarrow> request_options" where
  "authenticate a r =
     (case a of
        BasicAuthentication hdr \<Rightarrow> set_header ''Authorization'' hdr r
      | SessionAuthentication tok hname \<Rightarrow> authenticate_session tok hname r
      | TokenAuthentication tok scheme \<Rightarrow> authenticate_token tok scheme r)"

subsection \<open>Building a request\<close>

record transport =
  t_auth :: "authentication option"
  t_headers :: "string obj"

definition http_schemes :: "string list" where
  "http_schemes = [''http'', ''https'']"

record sorted_params =
  sp_query :: "jsval obj"
  sp_path :: "jsval obj"
  sp_form :: jsval
  sp_extra :: "jsval obj"
  sp_names :: "string list"
  sp_body :: bool

definition no_params :: sorted_params where
  "no_params = \<lparr>sp_query = [], sp_path = [], sp_form = JObj [], sp_extra = [], sp_names = [], sp_body = False\<rparr>"

text \<open>
  \<open>formParams[name] = value\<close>: an object gets the property; a primitive, which a body field can
  have put there, throws in strict mode.  An array gets a named property, kept in \<open>sp_extra\<close>: a
  \<open>for \<dots> in\<close> visits it, its JSON text does not show it.  (A field called like an index or
  \<open>length\<close>, after a body field whose value is an array, is not modelled.)
\<close>

definition set_form :: "string \<Rightarrow> jsval \<Rightarrow> sorted_params \<Rightarrow> js_error + sorted_params" where
  "set_form nm v s =
     (case sp_form s of
        JObj ob \<Rightarrow> Inr (s\<lparr>sp_form := JObj (obj_set nm v ob)\<rparr>)
      | JArr vs \<Rightarrow> Inr (s\<lparr>sp_extra := obj_set nm v (sp_extra s)\<rparr>)
      | _ \<Rightarrow> Inl (js_err TypeError (''Cannot create property '' @ nm)))"

definition missing_field :: "string \<Rightarrow> js_error" where
  "missing_field nm = js_err ParameterError (''Missing required field: '' @ [CHR 0x22] @ nm @ [CHR 0x22])"

definition unknown_param :: "string \<Rightarrow> js_error" where
  "unknown_param nm = js_err ParameterError (''Unknown parameter: '' @ [CHR 0x22] @ nm @ [CHR 0x22])"

definition sort_param :: "field \<Rightarrow> jsval \<Rightarrow> sorted_params \<Rightarrow> js_error + sorted_params" where
  "sort_param f v s =
     (let s = s\<lparr>sp_names := sp_names s @ [fl_name f]\<rparr>; nm = fl_name f in
      if fl_location f = ''query'' then Inr (s\<lparr>sp_query := obj_set nm v (sp_query s)\<rparr>)
      else if fl_location f = ''path'' then Inr (s\<lparr>sp_path := obj_set nm v (sp_path s)\<rparr>)
      else if fl_location f = ''form''
      then bind_err (set_form nm v s) (\<lambda>s. Inr (s\<lparr>sp_body := True\<rparr>))
      else if fl_location f = ''body'' then Inr (s\<lparr>sp_form := v, sp_extra := [], sp_body := True\<rparr>)
      else Inr s)"

fun sort_params :: "jsval obj \<Rightarrow> field list \<Rightarrow> sorted_params \<Rightarrow> js_error + sorted_params" where
  "sort_params params [] s = Inr s"
| "sort_params params (f # fs) s =
     (case map_of params (fl_name f) of
        None \<Rightarrow> (if fl_required f then Inl (missing_field (fl_name f)) else sort_params params fs s)
      | Some v \<Rightarrow> bind_err (sort_param f v s) (sort_params params fs))"

definition check_unknown :: "jsval obj \<Rightarrow> string list \<Rightarrow> js_error + unit" where
  "check_unknown params names =
     (case find (\<lambda>k. k \<notin> set names) (own_keys params) of
        Some k \<Rightarrow> Inl (unknown_param k) | None \<Rightarrow> Inr ())"

text \<open>What \<open>for \<dots> in\<close> visits; \<open>extra\<close> are an array's named properties.\<close>

definition for_in :: "jsval \<Rightarrow> jsval obj \<Rightarrow> (string \<times> jsval) list" where
  "for_in v extra =
     (case v of
        JObj ob \<Rightarrow> own_entries ob
      | JArr vs \<Rightarrow> map (\<lambda>(i, w). (show_nat i, w)) (enumerate 0 vs) @ extra
      | JStr s \<Rightarrow> map (\<lambda>(i, c). (show_nat i, JStr [c])) (enumerate 0 s)
      | _ \<Rightarrow> [])"

definition urlencoded :: "(string \<times> jsval) list \<Rightarrow> string" where
  "urlencoded entries = join_with ''&''
     (map (\<lambda>(k, v). encodeURIComponent k @ ''='' @ encodeURIComponent (to_string v)) entries)"

definition add_body :: "string \<Rightarrow> jsval \<Rightarrow> jsval obj \<Rightarrow> request_options \<Rightarrow> request_options" where
  "add_body encoding form extra r =
     (if encoding = ''application/json''
      then set_header ''Content-Type'' ''application/json''
             (r\<lparr>ro_body := (case JSON_stringify form of None \<Rightarrow> NoBody | Some s \<Rightarrow> TextBody s)\<rparr>)
      else if encoding = ''multipart/form-data''
      then r\<lparr>ro_body := FormBody (map (\<lambda>(k, v). (k, to_string v)) (for_in form extra))\<rparr>
      else if encoding = ''application/x-www-form-urlencoded''
      then set_header ''Content-Type'' ''application/x-www-form-urlencoded''
             (r\<lparr>ro_body := TextBody (urlencoded (for_in form extra))\<rparr>)
      else r)"

definition request_url :: "location \<Rightarrow> string \<Rightarrow> sorted_params \<Rightarrow> js_error + string" where
  "request_url page template s =
     (case expand (sp_path s) template of
        None \<Rightarrow> Inl (js_err TypeError ''str.split is not a function'')
      | Some u \<Rightarrow>
          (case url_set (SetQuery (QObj (sp_query s))) (URL page u None) of
             None \<Rightarrow> Inl (js_err URIError ''URI malformed'')
           | Some w \<Rightarrow> Inr (url_toString w)))"

definition build_options :: "transport \<Rightarrow> link \<Rightarrow> sorted_params \<Rightarrow> request_options" where
  "build_options t l s =
     (let r = \<lparr>ro_method = toUpperCase (l_method l), ro_headers = obj_assign [] (t_headers t),
               ro_credentials = None, ro_body = NoBody\<rparr>;
          r = (if sp_body s then add_body (l_encoding l) (sp_form s) (sp_extra s) r else r)
      in case t_auth t of None \<Rightarrow> r | Some a \<Rightarrow> authenticate a r)"

definition buildRequest :: "location \<Rightarrow> transport \<Rightarrow> link \<Rightarrow> jsval obj \<Rightarrow> js_error + request" where
  "buildRequest page t l params =
     (if hides_method params then Inl not_a_function
      else bind_err (sort_params params (l_fields l) no_params) (\<lambda>s.
           bind_err (check_unknown params (sp_names s)) (\<lambda>_.
           bind_err (request_url page (l_url l) s) (\<lambda>u.
             Inr \<lparr>rq_url = u, rq_options = build_options t l s\<rparr>))))"

subsection \<open>Sending it\<close>

record http_response =
  hr_status :: int
  hr_statusText :: string
  hr_url :: string
  hr_contentType :: "string option"
  hr_body :: text_body

definition hr_ok :: "http_response \<Rightarrow> bool" where
  "hr_ok r = (200 \<le> hr_status r \<and> hr_status r < 300)"

text \<open>
  What a failed action carries: an error of the program, or a response's title and content.  Which
  errors reject the promise and which are thrown before there is one says \<open>action_throws\<close>.
\<close>

datatype api_error = Thrown js_error | ErrorResponse string cnode

definition parseResponse ::
  "location \<Rightarrow> http_response \<Rightarrow> codec list \<Rightarrow> js_error + cnode" where
  "parseResponse page resp decoders =
     bind_err (negotiateDecoder decoders (hr_contentType resp)) (\<lambda>d.
       case d of
         None \<Rightarrow> Inl (js_err TypeError ''Cannot read properties of undefined (reading decode)'')
       | Some c \<Rightarrow> decode page c (hr_body resp) (Some (hr_url resp)))"

definition transport_action ::
  "location \<Rightarrow> (request \<Rightarrow> js_error + http_response) \<Rightarrow> transport \<Rightarrow> link \<Rightarrow> codec list
     \<Rightarrow> jsval obj \<Rightarrow> api_error + cnode" where
  "transport_action page net t l decoders params =
     (case buildRequest page t l params of
        Inl e \<Rightarrow> Inl (Thrown e)
      | Inr rq \<Rightarrow>
          (case net rq of
             Inl e \<Rightarrow> Inl (Thrown e)
           | Inr resp \<Rightarrow>
               if hr_status resp = 204 then Inr (Prim JUndef)
               else (case parseResponse page resp decoders of
                       Inl e \<Rightarrow> Inl (Thrown e)
                     | Inr data \<Rightarrow>
                         if hr_ok resp then Inr data
                         else Inl (ErrorResponse
                                (show_int (hr_status resp) @ '' '' @ hr_statusText resp) data))))"

subsection \<open>The client\<close>

record client =
  c_decoders :: "codec list"
  c_transports :: "transport list"

text \<open>\<open>new Client({auth, headers})\<close>, with its default decoders and transport.\<close>

definition new_client :: "authentication option \<Rightarrow> string obj \<Rightarrow> client" where
  "new_client au hds =
     \<lparr>c_decoders = [CoreJSONCodec, JSONCodec, TextCodec],
      c_transports = [\<lparr>t_auth = au, t_headers = hds\<rparr>]\<rparr>"

definition client_send ::
  "location \<Rightarrow> (request \<Rightarrow> js_error + http_response) \<Rightarrow> client \<Rightarrow> link \<Rightarrow> jsval obj
     \<Rightarrow> api_error + cnode" where
  "client_send page net c l params =
     (case determineTransport page (map (\<lambda>_. http_schemes) (c_transports c)) (l_url l) of
        Inl e \<Rightarrow> Inl (Thrown e)
      | Inr i \<Rightarrow> transport_action page net (c_transports c ! i) l (c_decoders c) params)"

definition client_action ::
  "location \<Rightarrow> (request \<Rightarrow> js_error + http_response) \<Rightarrow> client \<Rightarrow> cnode \<Rightarrow> string list \<Rightarrow> jsval obj
     \<Rightarrow> api_error + cnode" where
  "client_action page net c doc keys params =
     (case lookupLink doc keys of
        Inl e \<Rightarrow> Inl (Thrown e)
      | Inr l \<Rightarrow> client_send page net c l params)"

text \<open>
  The errors \<open>client.action\<close> throws at its caller: the link is looked up, the transport chosen and the
  request built before there is a promise.  All later failures reject the promise.
\<close>

definition action_throws ::
  "location \<Rightarrow> client \<Rightarrow> cnode \<Rightarrow> string list \<Rightarrow> jsval obj \<Rightarrow> js_error option" where
  "action_throws page c doc keys params =
     (case bind_err (lookupLink doc keys) (\<lambda>l.
             bind_err (determineTransport page (map (\<lambda>_. http_schemes) (c_transports c)) (l_url l)) (\<lambda>i.
               buildRequest page (c_transports c ! i) l params)) of
        Inl e \<Rightarrow> Some e
      | Inr _ \<Rightarrow> None)"

lemma action_thrown:
  "action_throws page c doc keys params = Some e \<Longrightarrow> client_action page net c doc keys params = Inl (Thrown e)"
  by (auto simp: action_throws_def client_action_def client_send_def transport_action_def bind_err_def
      split: sum.splits)

definition client_get ::
  "location \<Rightarrow> (request \<Rightarrow> js_error + http_response) \<Rightarrow> client \<Rightarrow> string \<Rightarrow> api_error + cnode" where
  "client_get page net c url = client_send page net c (new_link url ''get'') []"

subsection \<open>The parameters a link takes\<close>

lemma own_keys_map_of: "k \<in> set (own_keys ob) \<longleftrightarrow> map_of ob k \<noteq> None"
  by (simp add: own_keys_def map_of_eq_None_iff)

lemma check_unknown_iff:
  "check_unknown params names = Inr () \<longleftrightarrow> (\<forall>k \<in> fst ` set params. k \<in> set names)"
proof -
  have "check_unknown params names = Inr () \<longleftrightarrow> find (\<lambda>k. k \<notin> set names) (own_keys params) = None"
    by (simp add: check_unknown_def split: option.split)
  then show ?thesis by (auto simp: find_None_iff own_keys_def)
qed

text \<open>What a property can be set on: the form after a body field had its value put there.\<close>

definition container :: "jsval \<Rightarrow> bool" where
  "container v = (case v of JObj _ \<Rightarrow> True | JArr _ \<Rightarrow> True | _ \<Rightarrow> False)"

definition bodies_ok :: "jsval obj \<Rightarrow> field list \<Rightarrow> bool" where
  "bodies_ok params fs =
     (\<forall>f \<in> set fs. fl_location f = ''body'' \<longrightarrow>
        (case map_of params (fl_name f) of None \<Rightarrow> True | Some v \<Rightarrow> container v))"

definition missing :: "jsval obj \<Rightarrow> field \<Rightarrow> bool" where
  "missing params f = (fl_required f \<and> fl_name f \<notin> set (own_keys params))"

lemma sort_param_ok:
  assumes "container (sp_form s)" and "fl_location f = ''body'' \<Longrightarrow> container v"
  shows "\<exists>s'. sort_param f v s = Inr s' \<and> container (sp_form s')
    \<and> sp_names s' = sp_names s @ [fl_name f]"
  using assms
  by (auto simp: sort_param_def set_form_def container_def Let_def split: jsval.splits)

lemma sort_params_missing:
  assumes "container (sp_form s)" and "bodies_ok params fs"
    and "find (missing params) fs = Some f"
  shows "sort_params params fs s = Inl (missing_field (fl_name f))"
  using assms
proof (induction fs arbitrary: s)
  case (Cons g fs)
  show ?case
  proof (cases "map_of params (fl_name g)")
    case None
    with Cons show ?thesis
      by (auto simp: missing_def own_keys_map_of bodies_ok_def split: if_splits)
  next
    case (Some v)
    then have "fl_location g = ''body'' \<Longrightarrow> container v"
      using Cons.prems(2) by (auto simp: bodies_ok_def)
    from sort_param_ok [OF Cons.prems(1) this] obtain s'
      where "sort_param g v s = Inr s'" "container (sp_form s')" by blast
    with Some Cons show ?thesis
      by (auto simp: missing_def own_keys_map_of bodies_ok_def split: if_splits)
  qed
qed simp

lemma sort_params_names:
  assumes "container (sp_form s)" and "bodies_ok params fs"
    and "find (missing params) fs = None"
  shows "\<exists>s'. sort_params params fs s = Inr s' \<and> set (sp_names s') =
    set (sp_names s) \<union> (fl_name ` set fs \<inter> set (own_keys params))"
  using assms
proof (induction fs arbitrary: s)
  case (Cons g fs)
  have fs: "bodies_ok params fs" "find (missing params) fs = None"
    using Cons.prems by (auto simp: bodies_ok_def split: if_splits)
  show ?case
  proof (cases "map_of params (fl_name g)")
    case None
    with Cons.IH [OF Cons.prems(1) fs] Cons.prems(3) show ?thesis
      by (auto simp: missing_def own_keys_map_of split: if_splits)
  next
    case (Some v)
    then have "fl_location g = ''body'' \<Longrightarrow> container v"
      using Cons.prems(2) by (auto simp: bodies_ok_def)
    from sort_param_ok [OF Cons.prems(1) this] obtain s'
      where s': "sort_param g v s = Inr s'" "container (sp_form s')"
        "sp_names s' = sp_names s @ [fl_name g]" by blast
    from Cons.IH [OF s'(2) fs] s' Some show ?thesis
      by (auto simp: own_keys_map_of)
  qed
qed auto

lemma find_cong_set: "(\<And>x. x \<in> set xs \<Longrightarrow> P x = Q x) \<Longrightarrow> find P xs = find Q xs"
  by (induction xs) auto

lemma request_url_class:
  "request_url page u s = Inl e \<Longrightarrow> err_class e \<noteq> ParameterError"
  by (auto simp: request_url_def split: option.splits)

text \<open>
  C25: which parameters a link accepts.  The first required field without a value is reported as
  missing; when there is none, the first parameter that no field of the link names is reported as
  unknown; and when there is neither, no \<open>ParameterError\<close> is thrown.  (A body field has an object
  or an array for its value here: setting a form field on a primitive is a \<open>TypeError\<close>.)
\<close>

theorem build_request_errors:
  assumes "\<not> hides_method params" and "bodies_ok params (l_fields l)"
  shows "case find (missing params) (l_fields l) of
      Some f \<Rightarrow> buildRequest page t l params = Inl (missing_field (fl_name f))
    | None \<Rightarrow>
        (case find (\<lambda>k. k \<notin> fl_name ` set (l_fields l)) (own_keys params) of
           Some k \<Rightarrow> buildRequest page t l params = Inl (unknown_param k)
         | None \<Rightarrow> \<forall>e. buildRequest page t l params = Inl e \<longrightarrow> err_class e \<noteq> ParameterError)"
proof (cases "find (missing params) (l_fields l)")
  case (Some f)
  then show ?thesis
    using assms sort_params_missing [of no_params params "l_fields l" f]
    by (simp add: buildRequest_def no_params_def container_def)
next
  case None
  obtain s where s: "sort_params params (l_fields l) no_params = Inr s"
    "set (sp_names s) = fl_name ` set (l_fields l) \<inter> set (own_keys params)"
    using sort_params_names [OF _ assms(2) None, of no_params]
    by (auto simp: no_params_def container_def)
  have eq: "find (\<lambda>k. k \<notin> fl_name ` set (l_fields l)) (own_keys params)
      = find (\<lambda>k. k \<notin> set (sp_names s)) (own_keys params)"
    by (rule find_cong_set) (simp add: s)
  show ?thesis
    using assms(1) None s(1) unfolding eq
    by (auto simp: buildRequest_def check_unknown_def bind_err_def dest: request_url_class
        split: option.splits sum.splits)
qed

text \<open>A link with a required path field, an optional query field, and form fields.\<close>

definition sample_link :: link where
  "sample_link = (new_link ''/users/{id}/'' ''post'')
     \<lparr>l_fields := [\<lparr>fl_name = ''id'', fl_required = True, fl_location = ''path'', fl_description = []\<rparr>,
                   \<lparr>fl_name = ''page'', fl_required = False, fl_location = ''query'', fl_description = []\<rparr>,
                   \<lparr>fl_name = ''name'', fl_required = False, fl_location = ''form'', fl_description = []\<rparr>]\<rparr>"

definition plain_transport :: transport where
  "plain_transport = \<lparr>t_auth = None, t_headers = []\<rparr>"

lemma sample_link_simps [simp]:
  "l_url sample_link = ''/users/{id}/''" "l_method sample_link = ''post''"
  "l_encoding sample_link = ''application/json''" "length (l_fields sample_link) = 3"
  by (simp_all add: sample_link_def new_link_def)

lemma sample_bodies [simp]: "bodies_ok params (l_fields sample_link)"
  by (simp add: sample_link_def bodies_ok_def)

theorem build_request_errors_witness:
  "buildRequest no_location plain_transport sample_link [(''page'', JNum 2)] = Inl (missing_field ''id'')
   \<and> buildRequest no_location plain_transport sample_link [(''id'', JNum 7), (''x'', JNull)] = Inl (unknown_param ''x'')"
proof
  have "find (missing [(''page'', JNum 2)]) (l_fields sample_link) = Some (hd (l_fields sample_link))"
    "fl_name (hd (l_fields sample_link)) = ''id''"
    by (simp_all add: sample_link_def missing_def own_keys_def)
  then show "buildRequest no_location plain_transport sample_link [(''page'', JNum 2)] = Inl (missing_field ''id'')"
    using build_request_errors [of "[(''page'', JNum 2)]" sample_link no_location plain_transport]
    by (simp add: hides_method_def)
next
  let ?ps = "[(''id'', JNum 7), (''x'', JNull)]"
  have "find (missing ?ps) (l_fields sample_link) = None"
    by (simp add: sample_link_def missing_def own_keys_def)
  moreover have "own_keys ?ps = [''id'', ''x'']" by code_simp
  then have "find (\<lambda>k. k \<notin> fl_name ` set (l_fields sample_link)) (own_keys ?ps) = Some ''x''"
    by (simp add: sample_link_def)
  ultimately show "buildRequest no_location plain_transport sample_link ?ps = Inl (unknown_param ''x'')"
    using build_request_errors [of ?ps sample_link no_location plain_transport] by (simp add: hides_method_def)
qed

subsection \<open>Where the parameters go\<close>

text \<open>The parameters that a field of the link puts into a place.\<close>

definition placed :: "string \<Rightarrow> jsval obj \<Rightarrow> field list \<Rightarrow> string \<Rightarrow> jsval option" where
  "placed loc params fs k =
     (if \<exists>f \<in> set fs. fl_name f = k \<and> fl_location f = loc then map_of params k else None)"

lemma placed_Nil [simp]: "placed loc params [] = (\<lambda>_. None)"
  by (simp add: placed_def fun_eq_iff)

lemma placed_Cons:
  "placed loc params (f # fs) =
     (if fl_location f = loc
      then (placed loc params fs)(fl_name f := map_of params (fl_name f))
      else placed loc params fs)"
  by (auto simp: placed_def fun_eq_iff)

lemma map_add_placed:
  "map_of params k = Some v \<Longrightarrow> m(k \<mapsto> v) ++ placed loc params fs
    = m ++ (placed loc params fs)(k \<mapsto> v)"
  by (auto simp: map_add_def fun_eq_iff placed_def split: option.splits)

lemma placed_none:
  "map_of params (fl_name f) = None \<Longrightarrow> placed loc params (f # fs) = placed loc params fs"
  by (auto simp: fun_eq_iff placed_def)

lemma placed_add:
  "map_of params (fl_name f) = Some v \<Longrightarrow> m ++ placed loc params (f # fs)
    = (if fl_location f = loc then m(fl_name f \<mapsto> v) else m) ++ placed loc params fs"
  by (simp add: placed_Cons map_add_placed)

lemma sort_param_places:
  assumes "sort_param f v s = Inr s'"
  shows "sp_query s' = (if fl_location f = ''query'' then obj_set (fl_name f) v (sp_query s)
      else sp_query s)"
    and "sp_path s' = (if fl_location f = ''path'' then obj_set (fl_name f) v (sp_path s)
      else sp_path s)"
  using assms
  by (auto simp: sort_param_def set_form_def Let_def bind_err_Inr split: if_splits jsval.splits)

lemma sort_params_places:
  assumes "sort_params params fs s = Inr s'" and "obj_wf (sp_query s)"
  shows "map_of (sp_query s') = map_of (sp_query s) ++ placed ''query'' params fs
    \<and> map_of (sp_path s') = map_of (sp_path s) ++ placed ''path'' params fs
    \<and> obj_wf (sp_query s')"
  using assms
proof (induction fs arbitrary: s)
  case (Cons f fs)
  show ?case
  proof (cases "map_of params (fl_name f)")
    case None
    with Cons show ?thesis by (simp add: placed_none split: if_splits)
  next
    case (Some v)
    then obtain s1 where s1: "sort_param f v s = Inr s1" "sort_params params fs s1 = Inr s'"
      using Cons.prems by (auto simp: bind_err_Inr)
    from sort_param_places [OF s1(1)] Cons.IH [OF s1(2)] Cons.prems(2) Some
    show ?thesis by (simp add: placed_add)
  qed
qed (simp add: map_add_def)

lemma sort_params_form:
  assumes "sort_params params fs s = Inr s'" and "\<forall>f \<in> set fs. fl_location f \<noteq> ''body''"
    and "sp_form s = JObj fm"
  shows "\<exists>fm'. sp_form s' = JObj fm' \<and> map_of fm' = map_of fm ++ placed ''form'' params fs
    \<and> (obj_wf fm \<longrightarrow> obj_wf fm') \<and> (sp_body s' \<longleftrightarrow> sp_body s \<or> (\<exists>k. placed ''form'' params fs k \<noteq> None))"
  using assms
proof (induction fs arbitrary: s fm)
  case (Cons f fs)
  show ?case
  proof (cases "map_of params (fl_name f)")
    case None
    with Cons.prems Cons.IH [of s fm] show ?thesis
      by (simp add: placed_none split: if_splits)
  next
    case (Some v)
    show ?thesis
    proof (cases "fl_location f = ''form''")
      case True
      with Some Cons.prems have run:
        "sort_params params fs (s\<lparr>sp_names := sp_names s @ [fl_name f],
           sp_form := JObj (obj_set (fl_name f) v fm), sp_body := True\<rparr>) = Inr s'"
        by (simp add: sort_param_def set_form_def Let_def)
      have "placed ''form'' params (f # fs) (fl_name f) \<noteq> None"
        using True Some by (auto simp: placed_def)
      moreover have "map_of fm ++ placed ''form'' params (f # fs)
          = map_of (obj_set (fl_name f) v fm) ++ placed ''form'' params fs"
        using True Some by (simp add: placed_add)
      moreover obtain fm' where "sp_form s' = JObj fm'" "sp_body s'"
        "obj_wf (obj_set (fl_name f) v fm) \<longrightarrow> obj_wf fm'"
        "map_of fm' = map_of (obj_set (fl_name f) v fm) ++ placed ''form'' params fs"
        using Cons.IH [OF run, of "obj_set (fl_name f) v fm"] Cons.prems(2)
        by (auto simp del: map_of_obj_set)
      ultimately show ?thesis by (metis obj_wf_set)
    next
      case False
      then obtain s1 where "sort_param f v s = Inr s1" "sp_form s1 = JObj fm" "sp_body s1 = sp_body s"
        "sort_params params fs s1 = Inr s'"
        using Cons.prems Some by (auto simp: sort_param_def Let_def bind_err_Inr split: if_splits)
      with Cons.IH [of s1 fm] Cons.prems(2) False show ?thesis by (simp add: placed_Cons)
    qed
  qed
qed (auto simp: map_add_def)

text \<open>The address sent: the one the template expands to, its query replaced by the parameters.\<close>

lemma querystringify_mark:
  assumes "obj_wf ob"
  shows "(let q = querystringify ob [] in
      if q \<noteq> [] then (if hd q \<noteq> CHR ''?'' then r @ ''?'' @ q else r @ q) else r)
    = r @ querystringify ob ''?''"
proof (cases "own_entries ob")
  case Nil
  then show ?thesis by (simp add: querystringify_def)
next
  case (Cons e es)
  obtain k v where e: "e = (k, v)" by (cases e)
  obtain s where s: "querystringify ob [] = encodeURIComponent k @ CHR ''='' # s"
    "querystringify ob ''?'' = ''?'' @ querystringify ob []"
    by (cases es) (auto simp: querystringify_def Cons e)
  then have "hd (querystringify ob []) \<noteq> CHR ''?''"
    using encode_delims(3) [of k] by (cases "encodeURIComponent k") auto
  with s show ?thesis by simp
qed

lemma set_query_print:
  assumes "obj_wf ob"
  shows "\<exists>w. url_set (SetQuery (QObj ob)) (URL page u None) = Some w \<and> url_toString w =
    url_toString ((URL page u None)\<lparr>query := QText [], hash := []\<rparr>) @ querystringify ob ''?''
      @ hash (URL page u None)"
proof -
  let ?u = "URL page u None"
  have low: "toLowerCase (host ?u) = host ?u" "toLowerCase (hostname ?u) = hostname ?u"
    by (simp_all add: URL_def url_new_lower)
  have "url_toString (?u\<lparr>query := QObj ob\<rparr>) =
      url_toString (?u\<lparr>query := QText [], hash := []\<rparr>) @ querystringify ob ''?'' @ hash ?u"
    using querystringify_mark [OF assms] by (simp add: url_toString_def Let_def)
  then show ?thesis by (simp add: url_set_def set_part_def low)
qed

lemma querystring_print:
  assumes "obj_wf ob" and "[] \<notin> fst ` set ob"
  shows "querystring (querystringify ob ''?'')
    = Some (map (\<lambda>(k, v). (k, to_string v)) (own_entries ob))"
  using querystring_join [of "own_entries ob" "''?''"] assms obj_wf_own_entries [of ob]
  by (cases "own_entries ob = []")
    (simp_all add: querystringify_def obj_wf_def Let_def querystring_nothing)

lemma buildRequest_parts:
  assumes "buildRequest page t l params = Inr rq"
  obtains s where "sort_params params (l_fields l) no_params = Inr s"
    and "request_url page (l_url l) s = Inr (rq_url rq)" and "rq_options rq = build_options t l s"
  using assms by (auto simp: buildRequest_def bind_err_Inr split: if_splits)

lemma map_of_to_string:
  "map_of (map (\<lambda>(k, v). (k, to_string v)) ob) k = map_option to_string (map_of ob k)"
  by (induction ob) auto

text \<open>
  C17: the address of a request.  The path parameters expand the link's template; the address it
  gives keeps all its parts but the query, and where the query stands, between the path and the
  hash, is a text that parses back to exactly the query parameters, whatever characters their
  names and values contain.
\<close>

theorem request_address:
  assumes "buildRequest page t l params = Inr rq" and "[] \<notin> fl_name ` set (l_fields l)"
  shows "\<exists>pa u q qs.
    map_of pa = placed ''path'' params (l_fields l) \<and> expand pa (l_url l) = Some u
    \<and> rq_url rq = url_toString ((URL page u None)\<lparr>query := QText [], hash := []\<rparr>)
        @ q @ hash (URL page u None)
    \<and> querystring q = Some qs
    \<and> (\<forall>k. map_of qs k = map_option to_string (placed ''query'' params (l_fields l) k))"
proof -
  obtain s where s: "sort_params params (l_fields l) no_params = Inr s"
    "request_url page (l_url l) s = Inr (rq_url rq)"
    using assms(1) by (rule buildRequest_parts)
  have m: "map_of (sp_query s) = placed ''query'' params (l_fields l)"
    "map_of (sp_path s) = placed ''path'' params (l_fields l)" and wf: "obj_wf (sp_query s)"
    using sort_params_places [OF s(1)] by (simp_all add: no_params_def obj_wf_def)
  obtain u where u: "expand (sp_path s) (l_url l) = Some u"
    using s(2) by (auto simp: request_url_def split: option.splits)
  have "map_of (sp_query s) [] = None"
    using assms(2) by (auto simp: m(1) placed_def) (metis imageI)
  then have "[] \<notin> fst ` set (sp_query s)" by (simp add: map_of_eq_None_iff)
  with wf have "querystring (querystringify (sp_query s) ''?'')
      = Some (map (\<lambda>(k, v). (k, to_string v)) (own_entries (sp_query s)))"
    by (intro querystring_print)
  moreover from set_query_print [OF wf, of page u]
  have "rq_url rq = url_toString ((URL page u None)\<lparr>query := QText [], hash := []\<rparr>)
      @ querystringify (sp_query s) ''?'' @ hash (URL page u None)"
    using s(2) u by (auto simp: request_url_def)
  ultimately show ?thesis
    using u m wf by (auto simp: map_of_to_string map_of_own_entries)
qed

lemma buildRequest_ok:
  assumes "sort_params params (l_fields l) no_params = Inr s" and "\<not> hides_method params"
    and "check_unknown params (sp_names s) = Inr ()" and "expand (sp_path s) (l_url l) = Some u"
  shows "\<exists>rq. buildRequest page t l params = Inr rq"
proof -
  have "obj_wf (sp_query s)"
    using sort_params_places [OF assms(1)] by (simp add: no_params_def obj_wf_def)
  from set_query_print [OF this, of page u] show ?thesis
    using assms by (auto simp: buildRequest_def request_url_def)
qed

lemma sample_request:
  assumes "k = ''page'' \<or> k = ''name''"
  shows "\<exists>rq. buildRequest page t sample_link [(''id'', JNum 7), (k, JStr ''a&b'')] = Inr rq"
proof -
  let ?ps = "[(''id'', JNum 7), (k, JStr ''a&b'')]"
  have u: "expand [(''id'', JNum 7)] ''/users/{id}/'' = Some ''/users/7/''" by code_simp
  have c: "check_unknown ?ps [''id'', k] = Inr ()"
    using assms by (auto simp: check_unknown_iff)
  obtain s where "sort_params ?ps (l_fields sample_link) no_params = Inr s" "sp_names s = [''id'', k]"
    "sp_path s = [(''id'', JNum 7)]"
    using assms by (auto simp: sample_link_def sort_param_def set_form_def no_params_def)
  with u c show ?thesis
    using assms
    by (intro buildRequest_ok [of ?ps sample_link s "''/users/7/''"]) (auto simp: hides_method_def)
qed

theorem request_address_witness:
  "\<exists>rq q qs. buildRequest no_location plain_transport sample_link [(''id'', JNum 7), (''page'', JStr ''a&b'')] = Inr rq
    \<and> querystring q = Some qs \<and> map_of qs ''page'' = Some ''a&b'' \<and> (\<exists>a b. rq_url rq = a @ q @ b)"
proof -
  let ?ps = "[(''id'', JNum 7), (''page'', JStr ''a&b'')]"
  obtain rq where rq: "buildRequest no_location plain_transport sample_link ?ps = Inr rq"
    using sample_request by blast
  have "[] \<notin> fl_name ` set (l_fields sample_link)" by (simp add: sample_link_def)
  from request_address [OF rq this] obtain q qs a b where "rq_url rq = a @ q @ b"
    "querystring q = Some qs"
    "\<forall>k. map_of qs k = map_option to_string (placed ''query'' ?ps (l_fields sample_link) k)"
    by blast
  moreover have "placed ''query'' ?ps (l_fields sample_link) ''page'' = Some (JStr ''a&b'')"
    by (simp add: sample_link_def placed_def)
  ultimately show ?thesis using rq by fastforce
qed

subsection \<open>Authentication and the body\<close>

text \<open>
  What the transport relies on in an authentication scheme: it touches neither the method nor the
  body, and no header but its own.
\<close>

locale authenticator =
  fixes auth :: "request_options \<Rightarrow> request_options" and own :: string
  assumes auth_method: "ro_method (auth r) = ro_method r"
    and auth_body: "ro_body (auth r) = ro_body r"
    and auth_headers: "k \<noteq> own \<Longrightarrow> map_of (ro_headers (auth r)) k = map_of (ro_headers r) k"
begin

text \<open>A request that was ready before is ready after.\<close>

lemma keeps_request:
  assumes "map_of (ro_headers r) ''Content-Type'' = Some ct" and "own \<noteq> ''Content-Type''"
  shows "ro_body (auth r) = ro_body r \<and> ro_method (auth r) = ro_method r
    \<and> map_of (ro_headers (auth r)) ''Content-Type'' = Some ct"
  using assms auth_headers [of "''Content-Type''" r] by (simp add: auth_method auth_body)

end

lemma set_header_simps [simp]:
  "ro_method (set_header k v r) = ro_method r" "ro_body (set_header k v r) = ro_body r"
  "ro_credentials (set_header k v r) = ro_credentials r"
  "map_of (ro_headers (set_header k v r)) = (map_of (ro_headers r))(k \<mapsto> v)"
  by (simp_all add: set_header_def)

interpretation basic: authenticator "authenticate (BasicAuthentication hdr)" "''Authorization''" for hdr
  by unfold_locales (simp_all add: authenticate_def authenticate_session_def authenticate_token_def)

interpretation session: authenticator "authenticate (SessionAuthentication tok hname)" hname for tok hname
  by unfold_locales (auto simp: authenticate_def authenticate_session_def authenticate_token_def Let_def split: option.split)

interpretation token: authenticator "authenticate (TokenAuthentication tok scheme)" "''Authorization''"
  for tok scheme
  by unfold_locales (simp_all add: authenticate_def authenticate_session_def authenticate_token_def)

text \<open>The header a scheme sets.\<close>

definition auth_own :: "authentication \<Rightarrow> string" where
  "auth_own a = (case a of SessionAuthentication _ hname \<Rightarrow> hname | _ \<Rightarrow> ''Authorization'')"

interpretation scheme: authenticator "authenticate a" "auth_own a" for a
  by (cases a) (simp_all add: auth_own_def basic.authenticator_axioms session.authenticator_axioms
      token.authenticator_axioms)

text \<open>The headers and body before authentication.\<close>

definition plain_options :: "transport \<Rightarrow> link \<Rightarrow> sorted_params \<Rightarrow> request_options" where
  "plain_options t l s = build_options (t\<lparr>t_auth := None\<rparr>) l s"

lemma build_options_auth:
  "build_options t l s =
     (case t_auth t of None \<Rightarrow> plain_options t l s | Some a \<Rightarrow> authenticate a (plain_options t l s))"
  by (simp add: plain_options_def build_options_def Let_def split: option.split)

lemma plain_None [simp]: "plain_options (t\<lparr>t_auth := None\<rparr>) l s = plain_options t l s"
  by (simp add: plain_options_def)

lemma add_body_method [simp]: "ro_method (add_body enc form ex r) = ro_method r"
  by (simp add: add_body_def)

lemma plain_method [simp]: "ro_method (plain_options t l s) = toUpperCase (l_method l)"
  by (simp add: plain_options_def build_options_def Let_def)

text \<open>
  C18: the token of a session goes with unsafe methods only.  Whatever the link and its
  parameters, a request under session authentication is sent with same-origin credentials; it
  carries the token in the token's header exactly when its method is none of GET, HEAD, OPTIONS
  and TRACE, in any spelling, and all its other headers are those of the same request without
  authentication.
\<close>

theorem csrf_token_sent:
  assumes "t_auth t = Some (SessionAuthentication (Some tok) h)" and "tok \<noteq> []"
  shows "ro_credentials (build_options t l s) = Some ''same-origin''
    \<and> map_of (ro_headers (build_options t l s)) =
        (if toUpperCase (l_method l) \<in> {''GET'', ''HEAD'', ''OPTIONS'', ''TRACE''}
         then map_of (ro_headers (build_options (t\<lparr>t_auth := None\<rparr>) l s))
         else (map_of (ro_headers (build_options (t\<lparr>t_auth := None\<rparr>) l s)))(h \<mapsto> tok))"
  using assms unfolding build_options_auth
  by (simp add: authenticate_def authenticate_session_def authenticate_token_def csrfSafeMethod_def Let_def)

theorem csrf_token_sent_witness:
  "map_of (ro_headers (build_options
     \<lparr>t_auth = Some (SessionAuthentication (Some ''tok'') ''X-CSRFToken''), t_headers = []\<rparr>
     sample_link no_params)) ''X-CSRFToken'' = Some ''tok''"
proof -
  have "toUpperCase ''post'' = ''POST''" by code_simp
  with csrf_token_sent [of "\<lparr>t_auth = Some (SessionAuthentication (Some ''tok'') ''X-CSRFToken''),
      t_headers = []\<rparr>" "''tok''" "''X-CSRFToken''" sample_link no_params]
  show ?thesis by simp
qed

text \<open>
  C29: form parameters arrive.  For a link without body fields of which some form parameter is
  given, and with any authentication whose header is not the content type's, the request has
  the link's method in capitals; encoded as JSON its body is the text of an object of exactly the
  form parameters, URL-encoded it is a text that parses back to exactly them, and the content type
  says which.
\<close>

theorem form_body_sent:
  assumes "buildRequest page t l params = Inr rq"
    and "\<forall>f \<in> set (l_fields l). fl_location f \<noteq> ''body'' \<and> fl_name f \<noteq> []"
    and "placed ''form'' params (l_fields l) k \<noteq> None"
    and "\<forall>a. t_auth t = Some a \<longrightarrow> auth_own a \<noteq> ''Content-Type''"
    and "l_encoding l \<in> {''application/json'', ''application/x-www-form-urlencoded''}"
  shows "\<exists>body fm. ro_method (rq_options rq) = toUpperCase (l_method l)
    \<and> ro_body (rq_options rq) = TextBody body
    \<and> map_of (ro_headers (rq_options rq)) ''Content-Type'' = Some (l_encoding l)
    \<and> map_of fm = placed ''form'' params (l_fields l)
    \<and> (if l_encoding l = ''application/json'' then body = json (JObj fm)
       else querystring body = Some (map (\<lambda>(k, v). (k, to_string v)) (own_entries fm)))"
proof -
  obtain s where s: "sort_params params (l_fields l) no_params = Inr s"
    "rq_options rq = build_options t l s"
    using assms(1) by (rule buildRequest_parts)
  obtain fm where fm: "sp_form s = JObj fm" "map_of fm = placed ''form'' params (l_fields l)"
    "obj_wf fm" "sp_body s"
    using sort_params_form [OF s(1), of "[]"] assms(2,3) by (auto simp: no_params_def obj_wf_def)
  define b where "b = (if l_encoding l = ''application/json'' then json (JObj fm)
    else urlencoded (own_entries fm))"
  have plain: "ro_body (plain_options t l s) = TextBody b"
    "map_of (ro_headers (plain_options t l s)) ''Content-Type'' = Some (l_encoding l)"
    using assms(5) fm(1,4)
    by (auto simp: plain_options_def build_options_def add_body_def for_in_def b_def
        JSON_stringify_def Let_def)
  have "ro_body (rq_options rq) = TextBody b \<and> ro_method (rq_options rq) = toUpperCase (l_method l)
    \<and> map_of (ro_headers (rq_options rq)) ''Content-Type'' = Some (l_encoding l)"
    using plain assms(4) scheme.keeps_request [OF plain(2)]
    by (auto simp: s(2) build_options_auth split: option.split)
  moreover have "map_of fm [] = None" using assms(2) by (auto simp: fm(2) placed_def)
  then have "[] \<notin> fst ` set (own_entries fm)" by (simp add: map_of_eq_None_iff)
  then have "querystring (urlencoded (own_entries fm))
      = Some (map (\<lambda>(k, v). (k, to_string v)) (own_entries fm))"
    using querystring_join [of "own_entries fm" "[]"] obj_wf_own_entries [of fm] fm(3)
    by (simp add: urlencoded_def obj_wf_def)
  ultimately show ?thesis using fm(2) by (auto simp: b_def)
qed

theorem form_body_sent_witness:
  "\<exists>rq. buildRequest no_location \<lparr>t_auth = Some (new_token ''k'' []), t_headers = []\<rparr> sample_link
      [(''id'', JNum 7), (''name'', JStr ''a&b'')] = Inr rq
    \<and> map_of (ro_headers (rq_options rq)) ''Content-Type'' = Some ''application/json''"
proof -
  let ?ps = "[(''id'', JNum 7), (''name'', JStr ''a&b'')]"
  let ?t = "\<lparr>t_auth = Some (new_token ''k'' []), t_headers = []\<rparr> :: transport"
  obtain rq where rq: "buildRequest no_location ?t sample_link ?ps = Inr rq"
    using sample_request by blast
  have "\<forall>f \<in> set (l_fields sample_link). fl_location f \<noteq> ''body'' \<and> fl_name f \<noteq> []"
    "placed ''form'' ?ps (l_fields sample_link) ''name'' \<noteq> None"
    "\<forall>a. t_auth ?t = Some a \<longrightarrow> auth_own a \<noteq> ''Content-Type''"
    "l_encoding sample_link \<in> {''application/json'', ''application/x-www-form-urlencoded''}"
    by (simp_all add: sample_link_def placed_def new_token_def auth_own_def new_link_def)
  from form_body_sent [OF rq this] rq show ?thesis by auto
qed

subsection \<open>Cookies\<close>

definition cookie_text :: "string \<times> string \<Rightarrow> string" where
  "cookie_text c = fst c @ ''='' @ encodeURIComponent (snd c)"

definition cookie_name :: "string \<Rightarrow> bool" where
  "cookie_name n = (n \<noteq> [] \<and> (\<forall>c \<in> set n. \<not> is_ws c \<and> c \<noteq> CHR '';'' \<and> c \<noteq> CHR ''=''))"

lemma dropWhile_hd: "s = [] \<or> \<not> P (hd s) \<Longrightarrow> dropWhile P s = s"
  by (cases s) auto

lemma trim_inner:
  assumes "\<not> is_ws (hd s)" and "\<not> is_ws (last s)"
  shows "trim s = s"
proof -
  have "dropWhile is_ws s = s" "dropWhile is_ws (rev s) = rev s"
    using assms by (auto intro: dropWhile_hd simp: hd_rev)
  then show ?thesis by (simp add: trim_def)
qed

lemma safe_not_ws: "uri_safe c \<Longrightarrow> \<not> is_ws c"
proof (cases "is_alpha c \<or> is_digit c")
  case True
  then show ?thesis by (auto simp: char_class_defs)
next
  case False
  moreover assume "uri_safe c"
  ultimately have "c \<in> set ''-_.!~*()%'' \<or> c = CHR 0x27"
    by (auto simp: uri_safe_def uri_unescaped_def)
  then show ?thesis by (auto simp: is_ws_def)
qed

lemma cookie_chars:
  assumes "cookie_name (fst c)" and "x \<in> set (cookie_text c)"
  shows "\<not> is_ws x \<and> x \<noteq> CHR '';''"
proof -
  consider "x \<in> set (fst c)" | "x = CHR ''=''" | "uri_safe x"
    using assms(2) encode_safe by (auto simp: cookie_text_def)
  then show ?thesis
  proof cases
    case 1
    with assms(1) show ?thesis by (simp add: cookie_name_def)
  next
    case 2
    then show ?thesis by (simp add: is_ws_def)
  next
    case 3
    then show ?thesis using safe_not_ws not_uri_safe(6) by blast
  qed
qed

lemma trim_cookie:
  assumes "cookie_name (fst c)"
  shows "trim (cookie_text c) = cookie_text c \<and> trim (CHR '' '' # cookie_text c) = cookie_text c"
proof -
  have ne: "cookie_text c \<noteq> []" by (simp add: cookie_text_def)
  then have "\<not> is_ws (hd (cookie_text c))" "\<not> is_ws (last (cookie_text c))"
    using cookie_chars [OF assms] by simp_all
  then have "trim (cookie_text c) = cookie_text c" by (rule trim_inner)
  then show ?thesis by (simp add: trim_def is_ws_def)
qed

lemma cookie_match:
  assumes "CHR ''='' \<notin> set n" and "CHR ''='' \<notin> set m"
  shows "substring (n @ CHR ''='' # v) 0 (length m + 1) = m @ ''='' \<longleftrightarrow> n = m"
proof
  assume "substring (n @ CHR ''='' # v) 0 (length m + 1) = m @ ''=''"
  then have "starts_with (n @ CHR ''='' # v) (m @ ''='')" by (simp add: substring_def starts_with_def)
  then obtain u where "n @ CHR ''='' # v = m @ CHR ''='' # u" by (auto simp: starts_with_iff)
  then have "takeWhile (\<lambda>c. c \<noteq> CHR ''='') (n @ CHR ''='' # v)
      = takeWhile (\<lambda>c. c \<noteq> CHR ''='') (m @ CHR ''='' # u)" by simp
  moreover have "takeWhile (\<lambda>c. c \<noteq> CHR ''='') (w @ CHR ''='' # u) = w"
    if "CHR ''='' \<notin> set w" for w u using that by (intro takeWhile_enc) auto
  ultimately show "n = m" using assms by simp
qed (simp add: substring_def)

lemma find_cookie_texts:
  assumes "\<forall>c \<in> set cs. cookie_name (fst c)" and "CHR ''='' \<notin> set nm"
    and "list_all2 (\<lambda>p c. trim p = cookie_text c) ps cs"
  shows "find_cookie nm ps = Inr (map_of cs nm)"
  using assms(3,1)
proof (induction rule: list_all2_induct)
  case (Cons p ps c cs)
  then have "CHR ''='' \<notin> set (fst c)" by (auto simp: cookie_name_def)
  then have "substring (cookie_text c) 0 (length nm + 1) = nm @ ''='' \<longleftrightarrow> fst c = nm"
    using cookie_match [OF _ assms(2), of "fst c"] by (simp add: cookie_text_def)
  moreover have "drop (length (fst c) + 1) (cookie_text c) = encodeURIComponent (snd c)"
    by (simp add: cookie_text_def)
  ultimately show ?case
    using Cons by (cases c) (auto simp: Let_def)
qed simp

lemma split_cookies:
  assumes "\<forall>c \<in> set (c # cs). cookie_name (fst c)"
  shows "split_on (CHR '';'') (join_with ''; '' (map cookie_text (c # cs)))
    = cookie_text c # map (\<lambda>c. CHR '' '' # cookie_text c) cs"
  using assms
proof (induction cs arbitrary: c)
  case Nil
  then show ?case using cookie_chars [of c] by (auto intro: split_by_none)
next
  case (Cons d cs)
  then have c: "\<forall>x \<in> set (cookie_text c). \<not> x = CHR '';''" using cookie_chars [of c] by auto
  have "split_on (CHR '';'') (CHR '' '' # s) = (CHR '' '' # hd (split_on (CHR '';'') s))
      # tl (split_on (CHR '';'') s)" for s
    by (cases "split_on (CHR '';'') s") (use split_by_ne [of _ s] in \<open>auto simp: split: list.splits\<close>)
  with Cons.IH [of d] Cons.prems show ?case
    using split_by_append [OF c, of "CHR '';''"] by simp
qed

lemma find_cookie_join:
  assumes "\<forall>c \<in> set cs. cookie_name (fst c)" and "cs \<noteq> []" and "CHR ''='' \<notin> set nm"
  defines "t \<equiv> join_with ''; '' (map cookie_text cs)"
  shows "t \<noteq> [] \<and> find_cookie nm (split_on (CHR '';'') t) = Inr (map_of cs nm)"
proof
  obtain d ds where cs: "cs = d # ds" using assms(2) by (cases cs) auto
  have s: "split_on (CHR '';'') t = cookie_text d # map (\<lambda>c. CHR '' '' # cookie_text c) ds"
    using split_cookies [of d ds] assms(1) by (simp add: cs t_def)
  then show "t \<noteq> []" by (auto simp: cookie_text_def)
  have "list_all2 (\<lambda>p c. trim p = cookie_text c) (split_on (CHR '';'') t) cs"
    unfolding s using trim_cookie assms(1) by (auto simp: cs list.rel_map list_all2_same)
  then show "find_cookie nm (split_on (CHR '';'') t) = Inr (map_of cs nm)"
    by (rule find_cookie_texts [OF assms(1,3)])
qed

text \<open>
  The token a session reads from its cookies.  From a cookie text of any cookies, separated the
  way browsers separate them and their values percent-encoded, a session takes as its token the
  decoded value of the first cookie of the name it is given, and none when there is none;
  a cookie whose name only starts or ends with that name is never taken for it.
\<close>

theorem session_token_from_cookie:
  assumes "\<forall>c \<in> set cs. cookie_name (fst c)" and "cs \<noteq> []" and "CHR ''='' \<notin> set nm"
  shows "new_session page_cookie nm (join_with ''; '' (map cookie_text cs)) hname
    = Inr (SessionAuthentication (map_of cs nm) hname)"
  using find_cookie_join [OF assms] by (simp add: new_session_def getCookie_def or_else_def)

theorem session_token_from_cookie_witness:
  "new_session [] ''csrftoken'' ''old_csrftoken=1; csrftoken=a%3Bb'' ''X-CSRFToken''
     = Inr (SessionAuthentication (Some ''a;b'') ''X-CSRFToken'')"
proof -
  let ?cs = "[(''old_csrftoken'', ''1''), (''csrftoken'', ''a;b'')]"
  have "\<forall>c \<in> set ?cs. cookie_name (fst c)" by (simp add: cookie_name_def is_ws_def)
  moreover have "CHR ''='' \<notin> set ''csrftoken''" by simp
  moreover have "join_with ''; '' (map cookie_text ?cs) = ''old_csrftoken=1; csrftoken=a%3Bb''"
    by code_simp
  ultimately show ?thesis using session_token_from_cookie [of ?cs "''csrftoken''" "[]" "''X-CSRFToken''"]
    by simp
qed

end
