(* ===== verification/ApiExplorer.thy ===== *)
theory ApiExplorer
  imports HttpClient
begin

text \<open>
  The interactive documentation of the API
  (\<open>koded-cli/web/backend/staticfiles/rest_framework/docs/js/api.js\<close>): the form of a link becomes
  typed parameters, the client of \<open>HttpClient\<close> sends the request with the authentication the user
  has chosen, and what comes back is shown as data or as text.
\<close>

subsection \<open>Keys and headers\<close>

text \<open>\<open>s.replace(/p/g, r)\<close> for a fixed text \<open>p\<close>.\<close>

fun replace_all :: "string \<Rightarrow> string \<Rightarrow> nat \<Rightarrow> string \<Rightarrow> string" where
  "replace_all p r n [] = []"
| "replace_all p r (Suc n) (c # s) = replace_all p r n s"
| "replace_all p r 0 (c # s) =
     (if starts_with (c # s) p then r @ replace_all p r (length p - 1) s
      else c # replace_all p r 0 s)"

text \<open>The number says how many characters of the last match are still to be skipped.\<close>

definition normalizeKeys :: "string list \<Rightarrow> string list" where
  "normalizeKeys ks = concat (map (split_text '' > '' 0) ks)"

text \<open>\<open>/-(.)/g\<close>: a hyphen and the character after it, a line break excepted, in upper case.\<close>

fun upper_after_hyphen :: "string \<Rightarrow> string" where
  "upper_after_hyphen (a # b # s) =
     (if a = CHR ''-'' \<and> code b \<noteq> 10 \<and> code b \<noteq> 13
      then toUpperCase [a, b] @ upper_after_hyphen s
      else a # upper_after_hyphen (b # s))"
| "upper_after_hyphen s = s"

definition normalizeHTTPHeader :: "string \<Rightarrow> string" where
  "normalizeHTTPHeader str =
     replace_all ''Md5'' ''MD5'' 0
       (replace_all ''Xss'' ''XSS'' 0
         (replace_all ''Www'' ''WWW'' 0
           (upper_after_hyphen (toUpperCase (take 1 str) @ drop 1 str))))"

subsection \<open>The entries of a form\<close>

text \<open>
  An element of a form: the attribute \<open>name\<close>, the type, the value, whether it is checked, the values
  of its selected options, its files and its attribute \<open>data-type\<close>.
\<close>

record form_element =
  el_name :: "string option"
  el_type :: string
  el_value :: string
  el_checked :: bool
  el_selected :: "string list"
  el_files :: "string list"
  el_datatype :: "string option"

datatype entry_value = FText string | FFile string

definition element_entries :: "form_element \<Rightarrow> (string \<times> entry_value) list" where
  "element_entries el =
     (case el_name el of None \<Rightarrow> [] | Some nm \<Rightarrow>
        if nm = [] then []
        else if el_type el = ''file'' then map (\<lambda>f. (nm, FFile f)) (el_files el)
        else if el_type el = ''select-multiple'' \<or> el_type el = ''select-one''
        then map (\<lambda>v. (nm, FText v)) (el_selected el)
        else if el_type el = ''checkbox''
        then (if el_checked el then [(nm, FText (el_value el))] else [])
        else [(nm, FText (el_value el))])"

text \<open>\<open>native\<close> are the entries of the browser's \<open>FormData\<close>, where it can list them.\<close>

definition formEntries ::
  "(string \<times> entry_value) list option \<Rightarrow> form_element list \<Rightarrow> (string \<times> entry_value) list" where
  "formEntries native els =
     (case native of Some es \<Rightarrow> es | None \<Rightarrow> concat (map element_entries els))"

subsection \<open>Typed parameters\<close>

text \<open>
  \<open>parseFloat\<close> and \<open>JSON.parse\<close> are parameters here, for the numbers of this development are the safe
  integers: \<open>None\<close> is \<open>NaN\<close>, or a thrown error.  So is \<open>unsafe_number\<close>, the number a whole number is
  read as that is none of the safe ones: one near it, or an infinity.  \<open>file_value\<close> is the value a
  file is passed on as.
\<close>

record explorer_env =
  parse_float :: "string \<Rightarrow> jsval option"
  parse_json :: "string \<Rightarrow> jsval option"
  unsafe_number :: "int \<Rightarrow> jsval"
  file_value :: "string \<Rightarrow> jsval"

text \<open>
  \<open>parseInt(s)\<close> without a radix: white space, a sign, and after \<open>0x\<close> or \<open>0X\<close> hexadecimal digits,
  otherwise decimal ones; what follows them is ignored.  \<open>None\<close> is \<open>NaN\<close>.
\<close>

definition hex_digits_val :: "string \<Rightarrow> nat" where
  "hex_digits_val ds = foldl (\<lambda>n c. 16 * n + (case hex_val c of None \<Rightarrow> 0 | Some d \<Rightarrow> d)) 0 ds"

definition parseInt :: "string \<Rightarrow> int option" where
  "parseInt s =
     (let t = dropWhile is_ws s;
          neg = starts_with t ''-'';
          u = (if starts_with t ''-'' \<or> starts_with t ''+'' then drop 1 t else t);
          hex = (starts_with u ''0x'' \<or> starts_with u ''0X'');
          ds = (if hex then takeWhile is_hex (drop 2 u) else takeWhile is_digit u);
          n = int (if hex then hex_digits_val ds else digits_val ds)
      in if ds = [] then None else Some (if neg then - n else n))"

definition whole_number :: "explorer_env \<Rightarrow> int \<Rightarrow> jsval" where
  "whole_number e n = (if \<bar>n\<bar> < 2 ^ 53 then JNum n else unsafe_number e n)"

definition parse_bool :: "string \<Rightarrow> jsval option" where
  "parse_bool v =
     map_of [(''true'', JBool True), (''false'', JBool False)] (toLowerCase v)"

text \<open>\<open>$form.find('[name=...]').data('type') || 'string'\<close>: of the first element of the name.\<close>

definition data_type :: "form_element list \<Rightarrow> string \<Rightarrow> string" where
  "data_type els key =
     (case find (\<lambda>el. el_name el = Some key) els of
        None \<Rightarrow> ''string''
      | Some el \<Rightarrow> (case el_datatype el of None \<Rightarrow> ''string'' | Some t \<Rightarrow> if t = [] then ''string'' else t))"

text \<open>
  The value of an entry, \<open>None\<close> when it sets no parameter.  A file prints as \<open>[object File]\<close>, no number
  and no JSON text.  It has no \<open>toLowerCase\<close>: a file in a field of type \<open>boolean\<close> throws, before anything
  is sent.
\<close>

definition typed_value :: "explorer_env \<Rightarrow> string \<Rightarrow> entry_value \<Rightarrow> jsval option" where
  "typed_value e ty v =
     (case v of
        FFile f \<Rightarrow> (if ty = ''string'' then Some (file_value e f) else None)
      | FText s \<Rightarrow>
          if s = [] then None
          else if ty = ''integer'' then map_option (whole_number e) (parseInt s)
          else if ty = ''number'' then parse_float e s
          else if ty = ''boolean'' then parse_bool s
          else if ty = ''array'' \<or> ty = ''object'' then parse_json e s
          else if ty = ''string'' then Some (JStr s)
          else None)"

fun set_params ::
  "explorer_env \<Rightarrow> form_element list \<Rightarrow> (string \<times> entry_value) list \<Rightarrow> jsval obj \<Rightarrow> jsval obj" where
  "set_params e els [] ps = ps"
| "set_params e els ((k, v) # es) ps =
     set_params e els es
       (case typed_value e (data_type els k) v of None \<Rightarrow> ps | Some w \<Rightarrow> obj_set k w ps)"

text \<open>\<open>attr('name')\<close> of a checkbox without a name is \<open>undefined\<close>, as a key its text.\<close>

definition attr_key :: "form_element \<Rightarrow> string" where
  "attr_key el = (case el_name el of None \<Rightarrow> ''undefined'' | Some nm \<Rightarrow> nm)"

definition unchecked_param :: "form_element \<Rightarrow> jsval obj \<Rightarrow> jsval obj" where
  "unchecked_param el ps =
     (if attr_key el \<notin> fst ` set ps then obj_set (attr_key el) (JBool False) ps else ps)"

text \<open>\<open>params.hasOwnProperty\<close> is a function unless a parameter of that name hides it.\<close>

fun unchecked_params :: "form_element list \<Rightarrow> jsval obj \<Rightarrow> js_error + jsval obj" where
  "unchecked_params [] ps = Inr ps"
| "unchecked_params (el # els) ps =
     (if hides_method ps then Inl not_a_function else unchecked_params els (unchecked_param el ps))"

definition file_as_boolean :: "form_element list \<Rightarrow> (string \<times> entry_value) list \<Rightarrow> bool" where
  "file_as_boolean els es \<longleftrightarrow>
     list_ex (\<lambda>(k, v). data_type els k = ''boolean'' \<and> (case v of FFile _ \<Rightarrow> True | FText _ \<Rightarrow> False)) es"

definition form_params ::
  "explorer_env \<Rightarrow> (string \<times> entry_value) list option \<Rightarrow> form_element list
    \<Rightarrow> js_error + jsval obj" where
  "form_params e native els =
     (if file_as_boolean els (formEntries native els) then Inl not_a_function
      else unchecked_params (filter (\<lambda>el. el_type el = ''checkbox'') els)
        (set_params e els (formEntries native els) []))"

subsection \<open>Authentication\<close>

datatype window_auth =
    NoAuth
  | TokenAuth string string
  | BasicAuth string string
  | SessionAuth

definition auth_type :: "window_auth \<Rightarrow> string" where
  "auth_type a =
     (case a of NoAuth \<Rightarrow> ''none'' | TokenAuth _ _ \<Rightarrow> ''token'' | BasicAuth _ _ \<Rightarrow> ''basic''
      | SessionAuth \<Rightarrow> ''session'')"

text \<open>The scheme's object; reading the cookie of a session may throw.\<close>

definition auth_option :: "string \<Rightarrow> window_auth \<Rightarrow> js_error + authentication option" where
  "auth_option cookie a =
     (case a of
        NoAuth \<Rightarrow> Inr None
      | TokenAuth scheme token \<Rightarrow> Inr (Some (new_token token scheme))
      | BasicAuth user pass \<Rightarrow> Inr (Some (new_basic user pass))
      | SessionAuth \<Rightarrow>
          bind_err (new_session cookie ''csrftoken'' [] ''X-CSRFToken'') (\<lambda>x. Inr (Some x)))"

subsection \<open>The page\<close>

record response_view =
  rv_method :: string
  rv_url :: string
  rv_status :: string
  rv_status_class :: string
  rv_toggle_hidden :: bool
  rv_info :: "string list"
  rv_default :: "string list"
  rv_meta_hidden :: bool
  rv_awaiting_hidden :: bool
  rv_raw_hidden :: bool
  rv_data_hidden :: bool
  rv_raw_text :: string
  rv_data_text :: "string option"

record explorer =
  ex_display :: string
  ex_auth :: window_auth
  ex_selected :: string
  ex_active :: "string list"
  ex_modal_open :: "string list"
  ex_language :: string
  ex_links :: "(string \<times> bool) list"
  ex_blocks :: "(string \<times> bool) list"
  ex_views :: "nat \<Rightarrow> response_view"

text \<open>
  \<open>ex_selected\<close>: the text beside the control.  \<open>ex_active\<close>: the items marked active, by the
  \<open>data-auth\<close> of their links.  \<open>ex_links\<close> and \<open>ex_blocks\<close>: the languages of the menu and whether they are
  marked, and those of the code blocks and whether they are hidden.  \<open>ex_views\<close>: a view per form.  \<open>rv_info\<close> and
  \<open>rv_default\<close>: the buttons of its control with these classes.
\<close>

definition auth_chosen :: "window_auth \<Rightarrow> explorer \<Rightarrow> explorer" where
  "auth_chosen a s = s\<lparr>ex_auth := a, ex_selected := auth_type a, ex_active := [auth_type a]\<rparr>"

definition auth_none :: "explorer \<Rightarrow> explorer" where
  "auth_none s = auth_chosen NoAuth s"

definition auth_token :: "string \<Rightarrow> string \<Rightarrow> explorer \<Rightarrow> explorer" where
  "auth_token scheme token s =
     (auth_chosen (TokenAuth scheme token) s)\<lparr>ex_modal_open := removeAll ''token'' (ex_modal_open s)\<rparr>"

definition auth_basic :: "string \<Rightarrow> string \<Rightarrow> explorer \<Rightarrow> explorer" where
  "auth_basic user pass s =
     (auth_chosen (BasicAuth user pass) s)\<lparr>ex_modal_open := removeAll ''basic'' (ex_modal_open s)\<rparr>"

definition auth_session :: "explorer \<Rightarrow> explorer" where
  "auth_session s =
     (auth_chosen SessionAuth s)\<lparr>ex_modal_open := removeAll ''session'' (ex_modal_open s)\<rparr>"

definition choose_language :: "string \<Rightarrow> explorer \<Rightarrow> explorer" where
  "choose_language l s =
     s\<lparr>ex_language := l, ex_links := map (\<lambda>(k, a). (k, k = l)) (ex_links s),
       ex_blocks := map (\<lambda>(k, h). (k, k \<noteq> l)) (ex_blocks s)\<rparr>"

definition toggle_view :: "nat \<Rightarrow> string \<Rightarrow> explorer \<Rightarrow> explorer" where
  "toggle_view i d s =
     s\<lparr>ex_display := d,
       ex_views := (ex_views s)(i := (ex_views s i)
         \<lparr>rv_info := [d], rv_default := removeAll d (rv_default (ex_views s i)),
          rv_raw_hidden := (d \<noteq> ''raw''), rv_data_hidden := (d = ''raw'')\<rparr>)\<rparr>"

text \<open>The callbacks of a request and of a response.  \<open>parts\<close> are path, hash and search of an address
  as an anchor element reads it.\<close>

definition requestCallback :: "(string \<Rightarrow> string \<times> string \<times> string) \<Rightarrow> nat \<Rightarrow> request \<Rightarrow> explorer \<Rightarrow> explorer" where
  "requestCallback parts i rq s =
     (let (pathname, hash, search) = parts (rq_url rq)
      in s\<lparr>ex_views := (ex_views s)(i := (ex_views s i)
           \<lparr>rv_method := ro_method (rq_options rq), rv_url := pathname @ hash @ search\<rparr>)\<rparr>)"

definition panel_text :: "http_response \<Rightarrow> (string \<times> string) list \<Rightarrow> string \<Rightarrow> string" where
  "panel_text resp headers responseText =
     ''HTTP/1.1 '' @ show_int (hr_status resp) @ '' '' @ hr_statusText resp @ [CHR 0x0A]
     @ concat (map (\<lambda>(key, h). normalizeHTTPHeader key @ '': '' @ h @ [CHR 0x0A]) headers)
     @ (if responseText \<noteq> [] then [CHR 0x0A] @ responseText else [])"

definition responseCallback ::
  "nat \<Rightarrow> http_response \<Rightarrow> (string \<times> string) list \<Rightarrow> string \<Rightarrow> explorer \<Rightarrow> explorer" where
  "responseCallback i resp headers txt s =
     s\<lparr>ex_views := (ex_views s)(i := (ex_views s i)
         \<lparr>rv_toggle_hidden := False, rv_meta_hidden := False,
          rv_status_class := (if hr_ok resp then ''label-success'' else ''label-danger''),
          rv_status := show_int (hr_status resp), rv_raw_text := panel_text resp headers txt\<rparr>)\<rparr>"

text \<open>
  What the promise of the action leaves, whether it is fulfilled or rejected: \<open>pretty\<close> is the
  indented \<open>JSON.stringify\<close>.  Of an error only its \<open>content\<close> is shown, which an error of the network
  or of a decoder does not have.
\<close>

definition outcome_content :: "api_error + cnode \<Rightarrow> cnode option" where
  "outcome_content r =
     (case r of Inr data \<Rightarrow> Some data
      | Inl (ErrorResponse _ content) \<Rightarrow> Some content
      | Inl (Thrown _) \<Rightarrow> None)"

definition show_outcome ::
  "(cnode \<Rightarrow> string option) \<Rightarrow> nat \<Rightarrow> api_error + cnode \<Rightarrow> explorer \<Rightarrow> explorer" where
  "show_outcome pretty i r s =
     s\<lparr>ex_views := (ex_views s)(i := (ex_views s i)
         \<lparr>rv_awaiting_hidden := True, rv_raw_hidden := (ex_display s = ''data''),
          rv_data_hidden := (ex_display s \<noteq> ''data''),
          rv_data_text := Option.bind (outcome_content r) pretty\<rparr>)\<rparr>"

text \<open>
  The submission of a form: what the client does with the link at the form's keys.  \<open>Inl\<close> is an error
  thrown out of the handler: by the form's values, the cookie, or the client before it has a promise.
  \<open>Inr\<close> is what the promise is fulfilled with or rejected with.
\<close>

definition explore ::
  "location \<Rightarrow> (request \<Rightarrow> js_error + http_response) \<Rightarrow> string \<Rightarrow> explorer_env \<Rightarrow> cnode \<Rightarrow> window_auth
    \<Rightarrow> string list \<Rightarrow> (string \<times> entry_value) list option \<Rightarrow> form_element list
    \<Rightarrow> js_error + (api_error + cnode)" where
  "explore page net cookie e schema a key native els =
     bind_err (form_params e native els) (\<lambda>params.
     bind_err (auth_option cookie a) (\<lambda>au.
       let c = new_client au []; keys = normalizeKeys key
       in case action_throws page c schema keys params of
            Some err \<Rightarrow> Inl err
          | None \<Rightarrow> Inr (client_action page net c schema keys params)))"

text \<open>The end of a submission on the page: the callbacks of the promise run only when there is one.\<close>

definition explored_page ::
  "(cnode \<Rightarrow> string option) \<Rightarrow> nat \<Rightarrow> js_error + (api_error + cnode) \<Rightarrow> explorer \<Rightarrow> explorer" where
  "explored_page pretty i out s = (case out of Inl _ \<Rightarrow> s | Inr r \<Rightarrow> show_outcome pretty i r s)"

text \<open>What happens on the page: the forms of the authentications, the menus, and a form's progress.\<close>

datatype ex_event =
    Choose_none
  | Enter_token string string
  | Enter_basic string string
  | Choose_session
  | Choose_language string
  | Toggle_view nat string
  | Requested nat request
  | Responded nat http_response "(string \<times> string) list" string
  | Finished nat "api_error + cnode"

fun ex_handle ::
  "(string \<Rightarrow> string \<times> string \<times> string) \<Rightarrow> (cnode \<Rightarrow> string option) \<Rightarrow> ex_event \<Rightarrow> explorer \<Rightarrow> explorer" where
  "ex_handle parts pretty Choose_none s = auth_none s"
| "ex_handle parts pretty (Enter_token scheme tok) s = auth_token scheme tok s"
| "ex_handle parts pretty (Enter_basic user pass) s = auth_basic user pass s"
| "ex_handle parts pretty Choose_session s = auth_session s"
| "ex_handle parts pretty (Choose_language l) s = choose_language l s"
| "ex_handle parts pretty (Toggle_view i d) s = toggle_view i d s"
| "ex_handle parts pretty (Requested i rq) s = requestCallback parts i rq s"
| "ex_handle parts pretty (Responded i resp hds txt) s = responseCallback i resp hds txt s"
| "ex_handle parts pretty (Finished i r) s = show_outcome pretty i r s"

subsection \<open>Headers are shown as they are, but for their case\<close>

lemma lower_upper_ascii:
  assumes "code c < 128"
  shows "toLowerCase (upper_char c) = [lower_char c]"
proof -
  have "upper_char c = (if is_lower c then [char_of (code c - 32)] else [c])"
    using assms by (simp add: upper_char_def)
  moreover have "lower_char (char_of (code c - 32)) = lower_char c" if "is_lower c"
  proof -
    have "code c - 32 < 256" "97 \<le> code c" "code c \<le> 122" using that by (auto simp: is_lower_def)
    then have "code (char_of (code c - 32) :: char) = code c - 32" by simp
    then show ?thesis
      using that by (auto simp: lower_char_def is_upper_def is_lower_def)
  qed
  ultimately show ?thesis by simp
qed

lemma upper_char_ascii: "code c < 128 \<Longrightarrow> d \<in> set (upper_char c) \<Longrightarrow> code d < 128"
  by (auto simp: upper_char_def is_lower_def split: if_splits)

lemma lower_upper_ascii_list:
  "\<forall>c \<in> set s. code c < 128 \<Longrightarrow> toLowerCase (toUpperCase s) = toLowerCase s"
  by (induction s) (simp_all add: toUpperCase_def lower_upper_ascii)

lemma lower_upper_after_hyphen:
  "\<forall>c \<in> set s. code c < 128 \<Longrightarrow> toLowerCase (upper_after_hyphen s) = toLowerCase s"
proof (induction s rule: upper_after_hyphen.induct)
  case (1 a b s)
  then show ?case
    using lower_upper_ascii_list [of "[a, b]"] by (auto simp del: toLowerCase_simps(2)
        simp: toLowerCase_def)
qed simp_all

lemma starts_with_split: "starts_with s p \<Longrightarrow> s = p @ drop (length p) s"
  unfolding starts_with_def by (metis append_take_drop_id)

lemma lower_replace_all:
  "p \<noteq> [] \<Longrightarrow> toLowerCase p = toLowerCase r \<Longrightarrow>
     toLowerCase (replace_all p r n s) = toLowerCase (drop n s)"
proof (induction p r n s rule: replace_all.induct)
  case (3 p r c s)
  show ?case
  proof (cases "starts_with (c # s) p")
    case True
    have "toLowerCase (replace_all p r 0 (c # s)) = toLowerCase p @ toLowerCase (drop (length p - 1) s)"
      using True 3 by simp
    also have "drop (length p - 1) s = drop (length p) (c # s)" using 3(3) by (cases p) simp_all
    finally show ?thesis using starts_with_split [OF True] by (metis toLowerCase_simps(3) drop0)
  next
    case False
    with 3 show ?thesis by simp
  qed
qed simp_all

text \<open>
  The headers of a response are shown under their own names.  \<open>normalizeHTTPHeader\<close> changes
  nothing but the case of the letters of a name, so the name shown is the same header.
\<close>

theorem header_shown:
  assumes "\<forall>c \<in> set name. code c < 128"
  shows "toLowerCase (normalizeHTTPHeader name) = toLowerCase name
    \<and> length (normalizeHTTPHeader name) = length name"
proof -
  let ?u = "toUpperCase (take 1 name) @ drop 1 name"
  have u: "toLowerCase ?u = toLowerCase name"
    using lower_upper_ascii_list [of "take 1 name"] assms
    by (cases name) simp_all
  have "\<forall>c \<in> set ?u. code c < 128"
    using assms upper_char_ascii by (cases name) (auto simp: toUpperCase_def)
  then have "toLowerCase (upper_after_hyphen ?u) = toLowerCase name"
    using lower_upper_after_hyphen u by simp
  then have l: "toLowerCase (normalizeHTTPHeader name) = toLowerCase name"
  proof -
    have eq: "toLowerCase ''Md5'' = toLowerCase ''MD5''" "toLowerCase ''Xss'' = toLowerCase ''XSS''"
      "toLowerCase ''Www'' = toLowerCase ''WWW''" by code_simp+
    have ne: "''Md5'' \<noteq> []" "''Xss'' \<noteq> []" "''Www'' \<noteq> []" by simp_all
    note rw = lower_replace_all [OF ne(1) eq(1)] lower_replace_all [OF ne(2) eq(2)]
      lower_replace_all [OF ne(3) eq(3)]
    assume "toLowerCase (upper_after_hyphen ?u) = toLowerCase name"
    then show ?thesis unfolding normalizeHTTPHeader_def by (simp only: rw drop0)
  qed
  then show ?thesis using length_toLowerCase by metis
qed

theorem header_shown_witness:
  "toLowerCase (normalizeHTTPHeader ''www-md5'') = ''www-md5'' \<and> normalizeHTTPHeader ''www-md5'' = ''WWW-MD5''"
proof -
  have "\<forall>c \<in> set ''www-md5''. code c < 128" and "toLowerCase ''www-md5'' = ''www-md5''"
    and "normalizeHTTPHeader ''www-md5'' = ''WWW-MD5''" by code_simp+
  with header_shown [of "''www-md5''"] show ?thesis by metis
qed

subsection \<open>From the form to the parameters\<close>

text \<open>The parameters the entries set, in their order, and the last one of a key.\<close>

fun typed_entries :: "explorer_env \<Rightarrow> form_element list \<Rightarrow> (string \<times> entry_value) list \<Rightarrow> jsval obj" where
  "typed_entries e els [] = []"
| "typed_entries e els ((k, v) # es) =
     (case typed_value e (data_type els k) v of None \<Rightarrow> [] | Some w \<Rightarrow> [(k, w)]) @ typed_entries e els es"

lemma set_params_map_of:
  "map_of (set_params e els es ps) k =
     (case map_of (rev (typed_entries e els es)) k of Some w \<Rightarrow> Some w | None \<Rightarrow> map_of ps k)"
  by (induction es arbitrary: ps)
    (auto simp: map_of_append map_add_def split: option.split)

definition checkbox_keys :: "form_element list \<Rightarrow> string set" where
  "checkbox_keys els = attr_key ` {el \<in> set els. el_type el = ''checkbox''}"

lemma unchecked_param_map_of:
  "map_of (unchecked_param el ps) =
     (if map_of ps (attr_key el) = None then (map_of ps)(attr_key el \<mapsto> JBool False) else map_of ps)"
  by (auto simp: unchecked_param_def map_of_eq_None_iff)

lemma unchecked_params_map_of:
  assumes "map_of ps ''hasOwnProperty'' = None"
    and "\<forall>el \<in> set els. attr_key el \<noteq> ''hasOwnProperty''"
  shows "\<exists>qs. unchecked_params els ps = Inr qs
    \<and> (\<forall>k. map_of qs k = (case map_of ps k of Some w \<Rightarrow> Some w
          | None \<Rightarrow> if k \<in> attr_key ` set els then Some (JBool False) else None))"
  using assms
proof (induction els arbitrary: ps)
  case (Cons el els)
  have "map_of (unchecked_param el ps) ''hasOwnProperty'' = None"
    using Cons.prems(1) Cons.prems(2) [rule_format, of el] by (auto simp: unchecked_param_map_of)
  from Cons.IH [OF this] Cons.prems(2) obtain qs where
    "unchecked_params els (unchecked_param el ps) = Inr qs"
    "\<forall>k. map_of qs k = (case map_of (unchecked_param el ps) k of Some w \<Rightarrow> Some w
          | None \<Rightarrow> if k \<in> attr_key ` set els then Some (JBool False) else None)" by auto
  then show ?case
    using Cons.prems(1)
    by (auto simp: hides_method_def unchecked_param_map_of split: option.split)
qed (auto split: option.split)

text \<open>
  No parameter hides the method the code asks the object for, none is called \<open>__proto__\<close>, which would set
  no property, and no file stands for a truth value, nor a text that names what every object inherits.
\<close>

definition inherited_text :: "entry_value \<Rightarrow> bool" where
  "inherited_text v =
     (case v of FFile _ \<Rightarrow> False | FText s \<Rightarrow> toLowerCase s = ''constructor'' \<or> toLowerCase s = ''__proto__'')"

definition plain_names :: "form_element list \<Rightarrow> (string \<times> entry_value) list \<Rightarrow> bool" where
  "plain_names els es \<longleftrightarrow>
     \<not> file_as_boolean els es
     \<and> list_all (\<lambda>(k, v). k \<noteq> ''hasOwnProperty'' \<and> k \<noteq> ''__proto__''
         \<and> (data_type els k = ''boolean'' \<longrightarrow> \<not> inherited_text v)) es
     \<and> list_all (\<lambda>el. el_name el \<noteq> Some ''hasOwnProperty'' \<and> el_name el \<noteq> Some ''__proto__'') els"

lemma plain_names_simps:
  assumes "plain_names els es"
  shows "\<not> file_as_boolean els es" "''hasOwnProperty'' \<notin> fst ` set es"
    "el \<in> set els \<Longrightarrow> el_name el \<noteq> Some ''hasOwnProperty''"
  using assms by (auto simp: plain_names_def list_all_iff)

lemma typed_entries_keys: "fst ` set (typed_entries e els es) \<subseteq> fst ` set es"
proof (induction es)
  case (Cons x es)
  then show ?case by (cases x) (auto split: option.splits dest!: subsetD)
qed simp

lemma form_params_map_of:
  assumes "plain_names els (formEntries native els)"
  shows "\<exists>ps. form_params e native els = Inr ps
    \<and> (\<forall>k. map_of ps k = (case map_of (rev (typed_entries e els (formEntries native els))) k of
          Some w \<Rightarrow> Some w
        | None \<Rightarrow> if k \<in> checkbox_keys els then Some (JBool False) else None))"
proof -
  let ?es = "formEntries native els"
  let ?ps = "set_params e els ?es []"
  have "map_of ?ps ''hasOwnProperty'' = None"
    using plain_names_simps(2) [OF assms] typed_entries_keys [of e els ?es]
    by (auto simp: set_params_map_of map_of_eq_None_iff split: option.split)
  moreover have "attr_key el \<noteq> ''hasOwnProperty''" if "el \<in> set els" for el
    using plain_names_simps(3) [OF assms that] by (auto simp: attr_key_def split: option.split)
  ultimately show ?thesis
    using unchecked_params_map_of [of ?ps "filter (\<lambda>el. el_type el = ''checkbox'') els"]
    using plain_names_simps(1) [OF assms]
    by (auto simp: form_params_def set_params_map_of checkbox_keys_def split: option.splits)
qed

lemma form_params_plain:
  assumes "plain_names els (formEntries native els)" and "form_params e native els = Inr ps"
  shows "\<not> hides_method ps"
proof -
  have k: "''hasOwnProperty'' \<notin> checkbox_keys els"
    using plain_names_simps(3) [OF assms(1)] by (auto simp: checkbox_keys_def attr_key_def split: option.splits)
  have "map_of (rev (typed_entries e els (formEntries native els))) ''hasOwnProperty'' = None"
    using plain_names_simps(2) [OF assms(1)] typed_entries_keys [of e els "formEntries native els"]
    by (auto simp: map_of_eq_None_iff)
  with k form_params_map_of [OF assms(1), of e] assms(2) show ?thesis
    by (simp add: hides_method_def)
qed

subsection \<open>What the elements show\<close>

text \<open>The last of the values there are.\<close>

fun last_some :: "'a option list \<Rightarrow> 'a option" where
  "last_some [] = None"
| "last_some (x # xs) = (case last_some xs of None \<Rightarrow> x | Some y \<Rightarrow> Some y)"

definition values_of :: "string \<Rightarrow> (string \<times> entry_value) list \<Rightarrow> entry_value list" where
  "values_of nm es = map snd (filter (\<lambda>(k, v). k = nm) es)"

lemma typed_last:
  "map_of (rev (typed_entries e els es)) nm =
     last_some (map (typed_value e (data_type els nm)) (values_of nm es))"
proof (induction es)
  case (Cons x es)
  obtain k v where x: "x = (k, v)" by fastforce
  with Cons.IH show ?case
    by (auto simp: values_of_def map_of_append map_add_def split: option.split)
qed (simp add: values_of_def)

text \<open>The value of an element that alone has its name, by its kind.\<close>

definition shown_value :: "explorer_env \<Rightarrow> string \<Rightarrow> form_element \<Rightarrow> jsval option" where
  "shown_value e ty el =
     (let txt = typed_value e ty (FText (el_value el)) in
      if el_type el = ''file'' then last_some (map (\<lambda>f. typed_value e ty (FFile f)) (el_files el))
      else if el_type el = ''select-multiple'' \<or> el_type el = ''select-one''
      then last_some (map (\<lambda>v. typed_value e ty (FText v)) (el_selected el))
      else if el_type el = ''checkbox''
      then (if el_checked el \<and> txt \<noteq> None then txt else Some (JBool False))
      else txt)"

text \<open>How a text shows a value in a field of a type.\<close>

definition reads_as :: "string \<Rightarrow> string \<Rightarrow> jsval \<Rightarrow> bool" where
  "reads_as ty s w =
     (case w of
        JNum n \<Rightarrow> ty = ''integer'' \<and> s = show_int n \<and> \<bar>n\<bar> < 2 ^ 53
      | JBool b \<Rightarrow> ty = ''boolean'' \<and> toLowerCase s = (if b then ''true'' else ''false'')
      | JStr t \<Rightarrow> ty = ''string'' \<and> s = t \<and> t \<noteq> []
      | _ \<Rightarrow> False)"

lemma digits_not_hex: "\<forall>c \<in> set u. is_digit c \<Longrightarrow> \<not> starts_with u ''0x'' \<and> \<not> starts_with u ''0X''"
proof -
  assume d: "\<forall>c \<in> set u. is_digit c"
  have "\<not> is_digit CHR ''x''" "\<not> is_digit CHR ''X''" by code_simp+
  with d show ?thesis by (auto simp: starts_with_iff)
qed

lemma parseInt_show_int: "parseInt (show_int n) = Some n"
proof -
  let ?ds = "show_nat (nat \<bar>n\<bar>)"
  have d: "\<forall>c \<in> set ?ds. is_digit c" using show_nat_digits by blast
  then have tw: "takeWhile is_digit ?ds = ?ds" by (simp add: takeWhile_eq_all_conv)
  obtain c ds where cs: "?ds = c # ds" by (cases ?ds) (use show_nat_ne in auto)
  then have "is_digit c" using d by simp
  then have c: "\<not> is_ws c" "c \<noteq> CHR ''-''" "c \<noteq> CHR ''+''" by (auto simp: char_class_defs)
  have ws: "\<not> is_ws CHR ''-''" by code_simp
  have dr: "drop 1 (CHR ''-'' # ?ds) = ?ds" "?ds \<noteq> []" by simp_all
  show ?thesis
  proof (cases "n < 0")
    case True
    then have s: "show_int n = CHR ''-'' # ?ds" by (simp add: show_int_def)
    have w: "dropWhile is_ws (CHR ''-'' # ?ds) = CHR ''-'' # ?ds" "starts_with (CHR ''-'' # ?ds) ''-''"
      using ws by (simp_all add: starts_with_def)
    from True digits_not_hex [OF d] show ?thesis
      unfolding s parseInt_def Let_def w(1) by (simp only: w(2) dr tw if_True simp_thms if_False digits_val_show_nat) simp
  next
    case False
    then have s: "show_int n = ?ds" by (simp add: show_int_def)
    have w: "dropWhile is_ws ?ds = ?ds" "\<not> starts_with ?ds ''-''" "\<not> starts_with ?ds ''+''"
      using c by (simp_all add: cs starts_with_def)
    from False digits_not_hex [OF d] show ?thesis
      unfolding s parseInt_def Let_def w(1) by (simp only: w(2,3) dr tw simp_thms if_False digits_val_show_nat) simp
  qed
qed

lemma parseInt_hex: "parseInt ''0x10'' = Some 16" "parseInt '' -0X1fz'' = Some (- 31)" "parseInt ''0x'' = None"
  by code_simp+

lemma typed_reads: "reads_as ty s w \<Longrightarrow> typed_value e ty (FText s) = Some w"
proof -
  assume r: "reads_as ty s w"
  have ne: "show_int n \<noteq> []" for n by (simp add: show_int_def)
  from r show ?thesis
    by (cases w) (auto simp: reads_as_def typed_value_def parse_bool_def parseInt_show_int
        whole_number_def ne split: if_splits)
qed

text \<open>An element that alone has its name.\<close>

definition sole :: "form_element list \<Rightarrow> form_element \<Rightarrow> string \<Rightarrow> bool" where
  "sole els el nm \<longleftrightarrow> filter (\<lambda>x. el_name x = Some nm) els = [el] \<and> nm \<noteq> [] \<and> nm \<noteq> ''undefined''"

lemma sole_simps:
  assumes "sole els el nm"
  shows "el \<in> set els" "el_name el = Some nm" "nm \<noteq> []" "nm \<noteq> ''undefined''"
    "x \<in> set els \<Longrightarrow> el_name x = Some nm \<Longrightarrow> x = el"
proof -
  have f: "filter (\<lambda>x. el_name x = Some nm) els = [el]" using assms by (simp add: sole_def)
  then have "set (filter (\<lambda>x. el_name x = Some nm) els) = {el}" by simp
  then show "el \<in> set els" "el_name el = Some nm" "x \<in> set els \<Longrightarrow> el_name x = Some nm \<Longrightarrow> x = el"
    by auto
qed (use assms in \<open>simp_all add: sole_def\<close>)

lemma values_element:
  "nm \<noteq> [] \<Longrightarrow> values_of nm (element_entries x) =
     (if el_name x = Some nm then map snd (element_entries x) else [])"
  by (auto simp: values_of_def element_entries_def filter_empty_conv comp_def split: option.split)

text \<open>Where the form's entries are collected by the script, those of its name are its own.\<close>

lemma sole_values:
  assumes "sole els el nm"
  shows "values_of nm (formEntries None els) = map snd (element_entries el)"
proof -
  have "values_of nm (concat (map element_entries xs)) =
      concat (map (\<lambda>x. map snd (element_entries x)) (filter (\<lambda>x. el_name x = Some nm) xs))" for xs
  proof (induction xs)
    case (Cons x xs)
    then show ?case
      using values_element [OF sole_simps(3) [OF assms], of x] by (auto simp: values_of_def)
  qed (simp add: values_of_def)
  then show ?thesis using assms by (simp add: formEntries_def sole_def)
qed

lemma sole_checkbox:
  assumes "sole els el nm"
  shows "nm \<in> checkbox_keys els \<longleftrightarrow> el_type el = ''checkbox''"
proof
  assume "nm \<in> checkbox_keys els"
  then obtain x where x: "x \<in> set els" "el_type x = ''checkbox''" "attr_key x = nm"
    by (auto simp: checkbox_keys_def)
  then have "el_name x = Some nm"
    using sole_simps(4) [OF assms] by (simp add: attr_key_def split: option.splits)
  from sole_simps(5) [OF assms x(1) this] x(2) show "el_type el = ''checkbox''" by simp
next
  assume "el_type el = ''checkbox''"
  then show "nm \<in> checkbox_keys els"
    using sole_simps(1,2) [OF assms] by (force simp: checkbox_keys_def attr_key_def)
qed

lemma shown_entries:
  assumes "el_name el = Some nm" and "nm \<noteq> []"
  shows "(case last_some (map (typed_value e ty) (map snd (element_entries el))) of
       Some w \<Rightarrow> Some w
     | None \<Rightarrow> if el_type el = ''checkbox'' then Some (JBool False) else None) = shown_value e ty el"
proof -
  have id: "(case x of None \<Rightarrow> None | Some w \<Rightarrow> Some w) = x" for x :: "jsval option" by (cases x) simp_all
  show ?thesis
    using assms by (auto simp: element_entries_def shown_value_def Let_def comp_def id split: option.split)
qed

text \<open>
  C38: the parameters are what the form shows.  Whatever the form and its entries, whether the browser
  lists them (\<open>native\<close>) or the script collects them, as long as no name and no text is one that
  \<open>plain_names\<close> leaves out: the parameter of a name is the value of the last entry of that name that has one, by the type the first
  element of that name declares; without such an entry it is \<open>false\<close> when a check box has the name, and
  there is none otherwise.  So an element that alone has its name, with the entries it is to have, gives:
  a file or a choice, the last one with a value; a check box that is not checked, \<open>false\<close>; everything
  else, its text as a value of the type.  An empty text is no value; a text of type \<open>string\<close> is itself, one
  of type \<open>integer\<close> that shows a safe integer is that integer, \<open>true\<close> and \<open>false\<close> in any case are the
  values of type \<open>boolean\<close>.
\<close>

theorem form_values:
  assumes "plain_names els (formEntries native els)"
  shows "\<exists>ps. form_params e native els = Inr ps
    \<and> (\<forall>nm. map_of ps nm =
        (case last_some (map (typed_value e (data_type els nm)) (values_of nm (formEntries native els))) of
           Some w \<Rightarrow> Some w
         | None \<Rightarrow> if nm \<in> checkbox_keys els then Some (JBool False) else None))
    \<and> (\<forall>el nm. sole els el nm \<and> values_of nm (formEntries native els) = map snd (element_entries el)
        \<longrightarrow> map_of ps nm = shown_value e (data_type els nm) el)
    \<and> (\<forall>ty s w. typed_value e ty (FText []) = None \<and> (reads_as ty s w \<longrightarrow> typed_value e ty (FText s) = Some w))"
proof -
  from form_params_map_of [OF assms, of e] obtain ps where
    ps: "form_params e native els = Inr ps" and
    m: "map_of ps nm = (case last_some (map (typed_value e (data_type els nm)) (values_of nm (formEntries native els))) of
           Some w \<Rightarrow> Some w
         | None \<Rightarrow> if nm \<in> checkbox_keys els then Some (JBool False) else None)" for nm
    unfolding typed_last by blast
  have "map_of ps nm = shown_value e (data_type els nm) el"
    if "sole els el nm" and "values_of nm (formEntries native els) = map snd (element_entries el)" for el nm
    unfolding m that(2) sole_checkbox [OF that(1)]
    by (rule shown_entries [OF sole_simps(2,3) [OF that(1)]])
  with ps m typed_reads show ?thesis by (intro exI [of _ ps]) (auto simp: typed_value_def)
qed

subsection \<open>The authentication shown is the one requests carry\<close>

definition last_entered :: "ex_event list \<Rightarrow> window_auth \<Rightarrow> window_auth" where
  "last_entered es a = fold (\<lambda>ev a. case ev of
       Choose_none \<Rightarrow> NoAuth | Enter_token scheme tok \<Rightarrow> TokenAuth scheme tok
     | Enter_basic user pass \<Rightarrow> BasicAuth user pass | Choose_session \<Rightarrow> SessionAuth | _ \<Rightarrow> a) es a"

definition ex_ok :: "explorer \<Rightarrow> bool" where
  "ex_ok s \<longleftrightarrow> ex_selected s = auth_type (ex_auth s) \<and> ex_active s = [ex_selected s]"

lemmas ex_defs = auth_none_def auth_token_def auth_basic_def auth_session_def auth_chosen_def
  choose_language_def toggle_view_def requestCallback_def responseCallback_def show_outcome_def

lemma ex_ok_handle: "ex_ok s \<Longrightarrow> ex_ok (ex_handle parts pretty ev s)"
  by (cases ev) (simp_all add: ex_ok_def ex_defs split: prod.split)

interpretation explorer: event_machine "ex_handle parts pretty" ex_ok for parts pretty
  by unfold_locales (rule ex_ok_handle)

lemma ex_auth_run: "ex_auth (fold (ex_handle parts pretty) es s) = last_entered es (ex_auth s)"
proof (induction es arbitrary: s)
  case (Cons ev es)
  then show ?case by (cases ev) (simp_all add: last_entered_def ex_defs split: prod.split)
qed (simp add: last_entered_def)

text \<open>What a request carries: the header of the scheme shown, and credentials for a session.\<close>

definition authorization :: "window_auth \<Rightarrow> string option" where
  "authorization a =
     (case a of NoAuth \<Rightarrow> None
      | TokenAuth scheme tok \<Rightarrow> Some ((if scheme = [] then ''Bearer'' else scheme) @ '' '' @ tok)
      | BasicAuth user pass \<Rightarrow> Some (''Basic '' @ btoa (user @ '':'' @ pass))
      | SessionAuth \<Rightarrow> None)"

definition carries :: "window_auth \<Rightarrow> request_options \<Rightarrow> bool" where
  "carries a r \<longleftrightarrow>
     map_of (ro_headers r) ''Authorization'' = authorization a
     \<and> ro_credentials r = (if a = SessionAuth then Some ''same-origin'' else None)"

lemma plain_carries_nothing:
  assumes "t_headers t = []"
  shows "map_of (ro_headers (plain_options t l s)) ''Authorization'' = None"
    and "ro_credentials (plain_options t l s) = None"
  using assms
  by (simp_all add: plain_options_def build_options_def add_body_def obj_assign_def Let_def)

lemma carries_auth:
  assumes "auth_option cookie a = Inr au" and "t_auth t = au" and "t_headers t = []"
  shows "carries a (build_options t l s)"
  unfolding build_options_auth assms(2)
  using plain_carries_nothing [OF assms(3)] assms(1)
  by (auto simp: auth_option_def new_token_def new_basic_def new_session_def bind_err_Inr or_else_def
      carries_def authorization_def authenticate_def authenticate_session_def authenticate_token_def
      Let_def split: window_auth.splits option.splits)

lemma client_send_one:
  "client_send page net (new_client au []) l params =
     (case determineTransport page [http_schemes] (l_url l) of
        Inl e \<Rightarrow> Inl (Thrown e)
      | Inr _ \<Rightarrow> transport_action page net \<lparr>t_auth = au, t_headers = []\<rparr> l
          [CoreJSONCodec, JSONCodec, TextCodec] params)"
proof -
  have one: "i = 0" if "determineTransport page [http_schemes] u = Inr i" for i u
    using that by (auto simp: determineTransport_def Let_def split: option.splits if_splits)
  show ?thesis
    by (cases "determineTransport page [http_schemes] (l_url l)")
      (auto simp: client_send_def new_client_def dest: one)
qed

lemma client_action_cong:
  assumes "\<And>l params rq. buildRequest page \<lparr>t_auth = au, t_headers = []\<rparr> l params = Inr rq \<Longrightarrow> net rq = net' rq"
  shows "client_action page net (new_client au []) schema keys params
    = client_action page net' (new_client au []) schema keys params"
proof -
  have "transport_action page net \<lparr>t_auth = au, t_headers = []\<rparr> l ds ps
    = transport_action page net' \<lparr>t_auth = au, t_headers = []\<rparr> l ds ps" for l ds ps
    using assms by (auto simp: transport_action_def split: sum.split)
  then show ?thesis by (simp add: client_action_def client_send_one split: sum.split)
qed

text \<open>
  C5: the page shows the authentication requests carry.  After any events, from a page whose menu
  marks the authentication in force, the authentication in force is the one entered last, the label and
  the only item marked name it, and whatever form is submitted, every request sent carries that
  authentication: the result is the same for a network that answers other requests differently.
\<close>

theorem explored_authorized:
  assumes "ex_ok s" and "s' = fold (ex_handle parts pretty) es s"
    and "\<forall>rq. carries (last_entered es (ex_auth s)) (rq_options rq) \<longrightarrow> net rq = net' rq"
  shows "ex_auth s' = last_entered es (ex_auth s)
    \<and> ex_selected s' = auth_type (last_entered es (ex_auth s)) \<and> ex_active s' = [ex_selected s']
    \<and> explore page net cookie e schema (ex_auth s') key native els
      = explore page net' cookie e schema (ex_auth s') key native els"
proof -
  let ?a = "last_entered es (ex_auth s)"
  have auth: "ex_auth s' = ?a" using assms(2) by (simp add: ex_auth_run)
  have "ex_ok s'" using explorer.run_invar [OF assms(1)] assms(2) by simp
  moreover have "client_action page net (new_client au []) schema keys params
      = client_action page net' (new_client au []) schema keys params"
    if "auth_option cookie ?a = Inr au" for au keys params
  proof (rule client_action_cong)
    fix l ps rq
    assume "buildRequest page \<lparr>t_auth = au, t_headers = []\<rparr> l ps = Inr rq"
    then show "net rq = net' rq"
      using carries_auth [OF that, of "\<lparr>t_auth = au, t_headers = []\<rparr>"] assms(3)
      by (metis buildRequest_parts transport.select_convs)
  qed
  ultimately show ?thesis
    unfolding auth explore_def ex_ok_def Let_def
    by (auto simp: auth bind_err_def split: sum.split option.split)
qed

subsection \<open>Nothing is sent without the fields a link requires\<close>

lemma missing_throws:
  assumes "lookupLink schema keys = Inr l" and "determineTransport page [http_schemes] (l_url l) = Inr i"
    and "\<not> hides_method ps" and "bodies_ok ps (l_fields l)" and "find (missing ps) (l_fields l) = Some g"
  shows "action_throws page (new_client au []) schema keys ps = Some (missing_field (fl_name g))"
proof -
  have "container (sp_form no_params)" by (simp add: no_params_def container_def)
  from sort_params_missing [OF this assms(4,5)]
  have "buildRequest page t l ps = Inl (missing_field (fl_name g))" for t
    using assms(3) by (simp add: buildRequest_def bind_err_def)
  with assms(1,2) show ?thesis by (simp add: action_throws_def bind_err_def new_client_def)
qed


text \<open>A form with the text of a required path field and a check box, and the schema of its link.\<close>

definition text_element :: "string \<Rightarrow> string \<Rightarrow> string option \<Rightarrow> form_element" where
  "text_element nm v t = \<lparr>el_name = Some nm, el_type = ''text'', el_value = v, el_checked = False,
     el_selected = [], el_files = [], el_datatype = t\<rparr>"

definition sample_form :: "string \<Rightarrow> form_element list" where
  "sample_form v = [text_element ''id'' v None,
     (text_element ''page'' ''true'' (Some ''boolean''))\<lparr>el_type := ''checkbox'', el_checked := True\<rparr>]"

definition sample_api :: cnode where
  "sample_api = Document [] [] [] [(''users'', Obj [(''create'', Link sample_link)])]"

definition http_page :: location where
  "http_page = no_location\<lparr>loc_protocol := ''http:'', loc_host := ''a.org'', loc_hostname := ''a.org'',
     loc_slashes := True, loc_pathname := ''/docs/''\<rparr>"

lemma sample_form_ok: "plain_names (sample_form v) (formEntries None (sample_form v))"
  by (simp add: sample_form_def text_element_def plain_names_def formEntries_def element_entries_def
      file_as_boolean_def data_type_def inherited_text_def)

lemma sample_form_sole:
  "sole (sample_form v) (text_element ''id'' v None) ''id''"
  "sole (sample_form v) (sample_form v ! 1) ''page''"
  by (simp_all add: sole_def sample_form_def text_element_def)

lemma sample_form_boxes: "checkbox_keys (sample_form v) = {''page''}"
proof -
  have "{el \<in> set (sample_form v). el_type el = ''checkbox''} = {sample_form v ! 1}"
    by (auto simp: sample_form_def text_element_def)
  then show ?thesis by (simp add: checkbox_keys_def attr_key_def sample_form_def text_element_def)
qed

theorem form_values_witness:
  "\<forall>e. \<exists>ps. form_params e None (sample_form ''7'') = Inr ps
     \<and> map_of ps ''page'' = Some (JBool True) \<and> map_of ps ''id'' = Some (JStr ''7'')
     \<and> map_of ps ''sort'' = None"
proof
  fix e
  let ?els = "sample_form ''7''"
  from form_values [OF sample_form_ok, of e "''7''"] obtain ps where
    ps: "form_params e None ?els = Inr ps" and
    n: "map_of ps nm = (case last_some (map (typed_value e (data_type ?els nm)) (values_of nm (formEntries None ?els))) of
           Some w \<Rightarrow> Some w
         | None \<Rightarrow> if nm \<in> checkbox_keys ?els then Some (JBool False) else None)" and
    sh: "sole ?els el nm \<Longrightarrow> values_of nm (formEntries None ?els) = map snd (element_entries el)
      \<Longrightarrow> map_of ps nm = shown_value e (data_type ?els nm) el" and
    r: "reads_as ty s w \<Longrightarrow> typed_value e ty (FText s) = Some w" for nm el ty s w by blast
  have "reads_as ''boolean'' ''true'' (JBool True)" "reads_as ''string'' ''7'' (JStr ''7'')" by code_simp+
  note t = this [THEN r]
  have "map_of ps ''sort'' = None"
    unfolding n by (simp add: sample_form_boxes) (simp add: values_of_def formEntries_def element_entries_def sample_form_def
        text_element_def)
  moreover have "map_of ps ''id'' = Some (JStr ''7'')" "map_of ps ''page'' = Some (JBool True)"
    using t sh [OF sample_form_sole(1) sole_values [OF sample_form_sole(1)]]
      sh [OF sample_form_sole(2) sole_values [OF sample_form_sole(2)]]
    by (simp_all add: shown_value_def data_type_def sample_form_def text_element_def)
  ultimately show "\<exists>ps. form_params e None ?els = Inr ps \<and> map_of ps ''page'' = Some (JBool True)
      \<and> map_of ps ''id'' = Some (JStr ''7'') \<and> map_of ps ''sort'' = None"
    using ps by blast
qed


text \<open>A page before anything happened.\<close>

definition new_explorer :: explorer where
  "new_explorer = \<lparr>ex_display = ''data'', ex_auth = NoAuth, ex_selected = ''none'', ex_active = [''none''],
     ex_modal_open = [], ex_language = ''javascript'', ex_links = [], ex_blocks = [],
     ex_views = (\<lambda>_. \<lparr>rv_method = [], rv_url = [], rv_status = [], rv_status_class = [],
       rv_toggle_hidden = True, rv_info = [''data''], rv_default = [''raw''], rv_meta_hidden = True,
       rv_awaiting_hidden = False, rv_raw_hidden = True, rv_data_hidden = False,
       rv_raw_text = [], rv_data_text = None\<rparr>)\<rparr>"

theorem explored_authorized_witness:
  "\<forall>parts pretty net cookie e. let s = fold (ex_handle parts pretty) [Enter_token [] ''t''] new_explorer in
     ex_selected s = ''token''
     \<and> explore http_page net cookie e sample_api (ex_auth s) [''users > create''] None (sample_form ''7'')
      = explore http_page (\<lambda>rq. if map_of (ro_headers (rq_options rq)) ''Authorization'' = Some ''Bearer t''
            then net rq else Inl not_a_function)
          cookie e sample_api (ex_auth s) [''users > create''] None (sample_form ''7'')"
proof -
  have ok: "ex_ok new_explorer" by (simp add: ex_ok_def new_explorer_def auth_type_def)
  have l: "last_entered [Enter_token [] ''t''] (ex_auth new_explorer) = TokenAuth [] ''t''"
    by (simp add: last_entered_def)
  note main = explored_authorized [OF ok refl, of "[Enter_token [] ''t'']", unfolded l]
  show ?thesis
    unfolding Let_def
  proof (intro allI conjI, goal_cases)
    case (1 parts pretty net cookie e)
    show ?case using main [of net net] by (simp add: auth_type_def)
  next
    case (2 parts pretty net cookie e)
    show ?case
      by (rule main [THEN conjunct2, THEN conjunct2, THEN conjunct2])
        (simp add: carries_def authorization_def)
  qed
qed

text \<open>
  The display chosen is one for the page, the buttons are each form's own: after another form was
  switched to the raw response, a result is shown raw here while the button of the data stays marked.
\<close>

lemma buttons_per_form:
  assumes "i \<noteq> j"
  shows "let v = ex_views (show_outcome pretty j r (toggle_view i ''raw'' s)) j in
    rv_info v = rv_info (ex_views s j) \<and> \<not> rv_raw_hidden v \<and> rv_data_hidden v"
  using assms by (simp add: show_outcome_def toggle_view_def)

end
