(* ===== verification/Fetch.thy ===== *)
theory Fetch
  imports HttpClient
begin

text \<open>
  The replacement for \<open>fetch\<close> in browsers without it, modules 16 and 22 of
  \<open>koded-cli/web/backend/staticfiles/rest_framework/js/coreapi-0.1.1.js\<close>: headers, bodies, requests and
  responses, over an \<open>XMLHttpRequest\<close> that is a parameter.  It gives the client of \<open>HttpClient\<close> the network
  it has as a parameter.  A body is text, a blob (its bytes and type), form entries, a list of parameters by
  its text, or a buffer of bytes; views of buffers are left out.  An error that is
  thrown and one that rejects the promise are not told apart.  No header is called \<open>__proto__\<close> or \<open>constructor\<close>.
\<close>

subsection \<open>Headers\<close>

definition header_char :: "char \<Rightarrow> bool" where
  "header_char c \<longleftrightarrow> is_alpha c \<or> is_digit c \<or> c = CHR 0x27 \<or> c = CHR 0x60 \<or> c \<in> set ''-#$%&*+.^_|~''"

definition normalizeName :: "string \<Rightarrow> js_error + string" where
  "normalizeName nm =
     (if list_all header_char nm then Inr (toLowerCase nm)
      else Inl (js_err TypeError ''Invalid character in header field name''))"

text \<open>The object \<open>map\<close> of headers; an empty value counts as none when another is appended.\<close>

type_synonym headers = "string obj"

definition headers_append :: "string \<Rightarrow> string \<Rightarrow> headers \<Rightarrow> js_error + headers" where
  "headers_append nm v h =
     bind_err (normalizeName nm) (\<lambda>n.
       Inr (obj_set n (case map_of h n of
              None \<Rightarrow> v | Some old \<Rightarrow> if old \<noteq> [] then old @ '','' @ v else v) h))"

fun append_all :: "(string \<times> string) list \<Rightarrow> headers \<Rightarrow> js_error + headers" where
  "append_all [] h = Inr h"
| "append_all ((k, v) # kvs) h = bind_err (headers_append k v h) (append_all kvs)"

definition new_Headers :: "(string \<times> string) list option \<Rightarrow> js_error + headers" where
  "new_Headers hs = append_all (case hs of None \<Rightarrow> [] | Some kvs \<Rightarrow> kvs) []"

definition headers_delete :: "string \<Rightarrow> headers \<Rightarrow> js_error + headers" where
  "headers_delete nm h = bind_err (normalizeName nm) (\<lambda>n. Inr (filter (\<lambda>e. fst e \<noteq> n) h))"

definition headers_has :: "string \<Rightarrow> headers \<Rightarrow> js_error + bool" where
  "headers_has nm h = bind_err (normalizeName nm) (\<lambda>n. Inr (map_of h n \<noteq> None))"

definition headers_get :: "string \<Rightarrow> headers \<Rightarrow> js_error + string option" where
  "headers_get nm h = bind_err (normalizeName nm) (\<lambda>n. Inr (map_of h n))"

definition headers_set :: "string \<Rightarrow> string \<Rightarrow> headers \<Rightarrow> js_error + headers" where
  "headers_set nm v h = bind_err (normalizeName nm) (\<lambda>n. Inr (obj_set n v h))"

text \<open>\<open>forEach\<close> visits the entries in this order; the iterators give them one by one.\<close>

definition headers_entries :: "headers \<Rightarrow> (string \<times> string) list" where
  "headers_entries h = own_entries h"

definition headers_keys :: "headers \<Rightarrow> string list" where
  "headers_keys h = map fst (headers_entries h)"

definition headers_values :: "headers \<Rightarrow> string list" where
  "headers_values h = map snd (headers_entries h)"

definition parse_line :: "string \<Rightarrow> (string \<times> string) option" where
  "parse_line l =
     (let key = trim (takeWhile (\<lambda>c. c \<noteq> CHR '':'') l); value = trim (drop 1 (dropWhile (\<lambda>c. c \<noteq> CHR '':'') l))
      in if key \<noteq> [] then Some (key, value) else None)"

definition parseHeaders :: "string \<Rightarrow> js_error + headers" where
  "parseHeaders raw = append_all (List.map_filter parse_line (split_text [CHR 0x0D, CHR 0x0A] 0 raw)) []"

subsection \<open>Bodies\<close>

record support =
  su_search :: bool
  su_blob :: bool
  su_formData :: bool
  su_arrayBuffer :: bool

datatype body_init = BUndef | BNull | BText string | BBlob string string | BForm "(string \<times> string) list"
  | BParams string | BBuffer string | BOther

record fbody =
  fb_init :: body_init
  fb_text :: string
  fb_blob :: "(string \<times> string) option"
  fb_form :: "(string \<times> string) list option"
  fb_buffer :: "string option"
  fb_used :: bool

definition falsy :: "body_init \<Rightarrow> bool" where
  "falsy b = (b \<in> {BUndef, BNull, BText []})"

definition no_body :: "body_init \<Rightarrow> fbody" where
  "no_body b = \<lparr>fb_init = b, fb_text = [], fb_blob = None, fb_form = None, fb_buffer = None, fb_used = False\<rparr>"

definition unsupported_body :: js_error where
  "unsupported_body = js_err GenericError ''unsupported BodyInit type''"

definition body_parts :: "support \<Rightarrow> body_init \<Rightarrow> js_error + fbody" where
  "body_parts su b =
     (if falsy b then Inr (no_body b)
      else (case b of
          BText s \<Rightarrow> Inr ((no_body b)\<lparr>fb_text := s\<rparr>)
        | BBlob bs ty \<Rightarrow> if su_blob su then Inr ((no_body b)\<lparr>fb_blob := Some (bs, ty)\<rparr>) else Inl unsupported_body
        | BForm es \<Rightarrow> if su_formData su then Inr ((no_body b)\<lparr>fb_form := Some es\<rparr>) else Inl unsupported_body
        | BParams s \<Rightarrow> if su_search su then Inr ((no_body b)\<lparr>fb_text := s\<rparr>) else Inl unsupported_body
        | BBuffer bs \<Rightarrow> if su_arrayBuffer su then Inr ((no_body b)\<lparr>fb_buffer := Some bs\<rparr>) else Inl unsupported_body
        | _ \<Rightarrow> Inl unsupported_body))"

definition default_type :: "support \<Rightarrow> body_init \<Rightarrow> string option" where
  "default_type su b =
     (case b of
        BText s \<Rightarrow> Some ''text/plain;charset=UTF-8''
      | BBlob bs ty \<Rightarrow> if ty \<noteq> [] then Some ty else None
      | BParams s \<Rightarrow> if su_search su then Some ''application/x-www-form-urlencoded;charset=UTF-8'' else None
      | _ \<Rightarrow> None)"

definition initBody :: "support \<Rightarrow> body_init \<Rightarrow> headers \<Rightarrow> js_error + fbody \<times> headers" where
  "initBody su b h =
     bind_err (body_parts su b) (\<lambda>p.
       Inr (p, if map_of h ''content-type'' \<in> {None, Some []}
               then (case default_type su b of None \<Rightarrow> h | Some ty \<Rightarrow> obj_set ''content-type'' ty h) else h))"

text \<open>What a read gives; the first error of a read is the one of a body that was read before.\<close>

datatype body_value = VText string | VBlob string string | VBuffer string | VJson jsval | VForm "(string \<times> string) list"

record fetch_env =
  fe_support :: support
  fe_json :: "string \<Rightarrow> js_error + jsval"
  fe_text_of_bytes :: "string \<Rightarrow> string"
  fe_bytes_of_text :: "string \<Rightarrow> string"

definition already_read :: js_error where
  "already_read = js_err TypeError ''Already read''"

definition consumed :: "fbody \<Rightarrow> js_error + fbody" where
  "consumed b = (if fb_used b then Inl already_read else Inr (b\<lparr>fb_used := True\<rparr>))"

definition once :: "(fbody \<Rightarrow> js_error + 'a) \<Rightarrow> fbody \<Rightarrow> (js_error + 'a) \<times> fbody" where
  "once f b = (case consumed b of Inl e \<Rightarrow> (Inl e, b) | Inr b' \<Rightarrow> (f b, b'))"

definition body_text :: "fetch_env \<Rightarrow> fbody \<Rightarrow> (js_error + string) \<times> fbody" where
  "body_text e = once (\<lambda>b.
     case fb_blob b of Some (bs, _) \<Rightarrow> Inr (fe_text_of_bytes e bs)
     | None \<Rightarrow> (case fb_buffer b of Some bs \<Rightarrow> Inr bs
       | None \<Rightarrow> (case fb_form b of Some _ \<Rightarrow> Inl (js_err GenericError ''could not read FormData body as text'')
         | None \<Rightarrow> Inr (fb_text b))))"

definition body_blob :: "fetch_env \<Rightarrow> fbody \<Rightarrow> (js_error + string \<times> string) \<times> fbody" where
  "body_blob e = once (\<lambda>b.
     case fb_blob b of Some x \<Rightarrow> Inr x
     | None \<Rightarrow> (case fb_buffer b of Some bs \<Rightarrow> Inr (bs, [])
       | None \<Rightarrow> (case fb_form b of Some _ \<Rightarrow> Inl (js_err GenericError ''could not read FormData body as blob'')
         | None \<Rightarrow> Inr (fe_bytes_of_text e (fb_text b), []))))"

text \<open>\<open>body.trim().split('&')\<close>: the entries of a text, plus signs as spaces.\<close>

definition plus_space :: "string \<Rightarrow> string" where
  "plus_space s = map (\<lambda>c. if c = CHR ''+'' then CHR '' '' else c) s"

definition decode_entry :: "string \<Rightarrow> js_error + string \<times> string" where
  "decode_entry bs =
     (case (decodeURIComponent (plus_space (takeWhile (\<lambda>c. c \<noteq> CHR ''='') bs)),
            decodeURIComponent (plus_space (drop 1 (dropWhile (\<lambda>c. c \<noteq> CHR ''='') bs)))) of
        (Some n, Some v) \<Rightarrow> Inr (n, v)
      | _ \<Rightarrow> Inl (js_err URIError ''URI malformed''))"

fun decode_entries :: "string list \<Rightarrow> js_error + (string \<times> string) list" where
  "decode_entries [] = Inr []"
| "decode_entries (b # bs) =
     (if b = [] then decode_entries bs
      else bind_err (decode_entry b) (\<lambda>x. bind_err (decode_entries bs) (\<lambda>xs. Inr (x # xs))))"

definition decode_form :: "string \<Rightarrow> js_error + (string \<times> string) list" where
  "decode_form s = decode_entries (split_on (CHR ''&'') (trim s))"

datatype body_read = ReadText | ReadBlob | ReadArrayBuffer | ReadJson | ReadForm

definition no_method :: js_error where
  "no_method = js_err TypeError ''not a function''"

definition read_body :: "fetch_env \<Rightarrow> body_read \<Rightarrow> fbody \<Rightarrow> (js_error + body_value) \<times> fbody" where
  "read_body e r b =
     (case r of
        ReadText \<Rightarrow> map_prod (\<lambda>x. bind_err x (\<lambda>s. Inr (VText s))) id (body_text e b)
      | ReadBlob \<Rightarrow>
          if su_blob (fe_support e) then map_prod (\<lambda>x. bind_err x (\<lambda>(bs, ty). Inr (VBlob bs ty))) id (body_blob e b)
          else (Inl no_method, b)
      | ReadArrayBuffer \<Rightarrow>
          if \<not> su_arrayBuffer (fe_support e) then (Inl no_method, b)
          else (case fb_buffer b of
              Some bs \<Rightarrow> once (\<lambda>_. Inr (VBuffer bs)) b
            | None \<Rightarrow>
                if su_blob (fe_support e) then map_prod (\<lambda>x. bind_err x (\<lambda>(bs, ty). Inr (VBuffer bs))) id (body_blob e b)
                else (Inl no_method, b))
      | ReadJson \<Rightarrow> map_prod (\<lambda>x. bind_err x (\<lambda>s. bind_err (fe_json e s) (\<lambda>v. Inr (VJson v)))) id (body_text e b)
      | ReadForm \<Rightarrow>
          if su_formData (fe_support e)
          then map_prod (\<lambda>x. bind_err x (\<lambda>s. bind_err (decode_form s) (\<lambda>es. Inr (VForm es)))) id (body_text e b)
          else (Inl no_method, b))"

subsection \<open>Requests\<close>

definition normalizeMethod :: "string \<Rightarrow> string" where
  "normalizeMethod m =
     (let upcased = toUpperCase m
      in if upcased \<in> {''DELETE'', ''GET'', ''HEAD'', ''OPTIONS'', ''POST'', ''PUT''} then upcased else m)"

record fetch_options =
  op_body :: body_init
  op_headers :: "(string \<times> string) list option"
  op_credentials :: "string option"
  op_method :: "string option"
  op_mode :: "string option"

record frequest =
  fq_url :: string
  fq_credentials :: string
  fq_headers :: headers
  fq_method :: string
  fq_mode :: "string option"
  fq_body :: fbody

datatype fetch_input = FromUrl string | FromRequest frequest

text \<open>\<open>a || b\<close>, where an empty text is no value.\<close>

definition or_opt :: "string option \<Rightarrow> string option \<Rightarrow> string option" where
  "or_opt a b = (case a of Some s \<Rightarrow> if s \<noteq> [] then a else b | None \<Rightarrow> b)"

text \<open>The body, and whether it is taken from the request given, whose body is then used.\<close>

definition taken_body :: "fetch_input \<Rightarrow> fetch_options \<Rightarrow> body_init \<times> bool" where
  "taken_body i opts =
     (case i of FromUrl u \<Rightarrow> (op_body opts, False)
      | FromRequest r \<Rightarrow>
          if falsy (op_body opts) \<and> fb_init (fq_body r) \<notin> {BUndef, BNull} then (fb_init (fq_body r), True)
          else (op_body opts, False))"

text \<open>The request or an error, and the input after it: a body that was taken stays used also after an error.\<close>

definition request_parts :: "fetch_input \<Rightarrow> string \<times> string option \<times> (string \<times> string) list option \<times> string option \<times> string option" where
  "request_parts i =
     (case i of FromUrl u \<Rightarrow> (u, None, None, None, None)
      | FromRequest r \<Rightarrow>
          (fq_url r, Some (fq_credentials r), Some (headers_entries (fq_headers r)), Some (fq_method r), fq_mode r))"

definition build_request :: "support \<Rightarrow> fetch_input \<Rightarrow> fetch_options \<Rightarrow> body_init \<Rightarrow> js_error + frequest" where
  "build_request su i opts body =
     (let (u, cred, hds, meth, mode) = request_parts i;
          method = normalizeMethod (the (or_opt (op_method opts) (or_opt meth (Some ''GET''))))
      in bind_err (new_Headers (if op_headers opts = None then hds else op_headers opts)) (\<lambda>h.
         if (method = ''GET'' \<or> method = ''HEAD'') \<and> \<not> falsy body
         then Inl (js_err TypeError ''Body not allowed for GET or HEAD requests'')
         else bind_err (initBody su body h) (\<lambda>(b, h').
           Inr \<lparr>fq_url = u, fq_credentials = the (or_opt (op_credentials opts) (or_opt cred (Some ''omit''))),
                fq_headers = h', fq_method = method, fq_mode = or_opt (op_mode opts) mode, fq_body = b\<rparr>)))"

definition input_used :: "fetch_input \<Rightarrow> bool" where
  "input_used i = (case i of FromUrl u \<Rightarrow> False | FromRequest r \<Rightarrow> fb_used (fq_body r))"

definition use_input :: "fetch_input \<Rightarrow> fetch_input" where
  "use_input i = (case i of FromUrl u \<Rightarrow> i
     | FromRequest r \<Rightarrow> FromRequest (r\<lparr>fq_body := (fq_body r)\<lparr>fb_used := True\<rparr>\<rparr>))"

definition new_Request ::
  "support \<Rightarrow> fetch_input \<Rightarrow> fetch_options \<Rightarrow> (js_error + frequest) \<times> fetch_input" where
  "new_Request su i opts =
     (if input_used i then (Inl already_read, i)
      else (let (body, taken) = taken_body i opts
            in (build_request su i opts body, if taken then use_input i else i)))"

definition plain_options_with :: "body_init \<Rightarrow> fetch_options" where
  "plain_options_with b = \<lparr>op_body = b, op_headers = None, op_credentials = None, op_method = None, op_mode = None\<rparr>"

definition clone_Request :: "support \<Rightarrow> frequest \<Rightarrow> (js_error + frequest) \<times> fetch_input" where
  "clone_Request su r = new_Request su (FromRequest r) (plain_options_with (fb_init (fq_body r)))"

subsection \<open>Responses\<close>

record fresponse =
  fs_type :: string
  fs_status :: int
  fs_statusText :: string
  fs_headers :: headers
  fs_url :: string
  fs_body :: fbody

definition response_ok :: "fresponse \<Rightarrow> bool" where
  "response_ok r = (fs_status r \<ge> 200 \<and> fs_status r < 300)"

definition new_Response ::
  "support \<Rightarrow> body_init \<Rightarrow> int option \<Rightarrow> string option \<Rightarrow> (string \<times> string) list option \<Rightarrow> string
     \<Rightarrow> js_error + fresponse" where
  "new_Response su b status statusText hds u =
     bind_err (new_Headers hds) (\<lambda>h. bind_err (initBody su b h) (\<lambda>(p, h').
       Inr \<lparr>fs_type = ''default'', fs_status = (case status of None \<Rightarrow> 200 | Some n \<Rightarrow> n),
            fs_statusText = (case statusText of None \<Rightarrow> ''OK'' | Some t \<Rightarrow> t), fs_headers = h', fs_url = u, fs_body = p\<rparr>))"

definition clone_Response :: "support \<Rightarrow> fresponse \<Rightarrow> js_error + fresponse" where
  "clone_Response su r =
     new_Response su (fb_init (fs_body r)) (Some (fs_status r)) (Some (fs_statusText r)) (Some (headers_entries (fs_headers r)))
       (fs_url r)"

definition Response_error :: "support \<Rightarrow> js_error + fresponse" where
  "Response_error su = bind_err (new_Response su BNull (Some 0) (Some []) None []) (\<lambda>r. Inr (r\<lparr>fs_type := ''error''\<rparr>))"

definition Response_redirect :: "support \<Rightarrow> string \<Rightarrow> int \<Rightarrow> js_error + fresponse" where
  "Response_redirect su u status =
     (if status \<notin> {301, 302, 303, 307, 308} then Inl (js_err RangeError ''Invalid status code'')
      else new_Response su BNull (Some status) None (Some [(''location'', u)]) [])"

subsection \<open>Fetching\<close>

record xhr_call =
  xc_method :: string
  xc_url :: string
  xc_withCredentials :: bool
  xc_blob :: bool
  xc_headers :: "(string \<times> string) list"
  xc_body :: body_init

record xhr_result =
  xr_status :: int
  xr_statusText :: string
  xr_headers :: string
  xr_url :: "string option"
  xr_response :: body_init

definition open_request :: "support \<Rightarrow> frequest \<Rightarrow> xhr_call" where
  "open_request su r =
     \<lparr>xc_method = fq_method r, xc_url = fq_url r, xc_withCredentials = (fq_credentials r = ''include''),
      xc_blob = su_blob su, xc_headers = headers_entries (fq_headers r),
      xc_body = (if fb_init (fq_body r) = BUndef then BNull else fb_init (fq_body r))\<rparr>"

text \<open>The address of the answer, or else what a header says.\<close>

definition answer :: "support \<Rightarrow> xhr_result \<Rightarrow> js_error + fresponse" where
  "answer su x =
     bind_err (parseHeaders (xr_headers x)) (\<lambda>h.
       new_Response su (xr_response x) (Some (xr_status x)) (Some (xr_statusText x)) (Some (headers_entries h))
         (case xr_url x of Some u \<Rightarrow> u | None \<Rightarrow> (case map_of h ''x-request-url'' of None \<Rightarrow> [] | Some u \<Rightarrow> u)))"

text \<open>
  A promise that may never settle (\<open>None\<close>): what is thrown by the handler of the answer reaches nobody.
  A call may also be refused when it is opened or sent.
\<close>

datatype xhr_outcome = Refused js_error | Failed | TimedOut | Loaded xhr_result

definition polyfill_fetch ::
  "support \<Rightarrow> (xhr_call \<Rightarrow> xhr_outcome) \<Rightarrow> fetch_input \<Rightarrow> fetch_options \<Rightarrow> (js_error + fresponse) option" where
  "polyfill_fetch su xhr i opts =
     (case fst (new_Request su i opts) of
        Inl e \<Rightarrow> Some (Inl e)
      | Inr r \<Rightarrow>
          (case xhr (open_request su r) of
             Refused e \<Rightarrow> Some (Inl e)
           | Loaded x \<Rightarrow> (case answer su x of Inl e \<Rightarrow> None | Inr resp \<Rightarrow> Some (Inr resp))
           | _ \<Rightarrow> Some (Inl (js_err TypeError ''Network request failed''))))"

text \<open>The options the client of \<open>HttpClient\<close> calls \<open>fetch\<close> with.\<close>

definition client_options :: "request_options \<Rightarrow> fetch_options" where
  "client_options o' =
     \<lparr>op_body = (case ro_body o' of NoBody \<Rightarrow> BUndef | TextBody s \<Rightarrow> BText s | FormBody es \<Rightarrow> BForm es),
      op_headers = Some (own_entries (ro_headers o')), op_credentials = ro_credentials o',
      op_method = Some (ro_method o'), op_mode = None\<rparr>"

subsection \<open>A body is read once\<close>

fun run_reads :: "fetch_env \<Rightarrow> body_read list \<Rightarrow> fbody \<Rightarrow> (js_error + body_value) list" where
  "run_reads e [] b = []"
| "run_reads e (r # rs) b = fst (read_body e r b) # run_reads e rs (snd (read_body e r b))"

lemma once_cases:
  "once f b = (if fb_used b then (Inl already_read, b) else (f b, b\<lparr>fb_used := True\<rparr>))"
  by (simp add: once_def consumed_def)

lemma read_used:
  assumes "fb_used b"
  shows "isl (fst (read_body e r b))" and "snd (read_body e r b) = b"
  using assms
  by (cases r; simp add: read_body_def body_text_def body_blob_def once_cases bind_err_def split: option.split)+

lemma read_marks: "isl (fst (read_body e r b)) \<or> fb_used (snd (read_body e r b))"
  by (cases r; simp add: read_body_def body_text_def body_blob_def once_cases bind_err_def split: option.split)

lemma reads_used: "fb_used b \<Longrightarrow> list_all isl (run_reads e rs b)"
  by (induction rs) (simp_all add: read_used)

text \<open>
  C33: a body is read once.  Of any reads of a body, in any order and by any methods, at most one succeeds;
  none does after it.
\<close>

theorem body_read_once:
  "length (filter (\<lambda>x. \<not> isl x) (run_reads e rs b)) \<le> 1
   \<and> list_all isl (drop 1 (dropWhile isl (run_reads e rs b)))"
proof (induction rs arbitrary: b)
  case (Cons r rs)
  show ?case
  proof (cases "isl (fst (read_body e r b))")
    case True
    with Cons show ?thesis by simp
  next
    case False
    then have "list_all isl (run_reads e rs (snd (read_body e r b)))" using read_marks reads_used by blast
    with False show ?thesis by (simp add: list_all_iff filter_empty_conv)
  qed
qed simp

subsection \<open>Headers\<close>

definition lower_names :: "(string \<times> string) list \<Rightarrow> headers" where
  "lower_names hs = map (\<lambda>(k, v). (toLowerCase k, v)) hs"

lemma append_all_distinct:
  assumes "\<forall>(k, v) \<in> set hs. list_all header_char k" and "distinct (map fst (h @ lower_names hs))"
  shows "append_all hs h = Inr (h @ lower_names hs)"
  using assms
proof (induction hs arbitrary: h)
  case (Cons x hs)
  obtain k v where x: "x = (k, v)" by fastforce
  have new: "toLowerCase k \<notin> fst ` set h" using Cons.prems(2) by (auto simp: x lower_names_def)
  then have "map_of h (toLowerCase k) = None" by (simp add: map_of_eq_None_iff)
  with new Cons.prems(1) have "headers_append k v h = Inr (h @ [(toLowerCase k, v)])"
    by (simp add: headers_append_def normalizeName_def bind_err_def x obj_set_new)
  with Cons.IH [of "h @ [(toLowerCase k, v)]"] Cons.prems show ?case
    by (simp add: x lower_names_def bind_err_def)
qed (simp add: lower_names_def)

definition header_lines :: "(string \<times> string) list \<Rightarrow> string" where
  "header_lines hs = concat (map (\<lambda>(k, v). k @ '': '' @ v @ [CHR 0x0D, CHR 0x0A]) hs)"

definition header_ok :: "string \<times> string \<Rightarrow> bool" where
  "header_ok kv \<longleftrightarrow> fst kv \<noteq> [] \<and> list_all header_char (fst kv) \<and> CHR 0x0D \<notin> set (snd kv) \<and> trim (snd kv) = snd kv"

lemma header_char_plain: "header_char c \<Longrightarrow> \<not> is_ws c \<and> c \<noteq> CHR '':'' \<and> c \<noteq> CHR 0x0D"
  by (auto simp: header_char_def char_class_defs)

lemma split_crlf:
  "CHR 0x0D \<notin> set l \<Longrightarrow> split_text [CHR 0x0D, CHR 0x0A] 0 (l @ CHR 0x0D # CHR 0x0A # s)
     = l # split_text [CHR 0x0D, CHR 0x0A] 0 s"
  by (induction l) (auto simp: starts_with_def)

lemma trim_space: "trim (CHR '' '' # v) = trim v"
  by (simp add: trim_def is_ws_def)

lemma parse_header_line: "header_ok (k, v) \<Longrightarrow> parse_line (k @ '': '' @ v) = Some (k, v)"
proof -
  assume ok: "header_ok (k, v)"
  have k: "\<forall>c \<in> set k. \<not> is_ws c \<and> c \<noteq> CHR '':''"
    using ok header_char_plain by (auto simp: header_ok_def list_all_iff)
  then have "takeWhile (\<lambda>c. c \<noteq> CHR '':'') (k @ '': '' @ v) = k"
    "dropWhile (\<lambda>c. c \<noteq> CHR '':'') (k @ '': '' @ v) = '': '' @ v"
    by (simp_all add: takeWhile_append2 dropWhile_append2)
  moreover have "k \<noteq> []" "trim v = v" using ok by (simp_all add: header_ok_def)
  moreover have "trim k = k" using k \<open>k \<noteq> []\<close> by (intro trim_inner) simp_all
  ultimately show ?thesis by (simp add: parse_line_def trim_space)
qed

text \<open>
  C34: the headers of an answer read back.  The lines of any headers of valid and different names, whatever
  their case, and values without surrounding white space and carriage returns, are parsed to exactly these headers
  under their names in small letters.
\<close>

theorem headers_read_back:
  assumes "\<forall>x \<in> set hs. header_ok x" and "distinct (map (\<lambda>x. toLowerCase (fst x)) hs)"
  shows "parseHeaders (header_lines hs) = Inr (map (\<lambda>(k, v). (toLowerCase k, v)) hs)"
proof -
  have *: "List.map_filter parse_line (split_text [CHR 0x0D, CHR 0x0A] 0 (header_lines hs)) = hs"
    using assms(1)
  proof (induction hs)
    case Nil
    have "parse_line [] = None" by (simp add: parse_line_def trim_def)
    then show ?case by (simp add: header_lines_def map_filter_simps)
  next
    case (Cons x hs)
    obtain k v where x: "x = (k, v)" by fastforce
    then have ok: "header_ok (k, v)" using Cons.prems by simp
    then have "CHR 0x0D \<notin> set (k @ '': '' @ v)"
      using header_char_plain by (auto simp: header_ok_def list_all_iff)
    from split_crlf [OF this, of "header_lines hs"] Cons parse_header_line [OF ok] show ?case
      by (simp add: x header_lines_def map_filter_simps)
  qed
  have "map fst (lower_names hs) = map (\<lambda>x. toLowerCase (fst x)) hs"
    by (induction hs) (auto simp: lower_names_def)
  moreover have "\<forall>(k, v) \<in> set hs. list_all header_char k"
    using assms(1) by (fastforce simp: header_ok_def)
  ultimately have "append_all hs [] = Inr (lower_names hs)"
    using append_all_distinct [of hs "[]"] assms(2) by simp
  then show ?thesis unfolding parseHeaders_def * by (simp add: lower_names_def)
qed

theorem headers_read_back_witness:
  "parseHeaders (header_lines [(''Content-Type'', ''text/html''), (''ETag'', [])])
    = Inr [(''content-type'', ''text/html''), (''etag'', [])]"
proof -
  have ok: "\<forall>x \<in> set [(''Content-Type'', ''text/html''), (''ETag'', [])]. header_ok x"
    "distinct (map (\<lambda>x. toLowerCase (fst x)) [(''Content-Type'', ''text/html''), (''ETag'', [])])"
    by code_simp+
  have "map (\<lambda>(k, v). (toLowerCase k, v)) [(''Content-Type'', ''text/html''), (''ETag'', [])]
    = [(''content-type'', ''text/html''), (''etag'', [])]" by code_simp
  with headers_read_back [OF ok] show ?thesis by simp
qed

subsection \<open>What is sent\<close>

definition sent_body :: "body \<Rightarrow> body_init" where
  "sent_body b = (case b of NoBody \<Rightarrow> BNull | TextBody s \<Rightarrow> BText s | FormBody es \<Rightarrow> BForm es)"

definition carried :: "request_options \<Rightarrow> headers" where
  "carried op = lower_names (own_entries (ro_headers op))"

text \<open>The content type a call gets: one is added for a text when there is none or an empty one.\<close>

definition is_text :: "body \<Rightarrow> bool" where
  "is_text b = (case b of TextBody s \<Rightarrow> True | _ \<Rightarrow> False)"

definition typed :: "request_options \<Rightarrow> headers" where
  "typed op =
     (if is_text (ro_body op) \<and> map_of (carried op) ''content-type'' \<in> {None, Some []}
      then obj_set ''content-type'' ''text/plain;charset=UTF-8'' (carried op) else carried op)"

definition sendable :: "request_options \<Rightarrow> bool" where
  "sendable op \<longleftrightarrow>
     (\<forall>(k, v) \<in> set (own_entries (ro_headers op)). list_all header_char k) \<and> distinct (map fst (carried op))
     \<and> normalizeMethod (ro_method op) = ro_method op \<and> ro_method op \<noteq> []
     \<and> (ro_method op \<in> {''GET'', ''HEAD''} \<longrightarrow> ro_body op \<in> {NoBody, TextBody []})"

definition client_request :: "string \<Rightarrow> request_options \<Rightarrow> fbody \<Rightarrow> frequest" where
  "client_request u op p =
     \<lparr>fq_url = u, fq_credentials = the (or_opt (ro_credentials op) (Some ''omit'')), fq_headers = typed op,
      fq_method = ro_method op, fq_mode = None, fq_body = p\<rparr>"

lemma client_initBody:
  assumes "su_formData su"
  shows "\<exists>p. initBody su (op_body (client_options op)) (carried op) = Inr (p, typed op)
    \<and> fb_init p = op_body (client_options op)"
  using assms
  by (cases "ro_body op")
    (auto simp: initBody_def bind_err_def body_parts_def client_options_def no_body_def falsy_def default_type_def typed_def is_text_def)

lemma client_new_Request:
  assumes "sendable op" and "su_formData su"
  shows "\<exists>p. new_Request su (FromUrl u) (client_options op) = (Inr (client_request u op p), FromUrl u)
    \<and> fb_init p = op_body (client_options op)"
proof -
  obtain p where p: "initBody su (op_body (client_options op)) (carried op) = Inr (p, typed op)"
    "fb_init p = op_body (client_options op)"
    using client_initBody [OF assms(2)] by blast
  have h: "new_Headers (op_headers (client_options op)) = Inr (carried op)"
    using append_all_distinct [of "own_entries (ro_headers op)" "[]"] assms(1)
    by (simp add: new_Headers_def client_options_def sendable_def carried_def)
  have m: "the (or_opt (op_method (client_options op)) (or_opt None (Some ''GET''))) = ro_method op"
    "normalizeMethod (ro_method op) = ro_method op"
    using assms(1) by (simp_all add: sendable_def or_opt_def client_options_def)
  have g: "\<not> ((ro_method op = ''GET'' \<or> ro_method op = ''HEAD'') \<and> \<not> falsy (op_body (client_options op)))"
    using assms(1) by (auto simp: sendable_def client_options_def falsy_def)
  have c: "op_headers (client_options op) \<noteq> None" "op_mode (client_options op) = None"
    "op_credentials (client_options op) = ro_credentials op"
    by (simp_all add: client_options_def)
  have "or_opt None (Some ''omit'') = Some ''omit''" "or_opt None None = None" by (simp_all add: or_opt_def)
  with p h m g c have "build_request su (FromUrl u) (client_options op) (op_body (client_options op))
    = Inr (client_request u op p)"
    by (simp add: build_request_def request_parts_def bind_err_def client_request_def Let_def)
  then have "new_Request su (FromUrl u) (client_options op) = (Inr (client_request u op p), FromUrl u)"
    by (simp add: new_Request_def input_used_def taken_body_def)
  with p(2) show ?thesis by blast
qed

definition call_of :: "support \<Rightarrow> string \<Rightarrow> request_options \<Rightarrow> xhr_call" where
  "call_of su u op =
     \<lparr>xc_method = ro_method op, xc_url = u, xc_withCredentials = (ro_credentials op = Some ''include''),
      xc_blob = su_blob su, xc_headers = own_entries (typed op), xc_body = sent_body (ro_body op)\<rparr>"

lemma client_open_request:
  assumes "fb_init p = op_body (client_options op)"
  shows "open_request su (client_request u op p) = call_of su u op"
proof -
  have "the (or_opt (ro_credentials op) (Some ''omit'')) = ''include'' \<longleftrightarrow> ro_credentials op = Some ''include''"
    by (auto simp: or_opt_def split: option.split)
  moreover have "(if fb_init p = BUndef then BNull else fb_init p) = sent_body (ro_body op)"
    by (auto simp: assms client_options_def sent_body_def split: body.split)
  ultimately show ?thesis
    by (simp only: call_of_def open_request_def client_request_def headers_entries_def frequest.simps)
qed

text \<open>How the promise settles after a call.\<close>

definition settled :: "support \<Rightarrow> xhr_outcome \<Rightarrow> (js_error + fresponse) option" where
  "settled su out =
     (case out of
        Refused e \<Rightarrow> Some (Inl e)
      | Loaded x \<Rightarrow> (case answer su x of Inl e \<Rightarrow> None | Inr r \<Rightarrow> Some (Inr r))
      | _ \<Rightarrow> Some (Inl (js_err TypeError ''Network request failed'')))"

lemma polyfill_call:
  assumes "sendable op" and "su_formData su"
  shows "polyfill_fetch su xhr (FromUrl u) (client_options op) = settled su (xhr (call_of su u op))"
  using client_new_Request [OF assms, of u] client_open_request [of _ op su u]
  by (auto simp: polyfill_fetch_def settled_def)

text \<open>
  The call made is the client's request.  For a request of the client with valid header names that differ also in
  small letters, and without a body under \<open>GET\<close> and \<open>HEAD\<close>, the replacement of \<open>fetch\<close> opens one call, with its
  method, address and body, credentials only when they are asked for, and exactly its headers, to which a content
  type is added for a text that has none; an error of the call is the error of the promise.
\<close>

theorem xhr_sends_request:
  assumes "sendable op" and "su_formData su"
    and "xhr \<lparr>xc_method = ro_method op, xc_url = u, xc_withCredentials = (ro_credentials op = Some ''include''),
           xc_blob = su_blob su, xc_headers = own_entries (typed op), xc_body = sent_body (ro_body op)\<rparr> = out"
  shows "polyfill_fetch su xhr (FromUrl u) (client_options op) =
    (case out of
       Refused e \<Rightarrow> Some (Inl e)
     | Loaded x \<Rightarrow> (case answer su x of Inl e \<Rightarrow> None | Inr r \<Rightarrow> Some (Inr r))
     | _ \<Rightarrow> Some (Inl (js_err TypeError ''Network request failed'')))"
  using polyfill_call [OF assms(1,2), of xhr u] assms(3) by (simp add: settled_def call_of_def)

definition sample_support :: support where
  "sample_support = \<lparr>su_search = True, su_blob = False, su_formData = True, su_arrayBuffer = False\<rparr>"

definition sample_post :: request_options where
  "sample_post = \<lparr>ro_method = ''POST'', ro_headers = [(''Accept'', ''*/*'')], ro_credentials = Some ''include'',
     ro_body = TextBody ''a''\<rparr>"

text \<open>A server that accepts what comes with credentials, and answers with the text it was sent and, as its name, what is accepted.\<close>

definition sample_xhr :: "xhr_call \<Rightarrow> xhr_outcome" where
  "sample_xhr c =
     (if xc_withCredentials c
      then Loaded \<lparr>xr_status = 201, xr_statusText = ''Created'', xr_headers = ''Server: '' @ the (map_of (xc_headers c) ''accept''),
        xr_url = Some (xc_url c), xr_response = xc_body c\<rparr>
      else Failed)"

theorem xhr_sends_request_witness:
  "sendable sample_post \<and>
   polyfill_fetch sample_support sample_xhr (FromUrl ''/x'') (client_options sample_post) =
     Some (Inr \<lparr>fs_type = ''default'', fs_status = 201, fs_statusText = ''Created'',
       fs_headers = [(''server'', ''*/*''), (''content-type'', ''text/plain;charset=UTF-8'')], fs_url = ''/x'', fs_body = (no_body (BText ''a''))\<lparr>fb_text := ''a''\<rparr>\<rparr>)"
proof -
  have s: "sendable sample_post" "su_formData sample_support" by code_simp+
  show ?thesis using s(1) xhr_sends_request [OF s refl, of sample_xhr "''/x''"] by code_simp
qed

subsection \<open>What is lost\<close>

text \<open>A header of an answer with a character that is not one of a name: the promise never settles.\<close>

lemma answer_lost:
  "sendable op \<Longrightarrow> su_formData su \<Longrightarrow> parseHeaders (xr_headers x) = Inl e
     \<Longrightarrow> polyfill_fetch su (\<lambda>_. Loaded x) (FromUrl u) (client_options op) = None"
  using client_new_Request [of op su u] by (auto simp: polyfill_fetch_def answer_def bind_err_def)

lemma answer_lost_sample: "isl (parseHeaders ''X!: 1'') \<and> parseHeaders ''(a): 1'' = Inl (js_err TypeError ''Invalid character in header field name'')"
  by code_simp

text \<open>Copying a request with an empty text uses the original up; with another text it does not.\<close>

lemma clone_uses_empty:
  "\<not> fb_used (fq_body r) \<Longrightarrow> input_used (snd (clone_Request su r)) \<longleftrightarrow> fb_init (fq_body r) = BText []"
  by (auto simp: clone_Request_def new_Request_def input_used_def taken_body_def use_input_def plain_options_with_def falsy_def)

lemma redirect_located:
  "status \<in> {301, 302, 303, 307, 308} \<Longrightarrow>
     \<exists>r. Response_redirect su u status = Inr r \<and> fs_status r = status \<and> fs_headers r = [(''location'', u)]"
proof -
  have n: "normalizeName ''location'' = Inr ''location''" by code_simp
  assume "status \<in> {301, 302, 303, 307, 308}"
  then show ?thesis
    by (simp add: Response_redirect_def new_Response_def new_Headers_def headers_append_def n bind_err_def
        obj_set_new initBody_def body_parts_def falsy_def default_type_def)
qed

end
