(* ===== verification/ClientFetch.thy ===== *)
theory ClientFetch
  imports ApiExplorer Fetch
begin

text \<open>
  The API client of \<open>HttpClient\<close> and its documentation page (\<open>ApiExplorer\<close>) in a browser without \<open>fetch\<close>: the
  request of \<open>buildRequest\<close>, sent by the replacement of \<open>Fetch\<close> over an \<open>XMLHttpRequest\<close>, and its answer,
  read by the decoders.  The end of the chain, the call, is what the theorems are about.
\<close>

subsection \<open>The composition\<close>

definition response_text :: "fetch_env \<Rightarrow> fresponse \<Rightarrow> string" where
  "response_text e r = (case fst (body_text e (fs_body r)) of Inr s \<Rightarrow> s | Inl _ \<Rightarrow> [])"

text \<open>What the client reads of a response.\<close>

definition http_response_of :: "fetch_env \<Rightarrow> fresponse \<Rightarrow> http_response" where
  "http_response_of e r =
     \<lparr>hr_status = fs_status r, hr_statusText = fs_statusText r, hr_url = fs_url r,
      hr_contentType = map_of (fs_headers r) ''content-type'',
      hr_body = \<lparr>tb_text = response_text e r, tb_json = fe_json e (response_text e r)\<rparr>\<rparr>"

definition client_fetch ::
  "fetch_env \<Rightarrow> (xhr_call \<Rightarrow> xhr_outcome) \<Rightarrow> request \<Rightarrow> (js_error + http_response) option" where
  "client_fetch e xhr rq =
     map_option (map_sum id (http_response_of e))
       (polyfill_fetch (fe_support e) xhr (FromUrl (rq_url rq)) (client_options (rq_options rq)))"

text \<open>An action of the transport; \<open>None\<close> when its promise never settles.\<close>

definition fetched_action ::
  "location \<Rightarrow> fetch_env \<Rightarrow> (xhr_call \<Rightarrow> xhr_outcome) \<Rightarrow> transport \<Rightarrow> link \<Rightarrow> codec list \<Rightarrow> jsval obj
     \<Rightarrow> (api_error + cnode) option" where
  "fetched_action page e xhr t l decoders params =
     (case buildRequest page t l params of
        Inl er \<Rightarrow> Some (Inl (Thrown er))
      | Inr rq \<Rightarrow> map_option (\<lambda>r. transport_action page (\<lambda>_. r) t l decoders params) (client_fetch e xhr rq))"

subsection \<open>Requests of the client can be sent\<close>

lemma upper_char_idem: "toUpperCase (upper_char c) = upper_char c"
proof (cases "is_lower c \<or> (224 \<le> code c \<and> code c \<le> 254 \<and> code c \<noteq> 247)")
  case True
  define d :: char where "d = char_of (code c - 32)"
  have "code c < 256" using True by (auto simp: is_lower_def)
  then have "code c - 32 < 256" by linarith
  then have "(code c - 32) mod 256 = code c - 32" by (rule mod_less)
  then have d: "code d = code c - 32" by (simp add: d_def)
  have "\<not> is_lower d \<and> \<not> (224 \<le> code d \<and> code d \<le> 254 \<and> code d \<noteq> 247) \<and> code d \<noteq> 223"
    using True by (auto simp: d is_lower_def)
  then have "upper_char d = [d]" unfolding upper_char_def by (simp only: if_False simp_thms)
  moreover have "upper_char c = [d]" using True unfolding upper_char_def d_def by (simp only: if_True)
  ultimately show ?thesis by (simp add: toUpperCase_def)
next
  case False
  then consider "upper_char c = ''SS''" | "upper_char c = [c]" unfolding upper_char_def
    by (cases "code c = 223") auto
  then show ?thesis
  proof cases
    case 1
    have "toUpperCase ''SS'' = ''SS''" by code_simp
    with 1 show ?thesis by (simp only:)
  qed (simp add: toUpperCase_def)
qed

lemma toUpperCase_append: "toUpperCase (s @ t) = toUpperCase s @ toUpperCase t"
  by (simp add: toUpperCase_def)

lemma toUpperCase_idem: "toUpperCase (toUpperCase s) = toUpperCase s"
  by (induction s) (simp_all add: toUpperCase_append upper_char_idem toUpperCase_def [of "_ # _"] toUpperCase_def [of "[]"]
      flip: toUpperCase_def)

lemma normalizeMethod_upper: "normalizeMethod (toUpperCase m) = toUpperCase m"
  by (simp add: normalizeMethod_def toUpperCase_idem)

lemma toUpperCase_empty: "toUpperCase s = [] \<longleftrightarrow> s = []"
  by (cases s) (simp_all add: toUpperCase_def upper_char_def)


definition standard :: "string set" where
  "standard = {''Content-Type'', ''Authorization'', ''X-CSRFToken''}"

lemma standard_names: "k \<in> standard \<Longrightarrow> list_all header_char k"
proof -
  have "list_all (list_all header_char) [''Content-Type'', ''Authorization'', ''X-CSRFToken'']" by code_simp
  then show "k \<in> standard \<Longrightarrow> list_all header_char k" by (auto simp: standard_def)
qed

lemma standard_lower: "inj_on toLowerCase standard"
proof -
  have "distinct (map toLowerCase [''Content-Type'', ''Authorization'', ''X-CSRFToken''])" by code_simp
  then have "inj_on toLowerCase (set [''Content-Type'', ''Authorization'', ''X-CSRFToken''])"
    by (simp only: distinct_map)
  then show ?thesis by (simp only: standard_def list.set)
qed

lemma content_type_lower: "toLowerCase ''Content-Type'' = ''content-type''"
  by code_simp

lemma map_of_lower_names:
  assumes "inj_on toLowerCase K" and "fst ` set hs \<subseteq> K" and "k \<in> K"
  shows "map_of (lower_names hs) (toLowerCase k) = map_of hs k"
  using assms(2)
proof (induction hs)
  case (Cons x hs)
  obtain k' v where x: "x = (k', v)" by fastforce
  with Cons.prems have "k' \<in> K" by simp
  then have "toLowerCase k' = toLowerCase k \<longleftrightarrow> k' = k" using assms(1,3) by (auto dest: inj_onD)
  with Cons show ?case by (auto simp: x lower_names_def)
qed (simp add: lower_names_def)

lemma authenticate_headers:
  "fst ` set (ro_headers (authenticate x r)) \<subseteq> insert (auth_own x) (fst ` set (ro_headers r))"
  "obj_wf (ro_headers r) \<Longrightarrow> obj_wf (ro_headers (authenticate x r))"
  by (cases x; simp add: authenticate_def authenticate_session_def authenticate_token_def set_header_def auth_own_def Let_def
      subset_insertI split: option.split)+

lemma auth_option_own:
  "auth_option cookie a = Inr (Some x) \<Longrightarrow> auth_own x \<in> standard"
  by (auto simp: auth_option_def new_token_def new_basic_def new_session_def bind_err_Inr auth_own_def standard_def
      split: window_auth.splits)

lemma add_body_headers:
  "ro_headers (add_body enc f ex r) \<in> {ro_headers r} \<union> range (\<lambda>v. obj_set ''Content-Type'' v (ro_headers r))"
  by (auto simp: add_body_def set_header_def)

lemma plain_headers:
  "fst ` set (ro_headers (plain_options \<lparr>t_auth = au, t_headers = []\<rparr> l s)) \<subseteq> standard"
  "obj_wf (ro_headers (plain_options \<lparr>t_auth = au, t_headers = []\<rparr> l s))"
proof -
  have "ro_headers (plain_options \<lparr>t_auth = au, t_headers = []\<rparr> l s)
    \<in> {[]} \<union> range (\<lambda>v. [(''Content-Type'', v)])"
    using add_body_headers [of "l_encoding l" "sp_form s" "sp_extra s"
        "\<lparr>ro_method = toUpperCase (l_method l), ro_headers = [], ro_credentials = None, ro_body = NoBody\<rparr>"]
    by (simp add: plain_options_def build_options_def obj_assign_def Let_def)
  then show "fst ` set (ro_headers (plain_options \<lparr>t_auth = au, t_headers = []\<rparr> l s)) \<subseteq> standard"
    "obj_wf (ro_headers (plain_options \<lparr>t_auth = au, t_headers = []\<rparr> l s))"
    by (auto simp: standard_def obj_wf_def)
qed

lemma built_headers:
  assumes "auth_option cookie a = Inr au"
  shows "fst ` set (ro_headers (build_options \<lparr>t_auth = au, t_headers = []\<rparr> l s)) \<subseteq> standard"
    and "obj_wf (ro_headers (build_options \<lparr>t_auth = au, t_headers = []\<rparr> l s))"
proof -
  define r where "r = plain_options \<lparr>t_auth = au, t_headers = []\<rparr> l s"
  have b: "build_options \<lparr>t_auth = au, t_headers = []\<rparr> l s = (case au of None \<Rightarrow> r | Some x \<Rightarrow> authenticate x r)"
    unfolding r_def by (subst build_options_auth) (simp only: transport.select_convs)
  have r: "fst ` set (ro_headers r) \<subseteq> standard" "obj_wf (ro_headers r)"
    unfolding r_def by (rule plain_headers)+
  show "fst ` set (ro_headers (build_options \<lparr>t_auth = au, t_headers = []\<rparr> l s)) \<subseteq> standard"
  proof (cases au)
    case (Some x)
    then have "auth_own x \<in> standard" using assms auth_option_own by simp
    then have "insert (auth_own x) (fst ` set (ro_headers r)) \<subseteq> standard"
      using r(1) by (simp only: insert_subset simp_thms)
    with authenticate_headers(1) show ?thesis unfolding b unfolding Some option.case by (rule subset_trans)
  next
    case None
    show ?thesis unfolding b unfolding None option.case by (rule r(1))
  qed
  show "obj_wf (ro_headers (build_options \<lparr>t_auth = au, t_headers = []\<rparr> l s))"
    unfolding b using r(2) authenticate_headers(2) by (simp split: option.split)
qed

lemma built_method [simp]: "ro_method (build_options t l s) = toUpperCase (l_method l)"
  unfolding build_options_auth
  by (simp add: authenticate_def authenticate_session_def authenticate_token_def set_header_def Let_def
      split: option.split authentication.split)

lemma carried_distinct:
  assumes "fst ` set (ro_headers op) \<subseteq> standard" and "obj_wf (ro_headers op)"
  shows "obj_wf (carried op)"
proof -
  have "map fst (carried op) = map toLowerCase (map fst (own_entries (ro_headers op)))"
    by (simp add: carried_def lower_names_def case_prod_beta)
  moreover have "inj_on toLowerCase (set (map fst (own_entries (ro_headers op))))"
    using standard_lower assms(1) by (auto intro: inj_on_subset)
  moreover have "distinct (map fst (own_entries (ro_headers op)))"
    using assms(2) by (simp flip: obj_wf_def)
  ultimately show ?thesis unfolding obj_wf_def by (metis distinct_map)
qed

lemma built_sendable:
  assumes "auth_option cookie a = Inr au" and "l_method l \<noteq> []" and "op = build_options \<lparr>t_auth = au, t_headers = []\<rparr> l s"
  shows "sendable op \<longleftrightarrow> \<not> (toUpperCase (l_method l) \<in> {''GET'', ''HEAD''} \<and> ro_body op \<notin> {NoBody, TextBody []})"
proof -
  note h = built_headers [OF assms(1), of l s, folded assms(3)]
  have "\<forall>(k, v) \<in> set (own_entries (ro_headers op)). list_all header_char k"
    using h(1) standard_names by fastforce
  moreover have "distinct (map fst (carried op))" using carried_distinct [OF h] by (simp add: obj_wf_def)
  moreover have "ro_method op = toUpperCase (l_method l)" by (simp add: assms(3))
  ultimately show ?thesis using assms(2) by (auto simp: sendable_def normalizeMethod_upper toUpperCase_empty)
qed


subsection \<open>The call\<close>

lemma typed_other: "k \<noteq> ''content-type'' \<Longrightarrow> map_of (typed op) k = map_of (carried op) k"
  by (simp add: typed_def)

lemma typed_wf: "obj_wf (carried op) \<Longrightarrow> obj_wf (typed op)"
  by (simp add: typed_def)

lemma call_header:
  assumes "fst ` set (ro_headers op) \<subseteq> standard" and "obj_wf (ro_headers op)"
    and "k \<in> standard" and "k \<noteq> ''Content-Type''"
  shows "map_of (xc_headers (call_of su u op)) (toLowerCase k) = map_of (ro_headers op) k"
proof -
  have "''Content-Type'' \<in> standard" by (simp add: standard_def)
  with assms(3,4) content_type_lower standard_lower have other: "toLowerCase k \<noteq> ''content-type''" by (metis inj_onD)
  have "map_of (xc_headers (call_of su u op)) (toLowerCase k) = map_of (carried op) (toLowerCase k)"
    using carried_distinct [OF assms(1,2)] by (simp add: call_of_def map_of_own_entries typed_wf typed_other other)
  also have "\<dots> = map_of (own_entries (ro_headers op)) k"
    unfolding carried_def using assms(1) by (intro map_of_lower_names [OF standard_lower _ assms(3)]) simp
  finally show ?thesis by (simp add: map_of_own_entries assms(2))
qed

text \<open>A request with a body under \<open>GET\<close> or \<open>HEAD\<close> is refused before a call is made.\<close>

definition body_refused :: js_error where
  "body_refused = js_err TypeError ''Body not allowed for GET or HEAD requests''"

lemma get_upper: "normalizeMethod ''GET'' = ''GET''" "normalizeMethod ''HEAD'' = ''HEAD''"
  by code_simp+

lemma get_body_refused:
  assumes "\<forall>(k, v) \<in> set (own_entries (ro_headers op)). list_all header_char k" and "distinct (map fst (carried op))"
    and "ro_method op \<in> {''GET'', ''HEAD''}" and "ro_body op \<notin> {NoBody, TextBody []}"
  shows "polyfill_fetch su xhr (FromUrl u) (client_options op) = Some (Inl body_refused)"
proof -
  have h: "new_Headers (op_headers (client_options op)) = Inr (carried op)"
    using append_all_distinct [of "own_entries (ro_headers op)" "[]"] assms(1,2)
    by (simp add: new_Headers_def client_options_def carried_def)
  have m: "normalizeMethod (the (or_opt (op_method (client_options op)) (or_opt None (Some ''GET'')))) = ro_method op"
    using assms(3) get_upper by (auto simp: or_opt_def client_options_def)
  have f: "\<not> falsy (op_body (client_options op))"
    using assms(4) by (auto simp: falsy_def client_options_def split: body.split)
  have "build_request su (FromUrl u) (client_options op) (op_body (client_options op)) = Inl body_refused"
    using h m f assms(3) unfolding build_request_def request_parts_def
    by (simp add: bind_err_def body_refused_def Let_def client_options_def)
  then show ?thesis by (simp add: polyfill_fetch_def new_Request_def input_used_def taken_body_def)
qed

subsection \<open>What a call carries\<close>

lemma call_authorization:
  assumes "auth_option cookie a = Inr au" and "op = build_options \<lparr>t_auth = au, t_headers = []\<rparr> l s"
  shows "map_of (xc_headers (call_of su u op)) ''authorization'' = authorization a"
    and "xc_withCredentials (call_of su u op) = False"
proof -
  note h = built_headers [OF assms(1), of l s, folded assms(2)]
  have lower: "toLowerCase ''Authorization'' = ''authorization''" by code_simp
  have std: "''Authorization'' \<in> standard" "''Authorization'' \<noteq> ''Content-Type''" by (simp_all add: standard_def)
  have c: "carries a op" unfolding assms(2) by (rule carries_auth [OF assms(1)]) simp_all
  then have "map_of (ro_headers op) ''Authorization'' = authorization a" by (simp add: carries_def)
  with call_header [OF h std, of su u] show "map_of (xc_headers (call_of su u op)) ''authorization'' = authorization a"
    by (simp only: lower)
  show "xc_withCredentials (call_of su u op) = False" using c by (simp add: call_of_def carries_def split: if_splits)
qed

lemma csrf_lower: "toLowerCase ''X-CSRFToken'' = ''x-csrftoken''"
  by code_simp

text \<open>
  C3: the call of a documentation page.  Whatever authentication is in force and whatever request the client builds
  for a link with a method, in a browser without \<open>fetch\<close> exactly one call is made, with the link's method in capitals, the
  address and the body of the request, the headers of the authentication, and never with the browser's
  credentials for another site; the promise settles as the call does.  Only a body under \<open>GET\<close> or \<open>HEAD\<close> is
  refused, without a call.
\<close>

theorem explored_call:
  assumes "auth_option cookie a = Inr au" and "buildRequest page \<lparr>t_auth = au, t_headers = []\<rparr> l params = Inr rq"
    and "l_method l \<noteq> []" and "su_formData (fe_support e)" and "c = call_of (fe_support e) (rq_url rq) (rq_options rq)"
  shows "client_fetch e xhr rq =
      (if toUpperCase (l_method l) \<in> {''GET'', ''HEAD''} \<and> ro_body (rq_options rq) \<notin> {NoBody, TextBody []}
       then Some (Inl body_refused)
       else map_option (map_sum id (http_response_of e)) (settled (fe_support e) (xhr c)))
    \<and> xc_method c = toUpperCase (l_method l) \<and> xc_url c = rq_url rq \<and> xc_body c = sent_body (ro_body (rq_options rq))
    \<and> map_of (xc_headers c) ''authorization'' = authorization a
    \<and> map_of (xc_headers c) ''x-csrftoken'' = map_of (ro_headers (rq_options rq)) ''X-CSRFToken''
    \<and> \<not> xc_withCredentials c"
proof -
  obtain s where op: "rq_options rq = build_options \<lparr>t_auth = au, t_headers = []\<rparr> l s"
    using buildRequest_parts [OF assms(2)] by blast
  note h = built_headers [OF assms(1), of l s, folded op] and built = built_sendable [OF assms(1,3) op]
  have names: "\<forall>(k, v) \<in> set (own_entries (ro_headers (rq_options rq))). list_all header_char k"
    "distinct (map fst (carried (rq_options rq)))"
    using h(1) standard_names carried_distinct [OF h] by (fastforce, simp add: obj_wf_def)
  have "client_fetch e xhr rq =
      (if toUpperCase (l_method l) \<in> {''GET'', ''HEAD''} \<and> ro_body (rq_options rq) \<notin> {NoBody, TextBody []}
       then Some (Inl body_refused)
       else map_option (map_sum id (http_response_of e)) (settled (fe_support e) (xhr c)))"
  proof (cases "sendable (rq_options rq)")
    case True
    then show ?thesis
      using built polyfill_call [OF True assms(4), of xhr "rq_url rq"] by (auto simp: client_fetch_def assms(5))
  next
    case False
    then show ?thesis
      using built get_body_refused [OF names, of "fe_support e" xhr "rq_url rq"] op by (simp add: client_fetch_def)
  qed
  moreover have "map_of (xc_headers c) ''x-csrftoken'' = map_of (ro_headers (rq_options rq)) ''X-CSRFToken''"
    using call_header [OF h, of "''X-CSRFToken''" "fe_support e" "rq_url rq"] csrf_lower
    by (simp add: standard_def assms(5))
  ultimately show ?thesis
    using call_authorization [OF assms(1) op, of "fe_support e" "rq_url rq"] op
    by (simp add: assms(5)) (simp add: call_of_def)
qed

subsection \<open>What the client reads\<close>

lemma header_lower: "header_char c \<Longrightarrow> header_char (lower_char c)"
proof (cases "is_upper c")
  case True
  then have "code c + 32 < 256" by (simp add: is_upper_def)
  then have "(code c + 32) mod 256 = code c + 32" by (rule mod_less)
  then have "is_lower (lower_char c)" using True by (simp add: lower_char_def is_lower_def is_upper_def)
  then show ?thesis by (simp add: header_char_def is_alpha_def is_lower_def)
next
  case False
  assume "header_char c"
  then have "\<not> (192 \<le> code c)" by (auto simp: header_char_def char_class_defs)
  with False have "lower_char c = c" by (simp add: lower_char_def)
  then show "header_char (lower_char c)" using \<open>header_char c\<close> by simp
qed

lemma lower_lower: "header_char c \<Longrightarrow> lower_char (lower_char c) = lower_char c"
proof (cases "is_upper c")
  case True
  then have "code c + 32 < 256" by (simp add: is_upper_def)
  then have "(code c + 32) mod 256 = code c + 32" by (rule mod_less)
  then have "\<not> is_upper (lower_char c) \<and> \<not> 192 \<le> code (lower_char c)"
    using True by (simp add: lower_char_def is_upper_def)
  then show ?thesis unfolding lower_char_def [of "lower_char c"] by (simp only: simp_thms if_False)
next
  case False
  assume "header_char c"
  then have "\<not> (192 \<le> code c)" by (auto simp: header_char_def char_class_defs)
  with False have "lower_char c = c" by (simp add: lower_char_def)
  then show ?thesis by simp
qed

definition parsed :: "headers \<Rightarrow> bool" where
  "parsed h \<longleftrightarrow> obj_wf h \<and> (\<forall>k \<in> fst ` set h. list_all header_char k \<and> toLowerCase k = k)"

lemma append_all_parsed: "append_all hs h = Inr h' \<Longrightarrow> parsed h \<Longrightarrow> parsed h'"
proof (induction hs arbitrary: h)
  case (Cons x hs)
  obtain k v where x: "x = (k, v)" by fastforce
  with Cons.prems(1) obtain h1 where h1: "headers_append k v h = Inr h1" "append_all hs h1 = Inr h'"
    by (auto simp: bind_err_Inr)
  then obtain w where w: "h1 = obj_set (toLowerCase k) w h" "list_all header_char k"
    by (auto simp: headers_append_def normalizeName_def bind_err_Inr split: if_splits)
  have "list_all header_char (toLowerCase k) \<and> toLowerCase (toLowerCase k) = toLowerCase k"
    using w(2) header_lower lower_lower by (auto simp: toLowerCase_def list_all_iff)
  with Cons.prems(2) have "parsed h1" unfolding parsed_def w(1) by (simp only: keys_obj_set obj_wf_set ball_simps) blast
  with Cons.IH h1(2) show ?case by blast
qed simp

lemma parseHeaders_parsed: "parseHeaders raw = Inr h \<Longrightarrow> parsed h"
  using append_all_parsed [of _ "[]"] by (simp add: parseHeaders_def parsed_def obj_wf_def)

lemma copied_headers:
  assumes "parsed h"
  shows "new_Headers (Some (headers_entries h)) = Inr (own_entries h)"
proof -
  have "lower_names (own_entries h) = own_entries h"
    using assms unfolding lower_names_def parsed_def by (intro map_idI) force
  moreover have "\<forall>(k, v) \<in> set (own_entries h). list_all header_char k" using assms by (force simp: parsed_def)
  moreover have "distinct (map fst (own_entries h))" using assms by (simp add: parsed_def flip: obj_wf_def)
  ultimately show ?thesis
    using append_all_distinct [of "own_entries h" "[]"] by (simp add: new_Headers_def headers_entries_def)
qed

text \<open>The text of an answer and the type it is read under: the header's, or else one the replacement adds.\<close>

definition answer_text :: "fetch_env \<Rightarrow> xhr_result \<Rightarrow> string option" where
  "answer_text e x =
     (case xr_response x of
        BUndef \<Rightarrow> Some [] | BNull \<Rightarrow> Some [] | BText s \<Rightarrow> Some s
      | BBlob bs ty \<Rightarrow> if su_blob (fe_support e) then Some (fe_text_of_bytes e bs) else None
      | _ \<Rightarrow> None)"

definition answer_type :: "fetch_env \<Rightarrow> xhr_result \<Rightarrow> headers \<Rightarrow> string option" where
  "answer_type e x h =
     (case (map_of h ''content-type'', default_type (fe_support e) (xr_response x)) of
        (Some (c # ct), _) \<Rightarrow> Some (c # ct) | (old, None) \<Rightarrow> old | (_, d) \<Rightarrow> d)"

definition answer_url :: "xhr_result \<Rightarrow> headers \<Rightarrow> string" where
  "answer_url x h =
     (case xr_url x of Some u \<Rightarrow> u | None \<Rightarrow> (case map_of h ''x-request-url'' of None \<Rightarrow> [] | Some u \<Rightarrow> u))"

definition answer_response :: "fetch_env \<Rightarrow> xhr_result \<Rightarrow> headers \<Rightarrow> string \<Rightarrow> http_response" where
  "answer_response e x h s =
     \<lparr>hr_status = xr_status x, hr_statusText = xr_statusText x, hr_url = answer_url x h,
      hr_contentType = answer_type e x h, hr_body = \<lparr>tb_text = s, tb_json = fe_json e s\<rparr>\<rparr>"

lemma answer_body:
  assumes "answer_text e x = Some s"
  shows "\<exists>p. body_parts (fe_support e) (xr_response x) = Inr p \<and> fst (body_text e p) = Inr s"
proof -
  have "\<exists>p. body_parts (fe_support e) (xr_response x) = Inr p"
    using assms by (auto simp: answer_text_def body_parts_def falsy_def split: body_init.splits if_splits)
  moreover have "fst (body_text e p) = Inr s" if "body_parts (fe_support e) (xr_response x) = Inr p" for p
    using assms that
    by (auto simp: answer_text_def body_parts_def no_body_def falsy_def body_text_def once_cases
        split: body_init.splits if_splits)
  ultimately show ?thesis by blast
qed

lemma answer_read:
  assumes "parseHeaders (xr_headers x) = Inr h" and "answer_text e x = Some s"
  shows "map_option (map_sum id (http_response_of e)) (settled (fe_support e) (Loaded x)) = Some (Inr (answer_response e x h s))"
proof -
  have wf: "parsed h" using assms(1) by (rule parseHeaders_parsed)
  then have own: "map_of (own_entries h) = map_of h" by (simp add: parsed_def map_of_own_entries)
  obtain p where p: "body_parts (fe_support e) (xr_response x) = Inr p" "fst (body_text e p) = Inr s"
    using answer_body [OF assms(2)] by blast
  have "map_of (if map_of h ''content-type'' \<in> {None, Some []}
      then (case default_type (fe_support e) (xr_response x) of None \<Rightarrow> own_entries h
            | Some ty \<Rightarrow> obj_set ''content-type'' ty (own_entries h)) else own_entries h) ''content-type''
    = answer_type e x h"
    by (auto simp: answer_type_def own split: option.split list.split)
  then show ?thesis
    using p by (simp add: settled_def answer_def assms(1) bind_err_def new_Response_def copied_headers [OF wf] initBody_def
        own http_response_of_def response_text_def answer_response_def answer_url_def)
qed

text \<open>
  C7: an answer reaches the decoders.  When the call of a request that is not refused is answered with headers that can be
  parsed and a text or a blob, the action ends as the client's does on a response with this status, text and address, under
  the type of the header, or else one made from the body.
\<close>

theorem answer_decoded:
  assumes "auth_option cookie a = Inr au" and "buildRequest page \<lparr>t_auth = au, t_headers = []\<rparr> l params = Inr rq"
    and "l_method l \<noteq> []" and "su_formData (fe_support e)"
    and "toUpperCase (l_method l) \<in> {''GET'', ''HEAD''} \<longrightarrow> ro_body (rq_options rq) \<in> {NoBody, TextBody []}"
    and "xhr (call_of (fe_support e) (rq_url rq) (rq_options rq)) = Loaded x"
    and "parseHeaders (xr_headers x) = Inr h" and "answer_text e x = Some s"
  shows "fetched_action page e xhr \<lparr>t_auth = au, t_headers = []\<rparr> l ds params
    = Some (transport_action page (\<lambda>_. Inr (answer_response e x h s)) \<lparr>t_auth = au, t_headers = []\<rparr> l ds params)"
proof -
  obtain st where op: "rq_options rq = build_options \<lparr>t_auth = au, t_headers = []\<rparr> l st"
    using buildRequest_parts [OF assms(2)] by blast
  have "sendable (rq_options rq)" using built_sendable [OF assms(1,3) op] assms(5) by blast
  from polyfill_call [OF this assms(4), of xhr "rq_url rq"]
  have "client_fetch e xhr rq = Some (Inr (answer_response e x h s))"
    using answer_read [OF assms(7,8)] by (simp only: client_fetch_def assms(6))
  then show ?thesis by (simp add: fetched_action_def assms(2))
qed

text \<open>
  An answer without a content type and with a text: the replacement makes its type plain text, so that the client
  gives the text where it would read the same answer of the browser's own \<open>fetch\<close> by its first decoder.
\<close>

lemma untyped_answer_is_text:
  assumes "map_of h ''content-type'' = None" and "xr_response x = BText s" and "xr_status x = 200"
    and "buildRequest page t l params = Inr rq"
  shows "transport_action page (\<lambda>_. Inr (answer_response e x h s)) t l [CoreJSONCodec, JSONCodec, TextCodec] params
      = Inr (Prim (JStr s))"
    and "negotiateDecoder [CoreJSONCodec, JSONCodec, TextCodec] None = Inr (Some CoreJSONCodec)"
proof -
  have ty: "answer_type e x h = Some ''text/plain;charset=UTF-8''"
    using assms(1,2) by (simp add: answer_type_def default_type_def)
  have n: "negotiateDecoder [CoreJSONCodec, JSONCodec, TextCodec] (Some ''text/plain;charset=UTF-8'') = Inr (Some TextCodec)"
    by code_simp
  have ok: "hr_ok (answer_response e x h s)" "hr_status (answer_response e x h s) \<noteq> 204"
    "hr_contentType (answer_response e x h s) = Some ''text/plain;charset=UTF-8''" "tb_text (hr_body (answer_response e x h s)) = s"
    using assms(3) ty by (simp_all add: answer_response_def hr_ok_def)
  show "transport_action page (\<lambda>_. Inr (answer_response e x h s)) t l [CoreJSONCodec, JSONCodec, TextCodec] params
      = Inr (Prim (JStr s))"
    by (simp add: transport_action_def assms(4) ok parseResponse_def n bind_err_def decode_def Text_decode_def)
  show "negotiateDecoder [CoreJSONCodec, JSONCodec, TextCodec] None = Inr (Some CoreJSONCodec)"
    by (simp add: negotiateDecoder_def)
qed

subsection \<open>Instances\<close>

definition fetch_sample :: fetch_env where
  "fetch_sample = \<lparr>fe_support = sample_support, fe_json = (\<lambda>s. Inr (JStr s)), fe_text_of_bytes = id, fe_bytes_of_text = id\<rparr>"

definition status_link :: link where
  "status_link = new_link ''http://a.org/status'' ''get''"

definition token_transport :: transport where
  "token_transport = \<lparr>t_auth = Some (new_token ''t'' []), t_headers = []\<rparr>"

definition status_request :: request where
  "status_request = \<lparr>rq_url = ''http://a.org/status'', rq_options = build_options token_transport status_link no_params\<rparr>"

lemma status_built: "buildRequest http_page token_transport status_link [] = Inr status_request"
proof -
  have "request_url http_page ''http://a.org/status'' no_params = Inr ''http://a.org/status''" by code_simp
  then show ?thesis
    by (simp add: buildRequest_def status_link_def new_link_def status_request_def bind_err_def check_unknown_def own_keys_def
        hides_method_def)
qed

definition status_answer :: xhr_result where
  "status_answer = \<lparr>xr_status = 200, xr_statusText = ''OK'', xr_headers = ''Content-Type: application/json'', xr_url = None,
     xr_response = BText ''up''\<rparr>"

text \<open>A server that answers those who show the token.\<close>

definition status_server :: "xhr_call \<Rightarrow> xhr_outcome" where
  "status_server c =
     (if map_of (xc_headers c) ''authorization'' = Some ''Bearer t'' then Loaded status_answer else Failed)"

lemma status_auth: "auth_option cookie (TokenAuth [] ''t'') = Inr (t_auth token_transport)"
  by (simp add: auth_option_def token_transport_def)

lemma token_transport_eq: "\<lparr>t_auth = t_auth token_transport, t_headers = []\<rparr> = token_transport"
  by (simp add: token_transport_def)

lemma status_built': "buildRequest http_page \<lparr>t_auth = t_auth token_transport, t_headers = []\<rparr> status_link [] = Inr status_request"
  by (simp only: token_transport_eq status_built)

lemma status_method: "l_method status_link \<noteq> []" "toUpperCase (l_method status_link) = ''GET''"
  "ro_body (rq_options status_request) = NoBody"
  by code_simp+

theorem explored_call_witness:
  "client_fetch fetch_sample status_server status_request
    = map_option (map_sum id (http_response_of fetch_sample)) (settled sample_support (Loaded status_answer))"
proof -
  have f: "su_formData (fe_support fetch_sample)" "fe_support fetch_sample = sample_support"
    by (simp_all add: fetch_sample_def sample_support_def)
  note c = explored_call [OF status_auth [of "[]"] status_built'
    status_method(1) f(1) refl, of status_server]
  have "authorization (TokenAuth [] ''t'') = Some ''Bearer t''" by (simp add: authorization_def)
  then show ?thesis using c by (simp add: status_method f(2) status_server_def)
qed

theorem answer_decoded_witness:
  "fetched_action http_page fetch_sample status_server token_transport status_link [CoreJSONCodec, JSONCodec, TextCodec] []
    = Some (Inr (Prim (JStr ''up'')))"
proof -
  have f: "su_formData (fe_support fetch_sample)" by (simp add: fetch_sample_def sample_support_def)
  have m: "toUpperCase (l_method status_link) \<in> {''GET'', ''HEAD''} \<longrightarrow> ro_body (rq_options status_request) \<in> {NoBody, TextBody []}"
    by (simp add: status_method(3))
  have x: "status_server (call_of (fe_support fetch_sample) (rq_url status_request) (rq_options status_request)) = Loaded status_answer"
    by code_simp
  have h: "parseHeaders (xr_headers status_answer) = Inr [(''content-type'', ''application/json'')]" by code_simp
  have t: "answer_text fetch_sample status_answer = Some ''up''" by code_simp
  note r = answer_decoded [where xhr = status_server, OF status_auth [of "[]"] status_built'
    status_method(1) f m x h t]
  have "transport_action http_page (\<lambda>_. Inr (answer_response fetch_sample status_answer [(''content-type'', ''application/json'')] ''up''))
      token_transport status_link [CoreJSONCodec, JSONCodec, TextCodec] [] = Inr (Prim (JStr ''up''))"
    unfolding transport_action_def status_built sum.case by code_simp
  with r show ?thesis unfolding token_transport_eq by (simp only:)
qed

end
