(* ===== verification/BrowsableApi.thy ===== *)
theory BrowsableApi
  imports HttpClient
begin

text \<open>
  The scripts of the browsable API: the token sent with a request
  (\<open>koded-cli/web/backend/staticfiles/rest_framework/js/csrf.js\<close>), forms sent by script (\<open>ajax-form.js\<close>, \<open>load-ajax-form.js\<close>)
  and the tabs, one of which is kept over a reload (\<open>default.js\<close>).
  Where the token goes is judged against what a browser makes of an address (\<open>browser_target\<close>).
\<close>

subsection \<open>The token\<close>

definition drf_getCookie :: "string \<Rightarrow> string \<Rightarrow> js_error + string option" where
  "drf_getCookie cookie nm =
     (if cookie \<noteq> [] then find_cookie nm (split_on (CHR '';'') cookie) else Inr None)"

definition drf_csrfSafeMethod :: "string \<Rightarrow> bool" where
  "drf_csrfSafeMethod m = (m \<in> {''GET'', ''HEAD'', ''OPTIONS'', ''TRACE''})"

definition sameOrigin :: "location \<Rightarrow> string \<Rightarrow> bool" where
  "sameOrigin page u =
     (let sr_origin = ''//'' @ loc_host page; origin = loc_protocol page @ sr_origin
      in (u = origin \<or> take (length origin + 1) u = origin @ ''/'')
       \<or> (u = sr_origin \<or> take (length sr_origin + 1) u = sr_origin @ ''/'')
       \<or> \<not> (starts_with u ''//'' \<or> starts_with u ''http:'' \<or> starts_with u ''https:''))"

text \<open>What is done before a request of jQuery's is sent: the headers with the token's.\<close>

definition beforeSend ::
  "location \<Rightarrow> string \<Rightarrow> string \<Rightarrow> string \<Rightarrow> string \<Rightarrow> string obj \<Rightarrow> string obj" where
  "beforeSend page headerName token m u hds =
     (if \<not> drf_csrfSafeMethod m \<and> sameOrigin page u then obj_set headerName token hds else hds)"

subsection \<open>Forms\<close>

text \<open>
  A form: its attributes, those of the button it was submitted with, and its overrides (the value of
  the input and the text of the selected option for the content type, the content).
\<close>

record api_form =
  af_clk_method :: "string option"
  af_data_method :: "string option"
  af_method :: "string option"
  af_action :: string
  af_enctype :: "string option"
  af_encoding :: "string option"
  af_type_input :: "string option"
  af_type_select :: string
  af_content :: "string option"
  af_entries :: "(string \<times> string) list"
  af_serialized :: string

fun first_true :: "string option list \<Rightarrow> string" where
  "first_true [] = []"
| "first_true (None # xs) = first_true xs"
| "first_true (Some s # xs) = (if s \<noteq> [] then s else first_true xs)"

definition form_method :: "api_form \<Rightarrow> string" where
  "form_method f =
     toUpperCase (first_true [af_clk_method f, af_data_method f, af_method f, Some ''GET''])"

definition override_type :: "api_form \<Rightarrow> string" where
  "override_type f = first_true [af_type_input f, Some (af_type_select f)]"

text \<open>
  The boundary, \<open>/^--([bchars ]{0,69}[bchars])[\s]*?$/im\<close>: of the first line that is two hyphens, 1 to 70
  of the characters, the last no space, and white space.
\<close>

definition boundary_char :: "char \<Rightarrow> bool" where
  "boundary_char c \<longleftrightarrow> is_alpha c \<or> is_digit c \<or> c = CHR 0x27 \<or> c \<in> set ''()+_,-./:=?''"

definition line_end :: "char \<Rightarrow> bool" where
  "line_end c \<longleftrightarrow> c = CHR 0x0A \<or> c = CHR 0x0D"

definition line_boundary :: "string \<Rightarrow> string option" where
  "line_boundary l =
     (if starts_with l ''--''
      then (let b = rev (dropWhile is_ws (rev (drop 2 l)))
            in if b \<noteq> [] \<and> length b \<le> 70 \<and> list_all (\<lambda>c. boundary_char c \<or> c = CHR '' '') b \<and> boundary_char (last b)
               then Some b else None)
      else None)"

fun first_boundary :: "string list \<Rightarrow> string option" where
  "first_boundary [] = None"
| "first_boundary (l # ls) = (case line_boundary l of Some b \<Rightarrow> Some b | None \<Rightarrow> first_boundary ls)"

definition boundary_of :: "string \<Rightarrow> string option" where
  "boundary_of data = first_boundary (split_by line_end data)"

definition crlf :: "string \<Rightarrow> string" where
  "crlf data = concat (map (\<lambda>c. if c = CHR 0x0A then [CHR 0x0D, CHR 0x0A] else [c]) data)"

record ajax_request =
  ar_url :: string
  ar_method :: string
  ar_data :: body
  ar_contentType :: "string option"
  ar_headers :: "string obj"

text \<open>A content type of \<open>None\<close> is \<open>false\<close>: the browser sets it with the boundary it chooses.\<close>

datatype submit_outcome = Standard_submit | Alerted | Sent ajax_request

definition override_body :: "string \<Rightarrow> string \<Rightarrow> string \<times> string" where
  "override_body contentType data =
     (if contentType = ''multipart/form-data''
      then (case boundary_of data of
              None \<Rightarrow> contentType
            | Some b \<Rightarrow> contentType @ ''; boundary='' @ [CHR 0x22] @ b @ [CHR 0x22], crlf data)
      else (contentType, data))"

definition doAjaxSubmit :: "bool \<Rightarrow> api_form \<Rightarrow> submit_outcome" where
  "doAjaxSubmit hasFormData f =
     (let m = form_method f; ty = override_type f;
          send = (\<lambda>data ct. Sent \<lparr>ar_url = af_action f, ar_method = m, ar_data = data, ar_contentType = ct,
                     ar_headers = [(''Accept'', ''text/html; q=1.0, */*'')]\<rparr>)
      in if m = ''GET'' then Standard_submit
         else if m = ''POST'' \<and> ty = [] then Standard_submit
         else if ty \<noteq> []
         then (let (ct, data) = override_body ty (first_true [af_content f]) in send (TextBody data) (Some ct))
         else if first_true [af_enctype f, af_encoding f] = ''multipart/form-data''
         then (if \<not> hasFormData then Alerted else send (FormBody (af_entries f)) None)
         else send (TextBody (af_serialized f)) (Some ''application/x-www-form-urlencoded; charset=UTF-8''))"

text \<open>
  The handlers of a form, by event and name space: \<open>ajaxForm\<close> removes its own before it adds them.  A click anywhere
  in the form is remembered with the data of the element clicked, for the submission that follows.
\<close>

datatype form_handler = DoAjaxSubmit | CaptureSubmittingElement | OtherHandler nat

definition ajaxForm :: "(string \<times> string \<times> form_handler) list \<Rightarrow> (string \<times> string \<times> form_handler) list" where
  "ajaxForm hs =
     filter (\<lambda>(ev, ns, h). \<not> (ev \<in> {''submit'', ''click''} \<and> ns = ''form-plugin'')) hs
     @ [(''submit'', ''form-plugin'', DoAjaxSubmit), (''click'', ''form-plugin'', CaptureSubmittingElement)]"

definition load_ajax_form :: "(string \<times> string \<times> form_handler) list list \<Rightarrow> (string \<times> string \<times> form_handler) list list" where
  "load_ajax_form forms = map ajaxForm forms"

definition captureSubmittingElement :: "string option \<Rightarrow> api_form \<Rightarrow> api_form" where
  "captureSubmittingElement data_method f = f\<lparr>af_clk_method := data_method\<rparr>"

lemma ajaxForm_once: "ajaxForm (ajaxForm hs) = ajaxForm hs"
  by (simp add: ajaxForm_def)

text \<open>A click on a part of a button that has no method of its own is a click without one, whatever the button says.\<close>

lemma last_click_counts:
  "af_data_method f = None \<Longrightarrow> af_method f = Some ''post'' \<Longrightarrow>
     form_method (captureSubmittingElement None (captureSubmittingElement (Some ''PUT'') f)) = ''POST''"
proof -
  assume f: "af_data_method f = None" "af_method f = Some ''post''"
  have "toUpperCase ''post'' = ''POST''" by code_simp
  with f show ?thesis by (simp add: form_method_def captureSubmittingElement_def)
qed

text \<open>What the response leaves: the page replaced by its text, under the form's address, or loaded anew.\<close>

datatype page_after = Replaced string string | Reloaded "string option" string

definition after_response :: "bool \<Rightarrow> string \<Rightarrow> string option \<Rightarrow> string \<Rightarrow> page_after" where
  "after_response hasHistory u contentType responseText =
     (if starts_with (toLowerCase (case contentType of None \<Rightarrow> [] | Some c \<Rightarrow> c)) ''text/html''
      then (if hasHistory then Replaced responseText u else Reloaded (Some responseText) u)
      else Reloaded None u)"

subsection \<open>Tabs\<close>

definition tab_cookie :: "string \<Rightarrow> string" where
  "tab_cookie nm = ''tabstyle='' @ nm @ ''; path=/''"

definition tab_char :: "char \<Rightarrow> bool" where
  "tab_char c \<longleftrightarrow> is_lower c \<or> c = CHR ''-''"

text \<open>The tab shown on load, of those of the page's switcher by their names.\<close>

definition shown_tab :: "string list \<Rightarrow> string \<Rightarrow> js_error + string option" where
  "shown_tab tabs cookie =
     bind_err (drf_getCookie cookie ''tabstyle'') (\<lambda>v.
       let nm = (case v of None \<Rightarrow> [] | Some s \<Rightarrow> filter tab_char s);
           first = (case tabs of [] \<Rightarrow> None | t # _ \<Rightarrow> Some t)
       in Inr (if nm \<noteq> [] \<and> nm \<in> set tabs then Some nm else first))"

text \<open>
  What else the page keeps: whether the first tab is marked active, the cookie written last, whether the dialog of
  errors is shown, and whether the debug toolbar, if there is one, is started again for a document that is replaced.
\<close>

record api_page =
  ap_first_active :: bool
  ap_cookie :: "string option"
  ap_errors_shown :: bool
  ap_restart :: bool
  ap_document :: string

definition tab_shown :: "nat \<Rightarrow> api_page \<Rightarrow> api_page" where
  "tab_shown k p = p\<lparr>ap_first_active := (k = 0)\<rparr>"

definition tab_clicked :: "string \<Rightarrow> api_page \<Rightarrow> api_page" where
  "tab_clicked nm p = p\<lparr>ap_cookie := Some (tab_cookie nm)\<rparr>"

definition window_loaded :: "api_page \<Rightarrow> api_page" where
  "window_loaded p = p\<lparr>ap_errors_shown := True\<rparr>"

definition replaceDocument :: "bool \<Rightarrow> string \<Rightarrow> api_page \<Rightarrow> api_page" where
  "replaceDocument djdt txt p = p\<lparr>ap_document := txt, ap_restart := djdt\<rparr>"

subsection \<open>Where a browser sends a request\<close>

text \<open>
  What a browser makes of the address of a request on a page by HTTP, as far as the protocol and the host it goes
  to: spaces and control characters are stripped at its ends, tabs and line ends everywhere; a scheme is read in any
  case; two slashes, or backslashes, begin the host, and so do none after another scheme; what has no host goes to
  the page's own.  \<open>None\<close> is an address by another scheme, or with a host that is none.  The host parser of the
  browser is a parameter: for a protocol and the text of a host with its port it gives them as \<open>location\<close> shows them
  (the letters small, escapes and numbers resolved, the protocol's own port left out).
\<close>

definition stripped :: "string \<Rightarrow> string" where
  "stripped u = rev (dropWhile (\<lambda>c. code c \<le> 32) (rev (dropWhile (\<lambda>c. code c \<le> 32) u)))"

definition cleaned :: "string \<Rightarrow> string" where
  "cleaned u = filter (\<lambda>c. code c \<notin> {9, 10, 13}) (stripped u)"

definition any_slash :: "char \<Rightarrow> bool" where
  "any_slash c \<longleftrightarrow> c = CHR ''/'' \<or> c = CHR 0x5C"

definition scheme_of :: "string \<Rightarrow> (string \<times> string) option" where
  "scheme_of u =
     (let s = takeWhile scheme_char u; r = dropWhile scheme_char u
      in if s \<noteq> [] \<and> is_alpha (hd s) \<and> r \<noteq> [] \<and> hd r = CHR '':''
         then Some (toLowerCase s, tl r) else None)"

definition two_slashes :: "string \<Rightarrow> bool" where
  "two_slashes u \<longleftrightarrow> length u \<ge> 2 \<and> any_slash (u ! 0) \<and> any_slash (u ! 1)"

definition host_end :: "char \<Rightarrow> bool" where
  "host_end c \<longleftrightarrow> any_slash c \<or> c = CHR ''?'' \<or> c = CHR ''#''"

definition authority_host :: "string \<Rightarrow> string" where
  "authority_host rest =
     (let a = takeWhile (\<lambda>c. \<not> host_end c) (dropWhile any_slash rest)
      in rev (takeWhile (\<lambda>c. c \<noteq> CHR ''@'') (rev a)))"

definition browser_target ::
  "(string \<Rightarrow> string \<Rightarrow> string option) \<Rightarrow> location \<Rightarrow> string \<Rightarrow> (string \<times> string) option" where
  "browser_target hostp page u =
     (let u = cleaned u; own = (loc_protocol page, loc_host page);
          goto = (\<lambda>proto rest. map_option (Pair proto) (hostp proto (authority_host rest)))
      in case scheme_of u of
           None \<Rightarrow> if two_slashes u then goto (loc_protocol page) u else Some own
         | Some (s, rest) \<Rightarrow>
             if s \<notin> {''http'', ''https''} then None
             else if s @ '':'' = loc_protocol page \<and> \<not> two_slashes rest then Some own
             else goto (s @ '':'') rest)"

text \<open>The text of a host as a browser shows it.\<close>

definition host_text :: "(string \<Rightarrow> string \<Rightarrow> string option) \<Rightarrow> string \<Rightarrow> string \<Rightarrow> bool" where
  "host_text hostp proto h \<longleftrightarrow>
     h \<noteq> [] \<and> list_all (\<lambda>c. 32 < code c \<and> \<not> host_end c \<and> c \<noteq> CHR ''@'') h \<and> hostp proto h = Some h"

lemma cleaned_append:
  assumes "w \<noteq> []" and "list_all (\<lambda>c. 32 < code c) w"
  shows "\<exists>t. cleaned (w @ r) = w @ t \<and> (r = [] \<longrightarrow> t = [])
    \<and> (\<forall>d r'. r = d # r' \<and> 32 < code d \<longrightarrow> (\<exists>t'. t = d # t'))"
proof -
  let ?c0 = "\<lambda>c :: char. code c \<le> 32" and ?tab = "\<lambda>c :: char. code c \<notin> {9, 10, 13}"
  obtain a v where w: "w = a # v" using assms(1) by (cases w) simp_all
  then have d: "dropWhile ?c0 (w @ r) = w @ r" using assms(2) by simp
  have rw: "dropWhile ?c0 (rev w) = rev w"
    using assms by (cases w rule: rev_cases) simp_all
  have strip: "stripped (w @ r) = w @ rev (dropWhile ?c0 (rev r))"
    unfolding stripped_def d by (simp add: dropWhile_append rw)
  have f: "filter ?tab w = w" using assms(2) by (intro filter_True) (auto simp: list_all_iff)
  have "\<exists>t'. filter ?tab (rev (dropWhile ?c0 (rev r))) = d # t'" if r: "r = d # r'" "32 < code d" for d r'
  proof -
    have "rev (dropWhile ?c0 (rev r)) = d # rev (dropWhile ?c0 (rev r'))"
      using r(2) unfolding r(1) by (simp add: dropWhile_append)
    with r(2) show ?thesis by simp
  qed
  moreover have "filter ?tab (rev (dropWhile ?c0 (rev r))) = []" if "r = []" using that by simp
  ultimately show ?thesis unfolding cleaned_def strip filter_append f by blast
qed


subsection \<open>The token stays at its origin\<close>

definition plain_origin :: "location \<Rightarrow> bool" where
  "plain_origin page \<longleftrightarrow> CHR ''/'' \<notin> set (loc_protocol page) \<and> list_all (\<lambda>d. d \<notin> set (loc_host page)) ''/?#''"

lemma take_slash:
  assumes "CHR ''/'' \<notin> set a" and "CHR ''/'' \<notin> set b" and "a @ CHR ''/'' # s = b @ CHR ''/'' # t"
  shows "a = b \<and> s = t"
proof -
  have "takeWhile (\<lambda>c. c \<noteq> CHR ''/'') (w @ CHR ''/'' # u) = w" if "CHR ''/'' \<notin> set w" for w u
    using that by (intro takeWhile_enc) auto
  with assms show ?thesis by (metis append_same_eq same_append_eq list.inject)
qed

lemma delimited:
  assumes "\<forall>c \<in> set a. P c" and "\<forall>c \<in> set b. P c" and "r = [] \<or> \<not> P (hd r)" and "a @ r = b @ d # t" and "\<not> P d"
  shows "a = b \<and> r = d # t"
proof -
  have "takeWhile P r = []" "dropWhile P r = r" using assms(3) by (cases r; simp)+
  then have "takeWhile P (a @ r) = a" "dropWhile P (a @ r) = r"
    using assms(1) by (simp_all add: takeWhile_append2 dropWhile_append2)
  moreover have "takeWhile P (b @ d # t) = b" "dropWhile P (b @ d # t) = d # t"
    using assms(2,5) by (simp_all add: takeWhile_append2 dropWhile_append2)
  ultimately show ?thesis using assms(4) by simp
qed

lemma take_eq_iff: "take (length w + 1) u = w @ [d] \<longleftrightarrow> (\<exists>t. u = w @ d # t)"
proof
  assume "take (length w + 1) u = w @ [d]"
  then have "u = (w @ [d]) @ drop (length w + 1) u" by (metis append_take_drop_id)
  then show "\<exists>t. u = w @ d # t" by (metis append_assoc append_Cons append_Nil)
qed auto

lemma same_origin_absolute:
  assumes "plain_origin page" and "parts_ok p" and "up_scheme p \<in> {''http'', ''https''}"
  defines "host_port \<equiv> up_host p @ (if up_port p = [] then [] else CHR '':'' # up_port p)"
    and "rest \<equiv> up_path p @ up_query p @ up_hash p"
  shows "sameOrigin page (parts_text p) \<longleftrightarrow>
    up_scheme p @ '':'' = loc_protocol page \<and> host_port = loc_host page \<and> (rest = [] \<or> up_path p \<noteq> [])"
proof -
  note ok = assms(2) [unfolded parts_ok_def free_of_def]
  let ?s = "up_scheme p @ '':''"
  have shape: "parts_text p = ?s @ ''//'' @ host_port @ rest"
    by (simp add: parts_text_def host_port_def rest_def)
  have s: "CHR ''/'' \<notin> set ?s" using assms(3) by auto
  have hp: "CHR ''/'' \<notin> set host_port" "CHR ''?'' \<notin> set host_port" "CHR ''#'' \<notin> set host_port" "host_port \<noteq> []"
    using ok digit_delims [of "up_port p"] by (auto simp: host_port_def)
  have pg: "CHR ''/'' \<notin> set (loc_protocol page)" "CHR ''/'' \<notin> set (loc_host page)"
    "CHR ''?'' \<notin> set (loc_host page)" "CHR ''#'' \<notin> set (loc_host page)"
    using assms(1) by (simp_all add: plain_origin_def)
  have third: "starts_with (parts_text p) ''http:'' \<or> starts_with (parts_text p) ''https:''"
    using assms(3) by (auto simp: shape starts_with_iff)
  have second: "parts_text p \<noteq> ''//'' @ t" for t
    using assms(3) by (auto simp: shape)
  have first: "parts_text p = loc_protocol page @ ''//'' @ t \<longleftrightarrow> ?s = loc_protocol page \<and> host_port @ rest = t" for t
    using take_slash [OF s pg(1), of "CHR ''/'' # host_port @ rest" "CHR ''/'' # t"] by (auto simp: shape)
  have "host_port @ rest = loc_host page \<longleftrightarrow> host_port = loc_host page \<and> rest = []"
  proof
    assume eq: "host_port @ rest = loc_host page"
    then have "set rest \<inter> {CHR ''/'', CHR ''?'', CHR ''#''} = {}" using pg(2-4) unfolding eq [symmetric] by auto
    moreover have "rest = [] \<or> hd rest \<in> {CHR ''/'', CHR ''?'', CHR ''#''}"
      using ok by (auto simp: rest_def hd_append)
    ultimately have "rest = []" using hd_in_set by fastforce
    with eq show "host_port = loc_host page \<and> rest = []" by simp
  qed simp
  moreover have "(\<exists>t. host_port @ rest = loc_host page @ CHR ''/'' # t) \<longleftrightarrow> host_port = loc_host page \<and> up_path p \<noteq> []"
  proof
    assume "\<exists>t. host_port @ rest = loc_host page @ CHR ''/'' # t"
    then obtain t where t: "host_port @ rest = loc_host page @ CHR ''/'' # t" ..
    let ?P = "\<lambda>c. c \<notin> {CHR ''/'', CHR ''?'', CHR ''#''}"
    have r: "rest = [] \<or> \<not> ?P (hd rest)" using ok by (auto simp: rest_def hd_append)
    have P: "\<forall>c \<in> set host_port. ?P c" "\<forall>c \<in> set (loc_host page). ?P c" using hp(1-3) pg(2-4) by blast+
    from delimited [OF P r t] have "host_port = loc_host page" and rt: "rest = CHR ''/'' # t" by simp_all
    moreover have "up_path p \<noteq> []"
    proof
      assume "up_path p = []"
      then have "up_query p @ up_hash p = CHR ''/'' # t" using rt by (simp add: rest_def)
      then show False using ok by (cases "up_query p") auto
    qed
    ultimately show "host_port = loc_host page \<and> up_path p \<noteq> []" by simp
  next
    assume "host_port = loc_host page \<and> up_path p \<noteq> []"
    then show "\<exists>t. host_port @ rest = loc_host page @ CHR ''/'' # t"
      using ok by (cases "up_path p") (auto simp: rest_def)
  qed
  ultimately show ?thesis
    using third second [of "loc_host page"] second [of "loc_host page @ CHR ''/'' # t" for t] first
    unfolding sameOrigin_def Let_def take_eq_iff by auto
qed

text \<open>An address with a protocol, or two slashes only, and a host goes to that host.\<close>

lemma authority_text:
  assumes "host_text hostp proto h" and "r = [] \<or> host_end (hd r)"
  shows "authority_host (''//'' @ h @ r) = h"
proof -
  have h: "\<forall>c \<in> set h. \<not> host_end c \<and> c \<noteq> CHR ''@''" "h \<noteq> []"
    using assms(1) by (auto simp: host_text_def list_all_iff)
  then have "dropWhile any_slash (h @ r) = h @ r" by (cases h) (auto simp: host_end_def)
  moreover have "takeWhile (\<lambda>c. \<not> host_end c) (h @ r) = h"
    using h(1) assms(2) by (cases r) (simp_all add: takeWhile_append2)
  moreover have t: "takeWhile (\<lambda>c. c \<noteq> CHR ''@'') (rev h) = rev h"
    using h(1) by (simp add: takeWhile_eq_all_conv)
  have "rev (takeWhile (\<lambda>c. c \<noteq> CHR ''@'') (rev h)) = h" unfolding t by simp
  ultimately show ?thesis by (simp add: authority_host_def any_slash_def)
qed

lemma target_of_host:
  assumes "host_text hostp (s @ '':'') h" and "s \<in> {''http'', ''https''}" and "r = [] \<or> hd r \<in> set ''/?#''"
  shows "browser_target hostp page (s @ ''://'' @ h @ r) = Some (s @ '':'', h)"
    and "s @ '':'' = loc_protocol page \<Longrightarrow> browser_target hostp page (''//'' @ h @ r) = Some (s @ '':'', h)"
proof -
  have h: "list_all (\<lambda>c. 32 < code c) h" "h \<noteq> []" "hostp (s @ '':'') h = Some h"
    using assms(1) by (auto simp: host_text_def list_all_iff)
  have "\<exists>t. cleaned ((w @ h) @ r) = (w @ h) @ t \<and> (t = [] \<or> host_end (hd t))"
    if "list_all (\<lambda>c. 32 < code c) w" for w
    using cleaned_append [of "w @ h" r] assms(3) h(1,2) that
    by (cases r) (auto simp: host_end_def any_slash_def)
  note cl = this [simplified]
  have sc: "list_all (\<lambda>c. 32 < code c) (s @ ''://'')" "takeWhile scheme_char (s @ CHR '':'' # t) = s"
    "dropWhile scheme_char (s @ CHR '':'' # t) = CHR '':'' # t" "is_alpha (hd s)" "s \<noteq> []" "toLowerCase s = s" for t
    using assms(2) by (auto simp: scheme_char_def char_class_defs lower_char_def)
  from cl [OF sc(1)] obtain t where
    t: "cleaned (s @ ''://'' @ h @ r) = s @ CHR '':'' # ''//'' @ h @ t" "t = [] \<or> host_end (hd t)" by auto
  have two: "two_slashes (''//'' @ u)" for u by (simp add: two_slashes_def any_slash_def)
  have sch: "scheme_of (s @ CHR '':'' # ''//'' @ h @ t) = Some (s, ''//'' @ h @ t)"
    unfolding scheme_of_def Let_def sc(2,3) using sc(4-6) by simp
  show "browser_target hostp page (s @ ''://'' @ h @ r) = Some (s @ '':'', h)"
    using assms(2) h(3) two
    unfolding browser_target_def Let_def t(1) sch option.case prod.case authority_text [OF assms(1) t(2)] by auto
  show "browser_target hostp page (''//'' @ h @ r) = Some (s @ '':'', h)" if "s @ '':'' = loc_protocol page"
  proof -
    have "list_all (\<lambda>c. 32 < code c) ''//''" by simp
    from cl [OF this] obtain t where
      t: "cleaned (''//'' @ h @ r) = ''//'' @ h @ t" "t = [] \<or> host_end (hd t)" by auto
    have "scheme_of (''//'' @ h @ t) = None" by (simp add: scheme_of_def scheme_char_def char_class_defs)
    then show ?thesis
      using h(3) two that
      unfolding browser_target_def Let_def t(1) authority_text [OF assms(1) t(2)] by simp
  qed
qed

text \<open>A page by HTTP, its host as the browser shows it.\<close>

definition page_ok :: "(string \<Rightarrow> string \<Rightarrow> string option) \<Rightarrow> location \<Rightarrow> bool" where
  "page_ok hostp page \<longleftrightarrow>
     loc_protocol page \<in> {''http:'', ''https:''} \<and> host_text hostp (loc_protocol page) (loc_host page)"

lemma page_ok_plain:
  assumes "page_ok hostp page"
  shows "plain_origin page"
proof -
  have "\<forall>c \<in> set (loc_host page). \<not> host_end c"
    using assms by (simp add: page_ok_def host_text_def list_all_iff)
  moreover have "host_end CHR ''/''" "host_end CHR ''?''" "host_end CHR ''#''"
    by (simp_all add: host_end_def any_slash_def)
  moreover have "CHR ''/'' \<notin> set (loc_protocol page)"
    using assms unfolding page_ok_def by (elim conjE insertE emptyE) simp_all
  ultimately show ?thesis unfolding plain_origin_def by auto
qed

text \<open>What \<open>sameOrigin\<close> does not take for a relative address.\<close>

definition names_origin :: "string \<Rightarrow> bool" where
  "names_origin u \<longleftrightarrow> starts_with u ''//'' \<or> starts_with u ''http:'' \<or> starts_with u ''https:''"

lemma same_origin_target:
  assumes "page_ok hostp page" and "names_origin u" and "sameOrigin page u"
  shows "browser_target hostp page u = Some (loc_protocol page, loc_host page)"
proof -
  obtain s where s: "loc_protocol page = s @ '':''" "s \<in> {''http'', ''https''}"
    using assms(1) by (auto simp: page_ok_def)
  have h: "host_text hostp (s @ '':'') (loc_host page)" using assms(1) s(1) by (simp add: page_ok_def)
  have "u = w \<or> take (length w + 1) u = w @ ''/'' \<Longrightarrow> \<exists>r. u = w @ r \<and> (r = [] \<or> hd r = CHR ''/'')" for w
    unfolding take_eq_iff by force
  note sl = this [of "loc_protocol page @ ''//'' @ loc_host page"] this [of "''//'' @ loc_host page"]
  from assms(2,3) consider "\<exists>r. u = (loc_protocol page @ ''//'' @ loc_host page) @ r \<and> (r = [] \<or> hd r = CHR ''/'')"
    | "\<exists>r. u = (''//'' @ loc_host page) @ r \<and> (r = [] \<or> hd r = CHR ''/'')"
    unfolding sameOrigin_def Let_def names_origin_def using sl by blast
  then show ?thesis
  proof cases
    case 1
    then obtain r where r: "u = s @ ''://'' @ loc_host page @ r" "r = [] \<or> hd r \<in> set ''/?#''"
      using s(1) by auto
    show ?thesis unfolding r(1) s(1) by (rule target_of_host(1) [OF h s(2) r(2)])
  next
    case 2
    then obtain r where r: "u = ''//'' @ loc_host page @ r" "r = [] \<or> hd r \<in> set ''/?#''" by auto
    show ?thesis unfolding r(1) s(1) by (rule target_of_host(2) [OF h s(2) r(2) s(1) [symmetric]])
  qed
qed

text \<open>
  An address in its canonical form: its scheme and host as the browser shows them, the default port left out, no
  user before the host.
\<close>

definition canonical :: "(string \<Rightarrow> string \<Rightarrow> string option) \<Rightarrow> url_parts \<Rightarrow> bool" where
  "canonical hostp p \<longleftrightarrow> parts_ok p \<and> up_scheme p \<in> {''http'', ''https''}
     \<and> host_text hostp (up_scheme p @ '':'') (up_host p @ (if up_port p = [] then [] else CHR '':'' # up_port p))"

lemma canonical_target:
  assumes "canonical hostp p"
  shows "browser_target hostp page (parts_text p) =
    Some (up_scheme p @ '':'', up_host p @ (if up_port p = [] then [] else CHR '':'' # up_port p))"
proof -
  note ok = assms [unfolded canonical_def]
  let ?r = "up_path p @ up_query p @ up_hash p"
  have "?r = [] \<or> hd ?r \<in> set ''/?#''" using ok by (auto simp: parts_ok_def hd_append)
  from target_of_host(1) [OF conjunct2 [OF conjunct2 [OF ok]] conjunct1 [OF conjunct2 [OF ok]] this]
  show ?thesis by (simp only: parts_text_def append_assoc)
qed

text \<open>
  C31: the token stays at its origin.  A request by any address that begins with two slashes, \<open>http:\<close> or
  \<open>https:\<close>, whatever follows, gets the token only when the browser sends it to the page's own protocol and host.
  For an address in its canonical form (the scheme and the host in the letters, the port and the escapes a browser
  shows, no user) this is exact: it gets the token exactly when its method is none of the safe ones and the browser
  sends it to the page's protocol and host, except that an address with a query or a hash but no path gets none.
\<close>

theorem token_same_origin:
  assumes "page_ok hostp page" and "map_of hds hname = None"
  shows "(\<forall>u. names_origin u \<and> map_of (beforeSend page hname tok m u hds) hname = Some tok
        \<longrightarrow> browser_target hostp page u = Some (loc_protocol page, loc_host page))
    \<and> (\<forall>p. canonical hostp p \<longrightarrow>
        (map_of (beforeSend page hname tok m (parts_text p) hds) hname = Some tok \<longleftrightarrow>
           m \<notin> {''GET'', ''HEAD'', ''OPTIONS'', ''TRACE''}
           \<and> browser_target hostp page (parts_text p) = Some (loc_protocol page, loc_host page)
           \<and> (up_path p \<noteq> [] \<or> up_query p @ up_hash p = [])))"
proof (intro conjI allI impI)
  fix u
  assume u: "names_origin u \<and> map_of (beforeSend page hname tok m u hds) hname = Some tok"
  then have "sameOrigin page u" using assms(2) by (auto simp: beforeSend_def split: if_splits)
  with same_origin_target [OF assms(1)] u show "browser_target hostp page u = Some (loc_protocol page, loc_host page)"
    by blast
next
  fix p
  assume p: "canonical hostp p"
  then have ok: "parts_ok p" "up_scheme p \<in> {''http'', ''https''}" by (simp_all add: canonical_def)
  show "map_of (beforeSend page hname tok m (parts_text p) hds) hname = Some tok \<longleftrightarrow>
      m \<notin> {''GET'', ''HEAD'', ''OPTIONS'', ''TRACE''}
      \<and> browser_target hostp page (parts_text p) = Some (loc_protocol page, loc_host page)
      \<and> (up_path p \<noteq> [] \<or> up_query p @ up_hash p = [])"
    unfolding beforeSend_def same_origin_absolute [OF page_ok_plain [OF assms(1)] ok] canonical_target [OF p]
    using assms(2) by (auto simp: drf_csrfSafeMethod_def)
qed

definition koded_page :: location where
  "koded_page = \<lparr>loc_protocol = ''https:'', loc_slashes = True, loc_host = ''koded.dev:8443'', loc_port = ''8443'',
     loc_hostname = ''koded.dev'', loc_pathname = ''/''\<rparr>"

text \<open>A host parser for hosts of plain letters: it makes them small.\<close>

definition small_letters :: "string \<Rightarrow> string \<Rightarrow> string option" where
  "small_letters proto h = Some (toLowerCase h)"

theorem token_same_origin_witness:
  "map_of (beforeSend koded_page ''X-CSRFToken'' ''t'' ''POST'' (parts_text sample_parts) []) ''X-CSRFToken'' = Some ''t''
   \<and> browser_target small_letters koded_page (parts_text sample_parts) = Some (''https:'', ''koded.dev:8443'')"
proof -
  have ok: "page_ok small_letters koded_page" "canonical small_letters sample_parts"
    "browser_target small_letters koded_page (parts_text sample_parts) = Some (''https:'', ''koded.dev:8443'')"
    by code_simp+
  show ?thesis
    using token_same_origin [OF ok(1), of "[]" "''X-CSRFToken''" "''t''" "''POST''"] ok(2,3)
    by (auto simp: sample_parts_def koded_page_def)
qed

text \<open>
  A relative address: no characters that a browser strips or reads as a slash, no scheme, no host.  (Of an empty one
  jQuery makes the address of the page.)
\<close>

definition plain_relative :: "string \<Rightarrow> bool" where
  "plain_relative a \<longleftrightarrow> a \<noteq> [] \<and> list_all (\<lambda>c. 32 < code c \<and> c \<noteq> CHR 0x5C) a
     \<and> scheme_of a = None \<and> \<not> starts_with a ''//''"

lemma relative_same:
  assumes "scheme_of a = None" and "\<not> starts_with a ''//''"
  shows "sameOrigin page a"
proof -
  have "\<not> starts_with a (w @ '':'')" if "w \<noteq> []" "list_all scheme_char w" "is_alpha (hd w)" for w
  proof
    assume "starts_with a (w @ '':'')"
    then obtain t where "a = w @ CHR '':'' # t" by (auto simp: starts_with_iff)
    moreover have "\<not> scheme_char CHR '':''" by (simp add: scheme_char_def char_class_defs)
    ultimately have "takeWhile scheme_char a = w" "dropWhile scheme_char a = CHR '':'' # t"
      using that(2) by (simp_all add: takeWhile_append2 dropWhile_append2 list_all_iff)
    with assms(1) that(1,3) show False by (simp add: scheme_of_def Let_def)
  qed
  moreover have "list_all scheme_char ''http''" "list_all scheme_char ''https''" "is_alpha CHR ''h''" by code_simp+
  ultimately have "\<not> starts_with a ''http:''" "\<not> starts_with a ''https:''"
    by (metis append_Cons append_Nil list.distinct(1) list.sel(1))+
  with assms(2) show ?thesis by (simp add: sameOrigin_def Let_def)
qed

lemma relative_target:
  assumes "plain_relative a"
  shows "browser_target hostp page a = Some (loc_protocol page, loc_host page)"
proof -
  note a = assms [unfolded plain_relative_def]
  then have "list_all (\<lambda>c. 32 < code c) a" by (auto simp: list_all_iff)
  from cleaned_append [OF _ this, of "[]"] a have c: "cleaned a = a" by auto
  have "\<not> two_slashes a"
  proof
    assume "two_slashes a"
    then obtain c d t where "a = c # d # t" "any_slash c" "any_slash d"
      by (cases a; cases "tl a") (auto simp: two_slashes_def)
    with a show False by (auto simp: any_slash_def starts_with_def)
  qed
  with a show ?thesis by (simp add: browser_target_def c Let_def)
qed

text \<open>
  C32: a form sent by script is protected.  Whatever its fields and overrides, a form with a relative address, one
  without a scheme or a host in which no character is a space, a control character or a backslash, is never sent by
  script under \<open>GET\<close>; the browser sends it to the page's own protocol and host, and unless its method is
  \<open>HEAD\<close>, \<open>OPTIONS\<close> or \<open>TRACE\<close>, it has the token.
\<close>

theorem ajax_protected:
  assumes "doAjaxSubmit hasFormData f = Sent rq" and "plain_relative (af_action f)"
  shows "ar_method rq \<noteq> ''GET''
    \<and> browser_target hostp page (ar_url rq) = Some (loc_protocol page, loc_host page)
    \<and> map_of (beforeSend page hname tok (ar_method rq) (ar_url rq) (ar_headers rq)) hname =
       (if ar_method rq \<in> {''HEAD'', ''OPTIONS'', ''TRACE''} then map_of (ar_headers rq) hname else Some tok)"
proof -
  have rq: "ar_url rq = af_action f" "ar_method rq \<noteq> ''GET''"
    using assms(1) by (auto simp: doAjaxSubmit_def Let_def split: if_splits prod.splits)
  have "sameOrigin page (af_action f)" using assms(2) by (intro relative_same) (simp_all add: plain_relative_def)
  with rq relative_target [OF assms(2)] show ?thesis
    by (auto simp: beforeSend_def drf_csrfSafeMethod_def)
qed

definition put_form :: api_form where
  "put_form = \<lparr>af_clk_method = Some ''put'', af_data_method = None, af_method = Some ''post'', af_action = ''/api/1/'',
     af_enctype = Some ''multipart/form-data'', af_encoding = None, af_type_input = None, af_type_select = [],
     af_content = None, af_entries = [(''name'', ''Koded'')], af_serialized = ''name=Koded''\<rparr>"

theorem ajax_protected_witness:
  "\<exists>rq. doAjaxSubmit True put_form = Sent rq \<and> ar_method rq = ''PUT''
    \<and> browser_target small_letters koded_page (ar_url rq) = Some (''https:'', ''koded.dev:8443'')
    \<and> map_of (beforeSend koded_page ''X-CSRFToken'' ''t'' (ar_method rq) (ar_url rq) (ar_headers rq)) ''X-CSRFToken'' = Some ''t''"
proof -
  have m: "toUpperCase ''put'' = ''PUT''" by code_simp
  then obtain rq where rq: "doAjaxSubmit True put_form = Sent rq" "ar_method rq = ''PUT''"
    by (simp add: doAjaxSubmit_def form_method_def override_type_def put_form_def Let_def)
  have r: "plain_relative (af_action put_form)" by code_simp
  from ajax_protected [OF rq(1) r, of small_letters koded_page "''X-CSRFToken''" "''t''"] rq show ?thesis
    by (auto simp: koded_page_def)
qed

text \<open>
  \<open>sameOrigin\<close> takes more addresses for relative than a browser does: the scheme in capitals, a backslash for the
  second slash, and a tab between the slashes name a host for the browser, and the token leaves for it.
\<close>

lemma taken_for_relative:
  assumes "loc_protocol page = ''https:''" and "u \<in> {''HTTPS://evil.org/'', ''/'' @ [CHR 0x5C] @ ''evil.org/'', ''/'' @ [CHR 0x09] @ ''/evil.org/''}"
  shows "map_of (beforeSend page hname tok ''POST'' u []) hname = Some tok"
    and "browser_target hostp page u = map_option (Pair ''https:'') (hostp ''https:'' ''evil.org'')"
proof -
  have s: "\<not> starts_with u ''//''" "\<not> starts_with u ''http:''" "\<not> starts_with u ''https:''"
    using assms(2) by (elim insertE emptyE; hypsubst; code_simp)+
  then show "map_of (beforeSend page hname tok ''POST'' u []) hname = Some tok"
    by (simp add: beforeSend_def sameOrigin_def drf_csrfSafeMethod_def Let_def)
  have c: "scheme_of (cleaned ''HTTPS://evil.org/'') = Some (''https'', ''//evil.org/'')" "two_slashes ''//evil.org/''"
    "authority_host ''//evil.org/'' = ''evil.org''" "cleaned (''/'' @ [CHR 0x09] @ ''/evil.org/'') = ''//evil.org/''"
    "cleaned (''/'' @ [CHR 0x5C] @ ''evil.org/'') = ''/'' @ [CHR 0x5C] @ ''evil.org/''" "scheme_of ''//evil.org/'' = None"
    "scheme_of (''/'' @ [CHR 0x5C] @ ''evil.org/'') = None" "two_slashes (''/'' @ [CHR 0x5C] @ ''evil.org/'')"
    "authority_host (''/'' @ [CHR 0x5C] @ ''evil.org/'') = ''evil.org''"
    by code_simp+
  from assms(2) consider "u = ''HTTPS://evil.org/''" | "u = ''/'' @ [CHR 0x5C] @ ''evil.org/''"
    | "u = ''/'' @ [CHR 0x09] @ ''/evil.org/''" by blast
  then show "browser_target hostp page u = map_option (Pair ''https:'') (hostp ''https:'' ''evil.org'')"
  proof cases
    case 1
    show ?thesis unfolding browser_target_def Let_def 1 c(1) option.case prod.case c(3) by (simp add: c(2))
  next
    case 2
    show ?thesis unfolding browser_target_def Let_def 2 c(5,7,9) by (simp add: c(8) [simplified] assms(1))
  next
    case 3
    show ?thesis unfolding browser_target_def Let_def 3 c(4,6) c(3) by (simp add: c(2) assms(1))
  qed
qed

text \<open>And the host of the page in other letters gets no token, though it is the same to a browser.\<close>

lemma own_host_in_capitals:
  "map_of (beforeSend koded_page ''X-CSRFToken'' ''t'' ''POST'' ''https://KODED.dev:8443/'' []) ''X-CSRFToken'' = None"
  "browser_target small_letters koded_page ''https://KODED.dev:8443/'' = Some (''https:'', ''koded.dev:8443'')"
  by code_simp+

subsection \<open>The boundary of an overridden body\<close>

text \<open>
  The boundary of a body that begins with it is the one the content type names; of the body, only line
  ends are changed.
\<close>

lemma multipart_boundary:
  assumes "b \<noteq> []" and "length b \<le> 70" and "list_all (\<lambda>c. boundary_char c \<or> c = CHR '' '') b"
    and "boundary_char (last b)"
  shows "override_body ''multipart/form-data'' (''--'' @ b @ CHR 0x0A # s) =
      (''multipart/form-data; boundary='' @ [CHR 0x22] @ b @ [CHR 0x22], crlf (''--'' @ b @ CHR 0x0A # s))
    \<and> filter (\<lambda>c. c \<noteq> CHR 0x0D) (crlf t) = filter (\<lambda>c. c \<noteq> CHR 0x0D) t"
proof -
  have ws: "\<not> is_ws c" if "boundary_char c" for c
    using that by (auto simp: boundary_char_def char_class_defs)
  have le: "\<not> line_end c" if "boundary_char c \<or> c = CHR '' ''" for c
    using that by (auto simp: boundary_char_def char_class_defs line_end_def)
  have "rev (dropWhile is_ws (rev b)) = b"
    using assms(1,4) ws dropWhile_hd [of "rev b" is_ws] by (simp add: hd_rev)
  then have "line_boundary (''--'' @ b) = Some b"
    using assms by (simp add: line_boundary_def starts_with_def Let_def)
  moreover have "\<forall>c \<in> set (''--'' @ b). \<not> line_end c"
    using assms(3) le by (auto simp: list_all_iff line_end_def)
  then have "\<exists>ls. split_by line_end ((''--'' @ b) @ CHR 0x0A # s) = (''--'' @ b) # ls"
    using split_by_append [of "''--'' @ b" line_end "CHR 0x0A" s] by (auto simp: line_end_def)
  ultimately have "boundary_of (''--'' @ b @ CHR 0x0A # s) = Some b"
    by (auto simp: boundary_of_def)
  moreover have "filter (\<lambda>c. c \<noteq> CHR 0x0D) (crlf t) = filter (\<lambda>c. c \<noteq> CHR 0x0D) t"
    by (induction t) (auto simp: crlf_def)
  ultimately show ?thesis by (simp add: override_body_def)
qed

subsection \<open>The tab is kept\<close>

lemma tab_unescaped: "list_all tab_char s \<Longrightarrow> encodeURIComponent s = s"
  by (induction s) (auto simp: encodeURIComponent_def enc_char_def uri_unescaped_def tab_char_def is_alpha_def)

text \<open>
  The tab clicked last is the one shown after a reload, whatever other cookies the page has.
\<close>

lemma tab_restored:
  assumes "\<forall>c \<in> set (cs @ ds). cookie_name (fst c) \<and> fst c \<noteq> ''tabstyle''" and "nm \<in> set tabs" and "nm \<noteq> []"
    and "list_all tab_char nm"
  shows "tab_cookie nm = cookie_text (''tabstyle'', nm) @ ''; path=/''
    \<and> shown_tab tabs (join_with ''; '' (map cookie_text (cs @ (''tabstyle'', nm) # ds))) = Inr (Some nm)"
proof -
  let ?all = "cs @ (''tabstyle'', nm) # ds"
  have ok: "\<forall>c \<in> set ?all. cookie_name (fst c)"
    using assms(1) by (auto simp: cookie_name_def is_ws_def)
  have "drf_getCookie (join_with ''; '' (map cookie_text ?all)) ''tabstyle'' = Inr (map_of ?all ''tabstyle'')"
    using find_cookie_join [OF ok, of "''tabstyle''"] by (simp add: drf_getCookie_def)
  moreover have "map_of ?all ''tabstyle'' = Some nm"
    using assms(1) by (induction cs) auto
  ultimately show ?thesis
    using assms(2-4) by (simp add: shown_tab_def bind_err_def Let_def tab_cookie_def cookie_text_def tab_unescaped
        filter_id_conv list_all_iff)
qed

end
