(* ===== verification/Actions.thy ===== *)
theory Actions
  imports JsPrelude
begin

text \<open>
  The action bar of a change list, \<open>koded-cli/web/backend/staticfiles/admin/js/actions.js\<close>: the
  checkboxes of the rows, the box that toggles them all, and the choice of the objects of all pages.
  The page is the one the list template renders: at least one checkbox, each in a row of its own,
  an action bar with its counter, and the toggle.  \<open>ngettext\<close>, \<open>gettext\<close> and \<open>interpolate\<close> of the
  translation catalogue are parameters.  What the page shows and keeps is, event by event, what an
  abstract selection of rows computes from the same events.
\<close>

subsection \<open>State\<close>

record row =
  rw_checked :: bool
  rw_selected :: bool

text \<open>
  The elements a selector names are a list, one for each action bar; of the four kinds of
  \<open>span\<close> the class \<open>hidden\<close> is kept.  Only the first container and counter are ever used.
  Checkboxes are known by their position; \<open>cl_last\<close> is the one changed last.
\<close>

record changelist =
  cl_rows :: "row list"
  cl_toggle :: bool
  cl_across :: "string list"
  cl_clears :: "bool list"
  cl_questions :: "bool list"
  cl_alls :: "bool list"
  cl_counters :: "bool list"
  cl_container :: bool
  cl_counter :: string
  cl_total :: int
  cl_last :: "nat option"
  cl_shift :: bool
  cl_changed :: bool

record i18n =
  ngettext :: "string \<Rightarrow> string \<Rightarrow> nat \<Rightarrow> string"
  interpolate :: "string \<Rightarrow> (string \<times> int) list \<Rightarrow> string"

subsection \<open>Operations\<close>

definition show_all :: "bool list \<Rightarrow> bool list" where
  "show_all els = map (\<lambda>_. False) els"

definition hide_all :: "bool list \<Rightarrow> bool list" where
  "hide_all els = map (\<lambda>_. True) els"

definition showQuestion :: "changelist \<Rightarrow> changelist" where
  "showQuestion s =
     s\<lparr>cl_clears := hide_all (cl_clears s), cl_questions := show_all (cl_questions s),
       cl_alls := hide_all (cl_alls s)\<rparr>"

definition showClear :: "changelist \<Rightarrow> changelist" where
  "showClear s =
     s\<lparr>cl_clears := show_all (cl_clears s), cl_questions := hide_all (cl_questions s),
       cl_container := False, cl_alls := show_all (cl_alls s),
       cl_counters := hide_all (cl_counters s)\<rparr>"

definition reset :: "changelist \<Rightarrow> changelist" where
  "reset s =
     s\<lparr>cl_clears := hide_all (cl_clears s), cl_questions := hide_all (cl_questions s),
       cl_alls := hide_all (cl_alls s), cl_counters := show_all (cl_counters s)\<rparr>"

definition clearAcross :: "changelist \<Rightarrow> changelist" where
  "clearAcross s =
     (let s = reset s
      in s\<lparr>cl_across := map (\<lambda>_. ''0'') (cl_across s), cl_container := False\<rparr>)"

definition check_rows :: "nat list \<Rightarrow> bool \<Rightarrow> row list \<Rightarrow> row list" where
  "check_rows is checked rows =
     fold (\<lambda>i rs. rs[i := \<lparr>rw_checked = checked, rw_selected = checked\<rparr>]) is rows"

definition checker :: "nat list \<Rightarrow> bool \<Rightarrow> changelist \<Rightarrow> changelist" where
  "checker is checked s =
     (let s = (if checked then showQuestion s else reset s)
      in s\<lparr>cl_rows := check_rows is checked (cl_rows s)\<rparr>)"

definition selected_count :: "row list \<Rightarrow> nat" where
  "selected_count rows = length (filter rw_checked rows)"

definition counter_text :: "i18n \<Rightarrow> nat \<Rightarrow> int \<Rightarrow> string" where
  "counter_text tr sel cnt =
     interpolate tr (ngettext tr ''%(sel)s of %(cnt)s selected'' ''%(sel)s of %(cnt)s selected'' sel)
       [(''sel'', int sel), (''cnt'', cnt)]"

definition updateCounter :: "i18n \<Rightarrow> changelist \<Rightarrow> changelist" where
  "updateCounter tr s =
     (let sel = selected_count (cl_rows s);
          s = s\<lparr>cl_counter := counter_text tr sel (cl_total s),
                cl_toggle := (sel = length (cl_rows s))\<rparr>
      in if cl_toggle s then showQuestion s else clearAcross s)"

definition affectedCheckboxes :: "nat \<Rightarrow> changelist \<Rightarrow> nat list" where
  "affectedCheckboxes target s =
     (case cl_last s of
        None \<Rightarrow> [target]
      | Some l \<Rightarrow>
          if cl_shift s \<and> l \<noteq> target
          then filter (\<lambda>i. min target l \<le> i \<and> i \<le> max target l) [0..<length (cl_rows s)]
          else [target])"

subsection \<open>Handlers\<close>

definition all_rows :: "changelist \<Rightarrow> nat list" where
  "all_rows s = [0..<length (cl_rows s)]"

definition toggle_click :: "i18n \<Rightarrow> changelist \<Rightarrow> changelist" where
  "toggle_click tr s = updateCounter tr (checker (all_rows s) (cl_toggle s) s)"

definition question_click :: "changelist \<Rightarrow> changelist" where
  "question_click s = showClear (s\<lparr>cl_across := map (\<lambda>_. ''1'') (cl_across s)\<rparr>)"

definition clear_click :: "i18n \<Rightarrow> changelist \<Rightarrow> changelist" where
  "clear_click tr s =
     updateCounter tr (checker (all_rows s) False (clearAcross (s\<lparr>cl_toggle := False\<rparr>)))"

text \<open>A change of the checkbox at \<open>i\<close>, whose state is the new one already.\<close>

definition row_change :: "i18n \<Rightarrow> nat \<Rightarrow> changelist \<Rightarrow> changelist" where
  "row_change tr i s =
     (updateCounter tr (checker (affectedCheckboxes i s) (rw_checked (cl_rows s ! i)) s))
       \<lparr>cl_last := Some i\<rparr>"

text \<open>The Go button: whether the click is prevented, with the answer the user gives when asked.\<close>

definition go_prevented :: "bool \<Rightarrow> changelist \<Rightarrow> bool" where
  "go_prevented answer s = (cl_changed s \<and> \<not> answer)"

text \<open>The Save button: the question asked, if any, and whether the click is prevented.\<close>

datatype save_question = UnsavedFields | NoChanges

definition save_click :: "string \<Rightarrow> bool \<Rightarrow> changelist \<Rightarrow> save_question option \<times> bool" where
  "save_click action answer s =
     (if action \<noteq> []
      then (Some (if cl_changed s then UnsavedFields else NoChanges), \<not> answer)
      else (None, False))"

text \<open>
  What happens on the page, with what the browser itself does before the handler runs: it flips
  the box that is clicked, and restores boxes and hidden inputs when one comes back to the page.
  A link in a hidden \<open>span\<close> cannot be clicked.
\<close>

datatype act_event =
    KeyDown bool
  | KeyUp bool
  | ToggleClick
  | QuestionClick nat
  | ClearClick nat
  | RowChange nat
  | OtherChange
  | PageShow "bool list" "string list"

definition visible :: "bool list \<Rightarrow> nat \<Rightarrow> bool" where
  "visible els k = (k < length els \<and> \<not> els ! k)"

definition restore_rows :: "bool list \<Rightarrow> row list \<Rightarrow> row list" where
  "restore_rows bs rows = map2 (\<lambda>b r. r\<lparr>rw_checked := b\<rparr>) bs rows"

definition act_handle :: "i18n \<Rightarrow> act_event \<Rightarrow> changelist \<Rightarrow> changelist" where
  "act_handle tr e s =
     (case e of
        KeyDown sh \<Rightarrow> s\<lparr>cl_shift := sh\<rparr>
      | KeyUp sh \<Rightarrow> s\<lparr>cl_shift := sh\<rparr>
      | ToggleClick \<Rightarrow> toggle_click tr (s\<lparr>cl_toggle := \<not> cl_toggle s\<rparr>)
      | QuestionClick k \<Rightarrow> (if visible (cl_questions s) k then question_click s else s)
      | ClearClick k \<Rightarrow> (if visible (cl_clears s) k then clear_click tr s else s)
      | RowChange i \<Rightarrow>
          (if i < length (cl_rows s)
           then row_change tr i (s\<lparr>cl_rows := (cl_rows s)[i := (cl_rows s ! i)
                  \<lparr>rw_checked := \<not> rw_checked (cl_rows s ! i)\<rparr>]\<rparr>)
           else s)
      | OtherChange \<Rightarrow> s\<lparr>cl_changed := True\<rparr>
      | PageShow bs vs \<Rightarrow>
          (if length bs = length (cl_rows s) \<and> length vs = length (cl_across s)
           then updateCounter tr (s\<lparr>cl_rows := restore_rows bs (cl_rows s), cl_across := vs\<rparr>)
           else s))"

text \<open>The page as rendered: \<open>n\<close> rows, the spans of \<open>m\<close> action bars.\<close>

definition rendered :: "nat \<Rightarrow> nat \<Rightarrow> int \<Rightarrow> string \<Rightarrow> changelist" where
  "rendered n m cnt txt =
     \<lparr>cl_rows = replicate n \<lparr>rw_checked = False, rw_selected = False\<rparr>, cl_toggle = False,
      cl_across = replicate m ''0'', cl_clears = replicate m True, cl_questions = replicate m True,
      cl_alls = replicate m True, cl_counters = replicate m False, cl_container = False,
      cl_counter = txt, cl_total = cnt, cl_last = None, cl_shift = False, cl_changed = False\<rparr>"

subsection \<open>What the operations leave alone\<close>

lemma set_show_hide [simp]:
  "True \<notin> set (show_all els)" "False \<notin> set (hide_all els)"
  by (auto simp: show_all_def hide_all_def)

lemma showQuestion_simps [simp]:
  "cl_rows (showQuestion s) = cl_rows s" "cl_toggle (showQuestion s) = cl_toggle s"
  "cl_across (showQuestion s) = cl_across s" "cl_total (showQuestion s) = cl_total s"
  "cl_counter (showQuestion s) = cl_counter s" "cl_last (showQuestion s) = cl_last s"
  "cl_shift (showQuestion s) = cl_shift s" "cl_clears (showQuestion s) = hide_all (cl_clears s)"
  by (simp_all add: showQuestion_def)

lemma reset_simps [simp]:
  "cl_rows (reset s) = cl_rows s" "cl_toggle (reset s) = cl_toggle s"
  "cl_across (reset s) = cl_across s" "cl_total (reset s) = cl_total s"
  "cl_counter (reset s) = cl_counter s" "cl_last (reset s) = cl_last s"
  "cl_shift (reset s) = cl_shift s" "cl_clears (reset s) = hide_all (cl_clears s)"
  "cl_questions (reset s) = hide_all (cl_questions s)"
  by (simp_all add: reset_def)

lemma clearAcross_simps [simp]:
  "cl_rows (clearAcross s) = cl_rows s" "cl_toggle (clearAcross s) = cl_toggle s"
  "cl_across (clearAcross s) = map (\<lambda>_. ''0'') (cl_across s)" "cl_total (clearAcross s) = cl_total s"
  "cl_counter (clearAcross s) = cl_counter s" "cl_last (clearAcross s) = cl_last s"
  "cl_shift (clearAcross s) = cl_shift s" "cl_clears (clearAcross s) = hide_all (cl_clears s)"
  "cl_questions (clearAcross s) = hide_all (cl_questions s)"
  by (simp_all add: clearAcross_def Let_def)

lemma length_check_rows [simp]: "length (check_rows is b rows) = length rows"
  by (induction "is" arbitrary: rows) (simp_all add: check_rows_def)

lemma check_rows_nth:
  "k < length rows \<Longrightarrow> check_rows is b rows ! k =
     (if k \<in> set is then \<lparr>rw_checked = b, rw_selected = b\<rparr> else rows ! k)"
proof (induction "is" arbitrary: rows)
  case (Cons i "is")
  then show ?case by (simp add: check_rows_def nth_list_update)
qed (simp add: check_rows_def)

lemma checker_simps [simp]:
  "cl_rows (checker is b s) = check_rows is b (cl_rows s)" "cl_total (checker is b s) = cl_total s"
  "cl_across (checker is b s) = cl_across s" "cl_shift (checker is b s) = cl_shift s"
  by (simp_all add: checker_def Let_def)

lemma selected_count_all: "selected_count rows = length rows \<longleftrightarrow> (\<forall>r \<in> set rows. rw_checked r)"
  unfolding selected_count_def
  by (metis filter_True length_filter_less linorder_neq_iff)

lemma updateCounter_simps [simp]:
  "cl_rows (updateCounter tr s) = cl_rows s" "cl_total (updateCounter tr s) = cl_total s"
  by (simp_all add: updateCounter_def Let_def)

subsection \<open>The choice of all pages\<close>

definition all_checked :: "changelist \<Rightarrow> bool" where
  "all_checked s = (\<forall>r \<in> set (cl_rows s). rw_checked r)"

text \<open>
  The toggle shows whether every row is checked; the counter shows how many are; the question and
  the way back are on the page only while all are; the objects of the other pages are chosen only
  while all rows are checked, and the way back is shown only when they are chosen.
\<close>

definition act_inv :: "i18n \<Rightarrow> changelist \<Rightarrow> bool" where
  "act_inv tr s =
     (cl_rows s \<noteq> [] \<and> cl_toggle s = all_checked s
      \<and> cl_counter s = counter_text tr (selected_count (cl_rows s)) (cl_total s)
      \<and> (all_checked s \<or> False \<notin> set (cl_clears s) \<and> False \<notin> set (cl_questions s)
          \<and> set (cl_across s) \<subseteq> {''0''})
      \<and> (False \<in> set (cl_clears s) \<longrightarrow> set (cl_across s) \<subseteq> {''1''}))"

lemma updateCounter_inv: "cl_rows s \<noteq> [] \<Longrightarrow> act_inv tr (updateCounter tr s)"
  by (auto simp: act_inv_def all_checked_def updateCounter_def Let_def selected_count_all)

lemma act_inv_upd:
  "act_inv tr (s\<lparr>cl_shift := b\<rparr>) = act_inv tr s" "act_inv tr (s\<lparr>cl_changed := b\<rparr>) = act_inv tr s"
  "act_inv tr (s\<lparr>cl_last := l\<rparr>) = act_inv tr s"
  by (simp_all add: act_inv_def all_checked_def)

lemma question_inv:
  assumes "act_inv tr s" and "visible (cl_questions s) k"
  shows "act_inv tr (question_click s)"
proof -
  have "False \<in> set (cl_questions s)" using assms(2) by (metis (full_types) nth_mem visible_def)
  with assms(1) show ?thesis
    by (auto simp: act_inv_def all_checked_def question_click_def showClear_def)
qed

lemma act_handle_inv: "act_inv tr s \<Longrightarrow> act_inv tr (act_handle tr e s)"
proof -
  assume inv: "act_inv tr s"
  then have ne: "cl_rows s \<noteq> []" by (simp add: act_inv_def)
  have up: "act_inv tr (updateCounter tr t)" if "length (cl_rows t) = length (cl_rows s)" for t
    using ne that by (intro updateCounter_inv) auto
  show ?thesis
  proof (cases e)
    case (QuestionClick k)
    then show ?thesis using inv question_inv by (simp add: act_handle_def)
  qed (auto simp: act_handle_def act_inv_upd inv toggle_click_def clear_click_def row_change_def
      restore_rows_def intro!: up)
qed

interpretation actions: event_machine "act_handle tr" "act_inv tr" for tr
  by unfold_locales (rule act_handle_inv)

text \<open>
  C16: the choice of all objects never outlives the choice of the page.  Whatever is clicked, typed
  and restored once the page has been shown, the toggle is checked exactly when every row is, the
  counter counts the checked rows, and the hidden input that makes an action run on the objects of
  all pages holds anything but 0 only while every row of the page is checked.
\<close>

theorem across_needs_all:
  assumes "s = fold (act_handle tr) (PageShow bs vs # es) (rendered n m cnt txt)"
    and "n > 0" and "length bs = n" and "length vs = m"
  shows "(cl_toggle s \<longleftrightarrow> (\<forall>r \<in> set (cl_rows s). rw_checked r))
    \<and> cl_counter s = counter_text tr (length (filter rw_checked (cl_rows s))) (cl_total s)
    \<and> ((\<exists>v \<in> set (cl_across s). v \<noteq> ''0'') \<longrightarrow> (\<forall>r \<in> set (cl_rows s). rw_checked r))"
proof -
  have "act_inv tr (act_handle tr (PageShow bs vs) (rendered n m cnt txt))"
    using assms(2-4) unfolding act_handle_def
    by (auto simp: rendered_def restore_rows_def intro!: updateCounter_inv)
  from actions.run_invar [OF this, of es] have "act_inv tr s" using assms(1) by simp
  then show ?thesis by (auto simp: act_inv_def all_checked_def selected_count_def)
qed

definition plain_i18n :: i18n where
  "plain_i18n = \<lparr>ngettext = (\<lambda>a b n. a), interpolate = (\<lambda>f vs. f)\<rparr>"

theorem across_needs_all_witness:
  "let s = fold (act_handle plain_i18n) [PageShow [False, True] [''0''], RowChange 0, QuestionClick 0]
       (rendered 2 1 9 [])
   in cl_across s = [''1''] \<and> list_all rw_checked (cl_rows s)"
proof -
  let ?es = "[RowChange 0, QuestionClick 0]"
  let ?s = "fold (act_handle plain_i18n) (PageShow [False, True] [''0''] # ?es) (rendered 2 1 9 [])"
  have a: "cl_across ?s = [''1'']" by code_simp
  have "(\<exists>v \<in> set (cl_across ?s). v \<noteq> ''0'') \<longrightarrow> (\<forall>r \<in> set (cl_rows ?s). rw_checked r)"
    using across_needs_all [OF refl, of 2 "[False, True]" "[''0'']" 1 plain_i18n ?es 9 "[]"] by simp
  then have "list_all rw_checked (cl_rows ?s)" unfolding a by (simp add: list_all_iff)
  with a show ?thesis by (simp only: Let_def)
qed

subsection \<open>The selection, abstractly\<close>

text \<open>
  What the page lets a user do, said without its elements: the rows selected of a page of
  \<open>sl_size\<close>, whether the objects of all pages are chosen, in which of the \<open>sl_bars\<close> action bars
  the choice of all pages is offered and in which the way back, the row changed last and the shift
  key.
\<close>

record selection =
  sl_size :: nat
  sl_bars :: nat
  sl_rows :: "nat set"
  sl_pages :: bool
  sl_offers :: "nat set"
  sl_undos :: "nat set"
  sl_last :: "nat option"
  sl_shift :: bool

definition whole :: "selection \<Rightarrow> nat set" where
  "whole a = {..<sl_size a}"

text \<open>
  A new set of rows: the choice of all pages does not survive the loss of a row, and it is offered
  (again) in every bar exactly when the whole page is selected.
\<close>

definition with_rows :: "nat set \<Rightarrow> selection \<Rightarrow> selection" where
  "with_rows R a =
     a\<lparr>sl_rows := R, sl_pages := (sl_pages a \<and> R = whole a),
       sl_offers := (if R = whole a then {..<sl_bars a} else {}), sl_undos := {}\<rparr>"

text \<open>With the shift key the change of a row reaches up to the row changed last.\<close>

definition span_of :: "nat \<Rightarrow> selection \<Rightarrow> nat set" where
  "span_of i a =
     (case sl_last a of
        Some l \<Rightarrow> if sl_shift a then {min i l..max i l} \<inter> whole a else {i}
      | None \<Rightarrow> {i})"

definition sel_handle :: "act_event \<Rightarrow> selection \<Rightarrow> selection" where
  "sel_handle e a =
     (case e of
        KeyDown b \<Rightarrow> a\<lparr>sl_shift := b\<rparr>
      | KeyUp b \<Rightarrow> a\<lparr>sl_shift := b\<rparr>
      | ToggleClick \<Rightarrow> with_rows (if sl_rows a = whole a then {} else whole a) a
      | QuestionClick k \<Rightarrow>
          (if k \<in> sl_offers a
           then a\<lparr>sl_pages := True, sl_offers := {}, sl_undos := {..<sl_bars a}\<rparr> else a)
      | ClearClick k \<Rightarrow>
          (if k \<in> sl_undos a
           then a\<lparr>sl_rows := {}, sl_pages := False, sl_offers := {}, sl_undos := {}\<rparr> else a)
      | RowChange i \<Rightarrow>
          (if i < sl_size a
           then (with_rows (if i \<in> sl_rows a then sl_rows a - span_of i a
                            else sl_rows a \<union> span_of i a) a)\<lparr>sl_last := Some i\<rparr>
           else a)
      | OtherChange \<Rightarrow> a
      | PageShow bs vs \<Rightarrow>
          (if length bs = sl_size a \<and> length vs = sl_bars a
           then with_rows {i. i < sl_size a \<and> bs ! i}
                  (a\<lparr>sl_pages := (\<exists>v \<in> set vs. v \<noteq> ''0'')\<rparr>)
           else a))"

text \<open>Nothing selected, nothing offered, on a page of \<open>n\<close> rows with \<open>m\<close> action bars.\<close>

definition unselected :: "nat \<Rightarrow> nat \<Rightarrow> selection" where
  "unselected n m =
     \<lparr>sl_size = n, sl_bars = m, sl_rows = {}, sl_pages = False, sl_offers = {}, sl_undos = {},
      sl_last = None, sl_shift = False\<rparr>"

definition checked_rows :: "row list \<Rightarrow> nat set" where
  "checked_rows rows = {k. k < length rows \<and> rw_checked (rows ! k)}"

definition shown_in :: "bool list \<Rightarrow> nat set" where
  "shown_in els = {k. visible els k}"

definition abs_of :: "changelist \<Rightarrow> selection" where
  "abs_of s =
     \<lparr>sl_size = length (cl_rows s), sl_bars = length (cl_across s),
      sl_rows = checked_rows (cl_rows s), sl_pages = (\<exists>v \<in> set (cl_across s). v \<noteq> ''0''),
      sl_offers = shown_in (cl_questions s), sl_undos = shown_in (cl_clears s),
      sl_last = cl_last s, sl_shift = cl_shift s\<rparr>"

lemma abs_simps [simp]:
  "sl_size (abs_of s) = length (cl_rows s)" "sl_bars (abs_of s) = length (cl_across s)"
  "sl_rows (abs_of s) = checked_rows (cl_rows s)" "sl_offers (abs_of s) = shown_in (cl_questions s)"
  "sl_undos (abs_of s) = shown_in (cl_clears s)"
  "sl_last (abs_of s) = cl_last s" "sl_shift (abs_of s) = cl_shift s"
  "whole (abs_of s) = {..<length (cl_rows s)}"
  by (simp_all add: abs_of_def whole_def)

lemma shown_in_simps [simp]:
  "shown_in (show_all els) = {..<length els}" "shown_in (hide_all els) = {}"
  "k \<in> shown_in els \<longleftrightarrow> visible els k" "shown_in (replicate m True) = {}"
  by (auto simp: shown_in_def visible_def show_all_def hide_all_def)

lemma checked_all: "checked_rows rows = {..<length rows} \<longleftrightarrow> (\<forall>r \<in> set rows. rw_checked r)"
proof -
  have "(\<forall>r \<in> set rows. rw_checked r) \<longleftrightarrow> (\<forall>k < length rows. rw_checked (rows ! k))"
    by (metis in_set_conv_nth)
  then show ?thesis by (auto simp: checked_rows_def)
qed

lemma checked_check_rows:
  "checked_rows (check_rows is b rows) =
     (if b then checked_rows rows \<union> (set is \<inter> {..<length rows}) else checked_rows rows - set is)"
  by (auto simp: checked_rows_def check_rows_nth split: if_splits)

lemma checked_all_rows [simp]:
  "checked_rows (check_rows [0..<length rows] b rows) = (if b then {..<length rows} else {})"
proof -
  have "checked_rows rows \<subseteq> {..<length rows}" by (auto simp: checked_rows_def)
  then show ?thesis by (auto simp: checked_check_rows)
qed

lemma checked_restore [simp]:
  "length bs = length rows \<Longrightarrow>
   checked_rows (restore_rows bs rows) = {i. i < length rows \<and> bs ! i}"
  by (auto simp: checked_rows_def restore_rows_def)

text \<open>Each action bar has its hidden input, its question and its way back; none is ever lost.\<close>

definition bars_ok :: "changelist \<Rightarrow> bool" where
  "bars_ok s =
     (length (cl_questions s) = length (cl_across s) \<and> length (cl_clears s) = length (cl_across s))"

lemma length_show_hide [simp]:
  "length (show_all els) = length els" "length (hide_all els) = length els"
  by (simp_all add: show_all_def hide_all_def)

lemma bars_ok_handle: "bars_ok s \<Longrightarrow> bars_ok (act_handle tr e s)"
  by (cases e) (auto simp: act_handle_def toggle_click_def question_click_def clear_click_def
      row_change_def bars_ok_def showQuestion_def showClear_def reset_def clearAcross_def
      checker_def updateCounter_def Let_def)

text \<open>After the counter is updated the state abstracts to the rows checked.\<close>

lemma abs_updateCounter:
  assumes "bars_ok s"
  shows "abs_of (updateCounter tr s) = with_rows (checked_rows (cl_rows s)) (abs_of s)"
proof (cases "checked_rows (cl_rows s) = {..<length (cl_rows s)}")
  case True
  then have "selected_count (cl_rows s) = length (cl_rows s)"
    by (simp add: selected_count_all checked_all)
  with True assms show ?thesis
    by (simp add: updateCounter_def Let_def abs_of_def with_rows_def whole_def showQuestion_def
        bars_ok_def)
next
  case False
  then have "selected_count (cl_rows s) \<noteq> length (cl_rows s)"
    by (simp add: selected_count_all checked_all)
  with False show ?thesis
    by (auto simp: updateCounter_def Let_def abs_of_def with_rows_def whole_def)
qed

text \<open>What a state with other rows but the same inputs abstracts to.\<close>

lemma abs_checked:
  assumes "cl_across t = cl_across s" and "cl_last t = cl_last s" and "cl_shift t = cl_shift s"
    and "length (cl_rows t) = length (cl_rows s)" and "bars_ok t"
  shows "abs_of (updateCounter tr t) = with_rows (checked_rows (cl_rows t)) (abs_of s)"
  unfolding abs_updateCounter [OF assms(5)] using assms by (simp add: abs_of_def with_rows_def whole_def)

lemma checker_abs [simp]: "cl_last (checker is b s) = cl_last s"
  by (simp add: checker_def Let_def)

lemma bars_ok_simps [simp]:
  "bars_ok (checker is b s) = bars_ok s" "bars_ok (clearAcross s) = bars_ok s"
  "bars_ok (s\<lparr>cl_rows := rows\<rparr>) = bars_ok s" "bars_ok (s\<lparr>cl_toggle := c\<rparr>) = bars_ok s"
  by (simp_all add: checker_def Let_def bars_ok_def showQuestion_def clearAcross_def reset_def)

lemma affected_span:
  assumes "i < length (cl_rows s)"
  shows "set (affectedCheckboxes i s) = span_of i (abs_of s)"
  using assms by (auto simp: affectedCheckboxes_def span_of_def split: option.split)

lemma abs_upd [simp]:
  "abs_of (s\<lparr>cl_last := l\<rparr>) = (abs_of s)\<lparr>sl_last := l\<rparr>"
  "abs_of (s\<lparr>cl_shift := b\<rparr>) = (abs_of s)\<lparr>sl_shift := b\<rparr>"
  "abs_of (s\<lparr>cl_changed := c\<rparr>) = abs_of s"
  by (simp_all add: abs_of_def)

lemma span_of_abs:
  assumes "cl_last t = cl_last s" and "cl_shift t = cl_shift s"
    and "length (cl_rows t) = length (cl_rows s)"
  shows "span_of i (abs_of t) = span_of i (abs_of s)"
  using assms by (auto simp: span_of_def split: option.split)

lemma flip_checked:
  assumes "i < length rows"
  shows "checked_rows (rows[i := (rows ! i)\<lparr>rw_checked := b\<rparr>])
    = (if b then insert i (checked_rows rows) else checked_rows rows - {i})"
  using assms by (auto simp: checked_rows_def nth_list_update)

lemma abs_row_change:
  assumes "i < length (cl_rows s)" and "bars_ok s"
  shows "abs_of (act_handle tr (RowChange i) s) = sel_handle (RowChange i) (abs_of s)"
proof -
  let ?rows = "cl_rows s" and ?b = "\<not> rw_checked (cl_rows s ! i)"
  let ?s = "s\<lparr>cl_rows := ?rows[i := (?rows ! i)\<lparr>rw_checked := ?b\<rparr>]\<rparr>"
  let ?is = "affectedCheckboxes i ?s"
  have R: "set ?is = span_of i (abs_of s)"
    using affected_span [of i ?s] span_of_abs [of ?s s i] assms by simp
  have sub: "set ?is \<subseteq> {..<length ?rows}" and i: "i \<in> set ?is"
    unfolding R using assms by (auto simp: span_of_def split: option.splits)
  have "checked_rows (check_rows ?is ?b (cl_rows ?s)) =
      (if ?b then checked_rows ?rows \<union> span_of i (abs_of s) else checked_rows ?rows - span_of i (abs_of s))"
    using assms sub i unfolding checked_check_rows R by (auto simp: flip_checked)
  moreover have "abs_of (act_handle tr (RowChange i) s) =
      (with_rows (checked_rows (check_rows ?is ?b (cl_rows ?s))) (abs_of s))\<lparr>sl_last := Some i\<rparr>"
    using assms abs_checked [of "checker ?is ?b ?s" s tr]
    by (simp add: act_handle_def row_change_def)
  moreover have "?b \<longleftrightarrow> i \<notin> checked_rows ?rows" using assms by (simp add: checked_rows_def)
  ultimately show ?thesis using assms by (simp add: sel_handle_def)
qed

lemma abs_toggle:
  assumes "act_inv tr s" and "bars_ok s"
  shows "abs_of (act_handle tr ToggleClick s) = sel_handle ToggleClick (abs_of s)"
proof -
  let ?s = "s\<lparr>cl_toggle := \<not> cl_toggle s\<rparr>"
  have "cl_toggle s \<longleftrightarrow> checked_rows (cl_rows s) = {..<length (cl_rows s)}"
    using assms by (simp add: act_inv_def all_checked_def checked_all)
  moreover have "abs_of (act_handle tr ToggleClick s) = with_rows
      (if cl_toggle s then {} else {..<length (cl_rows s)}) (abs_of s)"
    using assms(2) abs_checked [of "checker (all_rows ?s) (cl_toggle ?s) ?s" s tr]
    by (simp add: act_handle_def toggle_click_def all_rows_def)
  ultimately show ?thesis by (simp add: sel_handle_def)
qed

lemma abs_question:
  assumes "bars_ok s"
  shows "abs_of (act_handle tr (QuestionClick k) s) = sel_handle (QuestionClick k) (abs_of s)"
proof (cases "visible (cl_questions s) k")
  case True
  then have "\<exists>v. v \<in> set (cl_across s)"
    using assms by (cases "cl_across s") (auto simp: bars_ok_def visible_def)
  with True assms show ?thesis
    by (simp add: act_handle_def sel_handle_def)
      (simp add: abs_of_def question_click_def showClear_def bars_ok_def)
qed (simp add: act_handle_def sel_handle_def)

lemma abs_clear:
  assumes "act_inv tr s" and "bars_ok s"
  shows "abs_of (act_handle tr (ClearClick k) s) = sel_handle (ClearClick k) (abs_of s)"
proof (cases "visible (cl_clears s) k")
  case True
  let ?t = "checker (all_rows s) False (clearAcross (s\<lparr>cl_toggle := False\<rparr>))"
  have ne: "{} \<noteq> {..<length (cl_rows s)}" using assms(1) by (auto simp: act_inv_def)
  have ok: "bars_ok ?t" using assms(2) by simp
  have "abs_of (act_handle tr (ClearClick k) s) = with_rows {} (abs_of ?t)"
    using True abs_updateCounter [OF ok, of tr]
    by (simp add: act_handle_def clear_click_def all_rows_def)
  also have "\<dots> = sel_handle (ClearClick k) (abs_of s)"
    using True ne by (simp add: sel_handle_def with_rows_def abs_of_def whole_def)
  finally show ?thesis .
qed (simp add: act_handle_def sel_handle_def)

lemma abs_page_show:
  assumes "bars_ok s"
  shows "abs_of (act_handle tr (PageShow bs vs) s) = sel_handle (PageShow bs vs) (abs_of s)"
proof (cases "length bs = length (cl_rows s) \<and> length vs = length (cl_across s)")
  case True
  let ?t = "s\<lparr>cl_rows := restore_rows bs (cl_rows s), cl_across := vs\<rparr>"
  have "bars_ok ?t" using True assms by (simp add: bars_ok_def)
  then show ?thesis
    using True abs_updateCounter [of ?t tr]
    by (simp add: act_handle_def sel_handle_def) (simp add: abs_of_def with_rows_def whole_def restore_rows_def)
qed (auto simp: act_handle_def sel_handle_def)

lemma abs_handle:
  assumes "act_inv tr s" and "bars_ok s"
  shows "abs_of (act_handle tr e s) = sel_handle e (abs_of s)"
proof (cases e)
  case (RowChange i)
  then show ?thesis
    using abs_row_change [OF _ assms(2), of i tr]
    by (cases "i < length (cl_rows s)") (simp_all add: act_handle_def sel_handle_def)
qed (use assms in \<open>simp_all add: abs_toggle abs_question abs_clear abs_page_show\<close>,
    simp_all add: act_handle_def sel_handle_def)

lemma abs_run:
  assumes "act_inv tr s" and "bars_ok s"
  shows "abs_of (fold (act_handle tr) es s) = fold sel_handle es (abs_of s)"
  using assms
  by (induction es arbitrary: s) (simp_all add: abs_handle act_handle_inv bars_ok_handle)

lemma abs_rendered [simp]: "abs_of (rendered n m cnt txt) = unselected n m"
  by (auto simp: abs_of_def rendered_def unselected_def checked_rows_def)

text \<open>
  C23: the page refines the selection, event by event.  Once the page of \<open>n\<close> rows and \<open>m\<close> action
  bars is shown, with the boxes and hidden inputs the browser restores, the rows checked, the
  hidden inputs, the questions and ways back on the page, the row changed last and the shift key
  are, after any sequence of events, those that \<open>sel_handle\<close> computes from the same events: the
  toggle selects the whole page, or nothing when the whole page was selected; the change of a row
  adds or removes that row, with shift the whole span up to the row changed last; the question and
  the way back do something only where they are on the page, the one chooses the objects of all
  pages, the other selects nothing at all; the question is there after every other change of
  the rows exactly when the whole page is selected; and the choice of all pages ends as soon as one
  row is not.
\<close>

theorem actions_refine:
  assumes "n > 0" and "length bs = n" and "length vs = m"
  shows "abs_of (fold (act_handle tr) (PageShow bs vs # es) (rendered n m cnt txt))
    = fold sel_handle (PageShow bs vs # es) (unselected n m)"
proof -
  let ?s = "rendered n m cnt txt"
  have ok: "bars_ok ?s" by (simp add: bars_ok_def rendered_def)
  have inv: "act_inv tr (act_handle tr (PageShow bs vs) ?s)"
    using assms unfolding act_handle_def
    by (auto simp: rendered_def restore_rows_def intro!: updateCounter_inv)
  have "abs_of (act_handle tr (PageShow bs vs) ?s) = sel_handle (PageShow bs vs) (unselected n m)"
    using abs_page_show [OF ok] by simp
  with abs_run [OF inv bars_ok_handle [OF ok]] show ?thesis by simp
qed

theorem actions_refine_witness:
  "checked_rows (cl_rows (fold (act_handle plain_i18n)
      [PageShow [False, True, False, False] [''0''], RowChange 0, KeyDown True, RowChange 3]
      (rendered 4 1 9 []))) = {0, 1, 2, 3}"
proof -
  let ?es = "[RowChange 0, KeyDown True, RowChange 3]" and ?bs = "[False, True, False, False]"
  let ?s = "fold (act_handle plain_i18n) (PageShow ?bs [''0''] # ?es) (rendered 4 1 9 [])"
  have "sl_rows (abs_of ?s) = sl_rows (fold sel_handle (PageShow ?bs [''0''] # ?es) (unselected 4 1))"
    using actions_refine [of 4 ?bs "[''0'']" 1 plain_i18n ?es 9 "[]"] by simp
  also have "\<dots> = {0, 1, 2, 3}"
    by (auto simp: sel_handle_def with_rows_def unselected_def whole_def span_of_def less_Suc_eq
        numeral_eq_Suc)
  finally show ?thesis by simp
qed

end
