(* ===== verification/Popups.thy ===== *)
theory Popups
  imports SelectBox
begin

text \<open>
  The windows of the related-object popups
  (\<open>koded-cli/web/backend/staticfiles/admin/js/admin/RelatedObjectLookups.js\<close>): the names that carry
  the depth of a popup, the windows the browser has open, and \<open>dismissChildPopups\<close>, which calls
  itself through the windows a page has opened.  A window is a number, its place in the list of
  all windows; window 0 is the one the user started in.
\<close>

record window =
  wn_name :: string
  wn_address :: string
  wn_path :: string
  wn_closed :: bool
  wn_ready :: bool
  wn_index :: "int option"
  wn_related :: "nat list"

text \<open>
  \<open>wn_ready\<close>: the page with this script is loaded; until then \<open>win.dismissChildPopups\<close> is not a
  function.  \<open>wn_index\<close> is the page's \<open>popupIndex\<close>, \<open>None\<close> for \<open>NaN\<close>, and \<open>wn_related\<close> its
  \<open>relatedWindows\<close>.
\<close>

subsection \<open>Names\<close>

fun last_index :: "string \<Rightarrow> string \<Rightarrow> nat option" where
  "last_index [] p = (if p = [] then Some 0 else None)"
| "last_index (c # s) p =
     (case last_index s p of
        Some i \<Rightarrow> Some (Suc i)
      | None \<Rightarrow> if starts_with (c # s) p then Some 0 else None)"

text \<open>\<open>name.lastIndexOf('__') + 2\<close>, which is 1 when there is no such place.  \<open>parse_int\<close> reads
  decimal digits, the only ones the names of popups end in.\<close>

definition setPopupIndex :: "bool \<Rightarrow> string \<Rightarrow> int option" where
  "setPopupIndex popup name =
     (if popup
      then parse_int (drop (case last_index name ''__'' of None \<Rightarrow> 1 | Some i \<Rightarrow> i + 2) name)
      else Some 0)"

definition popup_suffix :: "int option \<Rightarrow> string" where
  "popup_suffix i = ''__'' @ (case i of None \<Rightarrow> ''NaN'' | Some n \<Rightarrow> show_int (n + 1))"

definition addPopupIndex :: "int option \<Rightarrow> string \<Rightarrow> string" where
  "addPopupIndex i name = name @ popup_suffix i"

definition ends_with :: "string \<Rightarrow> string \<Rightarrow> bool" where
  "ends_with s t = (length t \<le> length s \<and> drop (length s - length t) s = t)"

definition removePopupIndex :: "int option \<Rightarrow> string \<Rightarrow> string" where
  "removePopupIndex i name =
     (if ends_with name (popup_suffix i) then take (length name - length (popup_suffix i)) name
      else name)"

definition strip_prefix :: "string \<Rightarrow> string \<Rightarrow> string" where
  "strip_prefix p s = (if starts_with s p then drop (length p) s else s)"

text \<open>The expressions \<open>/^lookup_/\<close> and \<open>/^(change|add|delete)_/\<close>.\<close>

definition lookup_name :: "string \<Rightarrow> string" where
  "lookup_name = strip_prefix ''lookup_''"

definition related_name :: "string \<Rightarrow> string" where
  "related_name s =
     (if starts_with s ''change_'' then drop 7 s
      else if starts_with s ''add_'' then drop 4 s
      else if starts_with s ''delete_'' then drop 7 s else s)"

subsection \<open>Windows\<close>

definition new_window :: "string \<Rightarrow> window" where
  "new_window name =
     \<lparr>wn_name = name, wn_address = [], wn_path = [], wn_closed = False, wn_ready = False,
      wn_index = None, wn_related = []\<rparr>"

text \<open>\<open>window.open\<close> with the name of an open window gives that window, else a new one.\<close>

fun find_window :: "string \<Rightarrow> window list \<Rightarrow> nat option" where
  "find_window name [] = None"
| "find_window name (x # ws) =
     (if \<not> wn_closed x \<and> wn_name x = name then Some 0
      else map_option Suc (find_window name ws))"

definition window_open :: "string \<Rightarrow> string \<Rightarrow> window list \<Rightarrow> nat \<times> window list" where
  "window_open href name ws =
     (case find_window name ws of
        Some c \<Rightarrow> (c, ws[c := (ws ! c)\<lparr>wn_address := href\<rparr>])
      | None \<Rightarrow> (length ws, ws @ [(new_window name)\<lparr>wn_address := href\<rparr>]))"

text \<open>
  \<open>showAdminPopup\<close> in the page of window \<open>w\<close>.  The parameters stand for the browser's \<open>URL\<close>:
  \<open>new_url\<close> gives the address, or \<open>None\<close> where the constructor throws, and \<open>set_param\<close> sets a
  parameter of its query.
\<close>

definition showAdminPopup ::
  "(string \<Rightarrow> string option) \<Rightarrow> (string \<Rightarrow> string \<Rightarrow> string \<Rightarrow> string) \<Rightarrow> nat \<Rightarrow> string \<Rightarrow> string
    \<Rightarrow> (string \<Rightarrow> string) \<Rightarrow> bool \<Rightarrow> window list \<Rightarrow> window list option" where
  "showAdminPopup new_url set_param w link_id link_href strip add_popup ws =
     (let name = addPopupIndex (wn_index (ws ! w)) (strip link_id)
      in case new_url link_href of None \<Rightarrow> None
         | Some u \<Rightarrow>
             let href = (if add_popup then set_param u ''_popup'' ''1'' else u);
                 (c, ws1) = window_open href name ws
             in Some (ws1[w := (ws1 ! w)\<lparr>wn_related := wn_related (ws1 ! w) @ [c]\<rparr>]))"

definition showRelatedObjectLookupPopup where
  "showRelatedObjectLookupPopup new_url set_param w link_id link_href ws =
     showAdminPopup new_url set_param w link_id link_href lookup_name True ws"

definition showRelatedObjectPopup where
  "showRelatedObjectPopup new_url set_param w link_id link_href ws =
     showAdminPopup new_url set_param w link_id link_href related_name False ws"

definition close_window :: "nat \<Rightarrow> window list \<Rightarrow> window list" where
  "close_window c ws = ws[c := (ws ! c)\<lparr>wn_closed := True\<rparr>]"

text \<open>
  \<open>dismissChildPopups\<close> of the page of window \<open>w\<close>, with the frames left on the call stack.  It may
  return, throw (a window whose page is not loaded has no such function), or overflow the stack;
  the windows are those at that moment.
\<close>

datatype 'a run = Returns 'a | Throws 'a | Overflow 'a

fun run_state :: "'a run \<Rightarrow> 'a" where
  "run_state (Returns s) = s"
| "run_state (Throws s) = s"
| "run_state (Overflow s) = s"

fun dismissChildPopups :: "nat \<Rightarrow> nat \<Rightarrow> window list \<Rightarrow> window list run"
  and dismiss_each :: "nat \<Rightarrow> nat list \<Rightarrow> window list \<Rightarrow> window list run" where
  "dismissChildPopups 0 w ws = Overflow ws"
| "dismissChildPopups (Suc n) w ws = dismiss_each n (wn_related (ws ! w)) ws"
| "dismiss_each n [] ws = Returns ws"
| "dismiss_each n (c # cs) ws =
     (if wn_closed (ws ! c) then dismiss_each n cs ws
      else if \<not> wn_ready (ws ! c) then Throws ws
      else (case dismissChildPopups n c ws of
              Returns ws1 \<Rightarrow> dismiss_each n cs (close_window c ws1)
            | r \<Rightarrow> r))"

text \<open>The end of every \<open>dismiss\<dots>Popup\<close> function: the popup leaves the list and is closed.\<close>

definition forget_window :: "nat \<Rightarrow> nat \<Rightarrow> window list \<Rightarrow> window list" where
  "forget_window w c ws =
     close_window c (ws[w := (ws ! w)\<lparr>wn_related := remove1 c (wn_related (ws ! w))\<rparr>])"

text \<open>
  What happens to the windows.  A link is clicked in a loaded page; a page is loaded in a window,
  after the page it replaces has been unloaded; \<open>popup\<close> says that the new page has an element
  named \<open>_popup\<close>, which is what \<open>setPopupIndex\<close> asks for; a popup reports to its opener; the user
  closes a window.  \<open>d\<close> is the depth of the call stack.
\<close>

datatype wn_event =
    Click_related nat string string
  | Click_lookup nat string string
  | Load nat bool string
  | Report nat nat
  | Close nat

definition live :: "nat \<Rightarrow> window list \<Rightarrow> bool" where
  "live w ws = (w < length ws \<and> \<not> wn_closed (ws ! w))"

definition unload :: "nat \<Rightarrow> nat \<Rightarrow> window list \<Rightarrow> window list" where
  "unload d w ws = (if wn_ready (ws ! w) then run_state (dismissChildPopups d w ws) else ws)"

definition load_page :: "nat \<Rightarrow> bool \<Rightarrow> string \<Rightarrow> window list \<Rightarrow> window list" where
  "load_page w popup path ws =
     ws[w := (ws ! w)\<lparr>wn_ready := True, wn_path := path, wn_related := [],
                      wn_index := setPopupIndex popup (wn_name (ws ! w))\<rparr>]"

fun wn_handle ::
  "(string \<Rightarrow> string option) \<Rightarrow> (string \<Rightarrow> string \<Rightarrow> string \<Rightarrow> string) \<Rightarrow> nat
    \<Rightarrow> wn_event \<Rightarrow> window list \<Rightarrow> window list" where
  "wn_handle new_url set_param d (Click_related w i h) ws =
     (if live w ws \<and> wn_ready (ws ! w)
      then (case showRelatedObjectPopup new_url set_param w i h ws of
              None \<Rightarrow> ws | Some ws1 \<Rightarrow> ws1)
      else ws)"
| "wn_handle new_url set_param d (Click_lookup w i h) ws =
     (if live w ws \<and> wn_ready (ws ! w)
      then (case showRelatedObjectLookupPopup new_url set_param w i h ws of
              None \<Rightarrow> ws | Some ws1 \<Rightarrow> ws1)
      else ws)"
| "wn_handle new_url set_param d (Load w popup path) ws =
     (if live w ws then load_page w popup path (unload d w ws) else ws)"
| "wn_handle new_url set_param d (Report w c) ws =
     (if live w ws \<and> live c ws \<and> wn_ready (ws ! w) then unload d c (forget_window w c ws) else ws)"
| "wn_handle new_url set_param d (Close w) ws =
     (if live w ws then close_window w (unload d w ws) else ws)"

definition main_window :: "window" where
  "main_window = (new_window [])\<lparr>wn_ready := True, wn_index := Some 0\<rparr>"

subsection \<open>Names: the depth is read back, the field is found again\<close>

lemma last_index_none: "CHR ''_'' \<notin> set s \<Longrightarrow> last_index s ''__'' = None"
  by (induction s) (auto simp: starts_with_def)

lemma last_index_name: "CHR ''_'' \<notin> set s \<Longrightarrow> last_index (n @ ''__'' @ s) ''__'' = Some (length n)"
proof (induction n)
  case Nil
  then have "last_index s ''__'' = None" by (rule last_index_none)
  moreover have "\<not> starts_with (CHR ''_'' # s) ''__''"
    using Nil by (cases s) (auto simp: starts_with_def)
  ultimately show ?case by (simp add: starts_with_def)
qed simp

lemma show_nat_no_underscore: "CHR ''_'' \<notin> set (show_nat n)"
  using show_nat_digits [of "CHR ''_''" n] by (auto simp: is_digit_def)

lemma popup_suffix_nat: "popup_suffix (Some (int k)) = ''__'' @ show_nat (Suc k)"
proof -
  have "nat (int k + 1) = Suc k" by simp
  then show ?thesis by (simp add: popup_suffix_def show_int_def)
qed

lemma index_of_added:
  "setPopupIndex True (addPopupIndex (Some (int k)) n) = Some (int (Suc k))"
  unfolding setPopupIndex_def addPopupIndex_def popup_suffix_nat
  by (simp only: last_index_name [OF show_nat_no_underscore]) simp

lemma added_not_empty [simp]: "addPopupIndex i n \<noteq> []"
  by (simp add: addPopupIndex_def popup_suffix_def)

lemma remove_added: "removePopupIndex i (addPopupIndex i n) = n"
  by (simp add: removePopupIndex_def addPopupIndex_def ends_with_def)

lemma remove_added_inj: "addPopupIndex i m = addPopupIndex i n \<longleftrightarrow> m = n"
  by (metis remove_added)

subsection \<open>What the browser's windows keep\<close>

text \<open>
  The depth of a window: 0 for the first, else what its name says.  Every loaded page knows the
  depth of its window, and it has opened windows one level deeper only.
\<close>

definition depth_of :: "nat \<Rightarrow> window \<Rightarrow> int option" where
  "depth_of w x = (if w = 0 then Some 0 else setPopupIndex True (wn_name x))"

definition window_ok :: "window list \<Rightarrow> nat \<Rightarrow> bool" where
  "window_ok ws w \<longleftrightarrow>
     (\<exists>k. depth_of w (ws ! w) = Some (int k))
     \<and> (wn_ready (ws ! w) \<longrightarrow> wn_index (ws ! w) = depth_of w (ws ! w))
     \<and> (wn_related (ws ! w) \<noteq> [] \<longrightarrow> wn_ready (ws ! w))
     \<and> (\<forall>c \<in> set (wn_related (ws ! w)).
          c < length ws \<and> c \<noteq> 0
          \<and> depth_of c (ws ! c) = map_option (\<lambda>i. i + 1) (depth_of w (ws ! w)))"

definition windows_ok :: "window list \<Rightarrow> bool" where
  "windows_ok ws \<longleftrightarrow> ws \<noteq> [] \<and> wn_name (ws ! 0) = [] \<and> (\<forall>w < length ws. window_ok ws w)"

text \<open>Dismissing changes nothing but which windows are closed.\<close>

definition reopened :: "window list \<Rightarrow> window list" where
  "reopened ws = map (\<lambda>x. x\<lparr>wn_closed := False\<rparr>) ws"

lemma reopened_close [simp]: "reopened (close_window c ws) = reopened ws"
  by (cases "c < length ws") (auto simp: reopened_def close_window_def map_update list_update_beyond
      intro!: nth_equalityI simp: nth_list_update)

lemma reopened_length: "reopened ws = reopened vs \<Longrightarrow> length ws = length vs"
  unfolding reopened_def by (rule map_eq_imp_length_eq)

lemma reopened_nth:
  assumes "reopened ws = reopened vs" and "w < length ws"
  shows "(ws ! w)\<lparr>wn_closed := False\<rparr> = (vs ! w)\<lparr>wn_closed := False\<rparr>"
proof -
  have "reopened ws ! w = reopened vs ! w" using assms(1) by simp
  then show ?thesis using assms(2) reopened_length [OF assms(1)] by (simp add: reopened_def)
qed

lemma reopened_fields:
  assumes "reopened ws = reopened vs" and "w < length ws"
  shows "wn_related (ws ! w) = wn_related (vs ! w)" "wn_ready (ws ! w) = wn_ready (vs ! w)"
    "wn_name (ws ! w) = wn_name (vs ! w)" "wn_index (ws ! w) = wn_index (vs ! w)"
  using reopened_nth [OF assms] by (metis window.select_convs window.surjective window.update_convs)+

lemma dismiss_reopened:
  "reopened (run_state (dismissChildPopups n w ws)) = reopened ws"
  "reopened (run_state (dismiss_each n cs ws)) = reopened ws"
proof (induction n w ws and n cs ws rule: dismissChildPopups_dismiss_each.induct)
  case (4 n c cs ws)
  show ?case
  proof (cases "dismissChildPopups n c ws")
    case (Returns ws1)
    with 4 show ?thesis by auto
  qed (use 4 in auto)
qed auto

lemma windows_ok_reopened:
  assumes "windows_ok ws" and r: "reopened vs = reopened ws"
  shows "windows_ok vs"
proof -
  have len: "length vs = length ws" using r by (rule reopened_length)
  then have d: "w < length ws \<Longrightarrow> depth_of w (vs ! w) = depth_of w (ws ! w)" for w
    using reopened_fields(3) [OF r, of w] by (simp add: depth_of_def)
  have "window_ok vs w" if "w < length ws" for w
    using assms(1) that len unfolding windows_ok_def window_ok_def
    by (auto simp: d reopened_fields [OF r])
  then show ?thesis
    using assms(1) len reopened_fields(3) [OF r, of 0] by (auto simp: windows_ok_def)
qed

subsection \<open>Dismissing the popups of a page\<close>

text \<open>The popups a page answers for: what it opened and is still open, and theirs in turn.\<close>

inductive child_popup :: "window list \<Rightarrow> nat \<Rightarrow> nat \<Rightarrow> bool" for ws where
  child_direct: "c \<in> set (wn_related (ws ! w)) \<Longrightarrow> live c ws \<Longrightarrow> child_popup ws w c"
| child_nested: "c \<in> set (wn_related (ws ! w)) \<Longrightarrow> live c ws \<Longrightarrow> child_popup ws c e
    \<Longrightarrow> child_popup ws w e"

text \<open>The windows that lie deeper than a depth: each call goes to one of them.\<close>

definition deeper :: "window list \<Rightarrow> int \<Rightarrow> nat set" where
  "deeper ws i = {c. c < length ws \<and> (\<exists>k. depth_of c (ws ! c) = Some k \<and> i < k)}"

lemma finite_deeper [simp]: "finite (deeper ws i)"
  by (simp add: deeper_def)

lemma deeper_less:
  assumes "c < length ws" and "depth_of c (ws ! c) = Some (i + 1)"
  shows "card (deeper ws (i + 1)) < card (deeper ws i)"
proof (rule psubset_card_mono)
  have "c \<in> deeper ws i" "c \<notin> deeper ws (i + 1)" using assms by (auto simp: deeper_def)
  moreover have "deeper ws (i + 1) \<subseteq> deeper ws i" by (force simp: deeper_def)
  ultimately show "deeper ws (i + 1) \<subset> deeper ws i" by blast
qed simp

lemma deeper_reopened:
  assumes "reopened vs = reopened ws"
  shows "deeper vs i = deeper ws i"
proof -
  have len: "length vs = length ws" using assms by (rule reopened_length)
  have "c < length ws \<Longrightarrow> depth_of c (vs ! c) = depth_of c (ws ! c)" for c
    using reopened_fields(3) [OF assms, of c] len by (simp add: depth_of_def)
  then show ?thesis by (auto simp: deeper_def len)
qed

fun overflown :: "'a run \<Rightarrow> bool" where
  "overflown (Overflow s) = True"
| "overflown r = False"

text \<open>Windows one level below a page of depth \<open>i\<close>.\<close>

definition level_below :: "window list \<Rightarrow> int \<Rightarrow> nat list \<Rightarrow> bool" where
  "level_below ws i cs \<longleftrightarrow>
     (\<forall>c \<in> set cs. c < length ws \<and> depth_of c (ws ! c) = Some (i + 1))"

lemma level_below_Cons [simp]:
  "level_below ws i (c # cs) \<longleftrightarrow>
     c < length ws \<and> depth_of c (ws ! c) = Some (i + 1) \<and> level_below ws i cs"
  "level_below ws i []"
  by (auto simp: level_below_def)

lemma level_below_reopened:
  assumes "reopened vs = reopened ws" and "level_below ws i cs"
  shows "level_below vs i cs"
  using assms reopened_length [OF assms(1)] reopened_fields(3) [OF assms(1)]
  by (auto simp: level_below_def depth_of_def)

lemma related_level_below:
  assumes "windows_ok ws" and "w < length ws" and "depth_of w (ws ! w) = Some i"
  shows "level_below ws i (wn_related (ws ! w))"
  using assms by (auto simp: windows_ok_def window_ok_def level_below_def)

lemma dismiss_each_depth:
  assumes "windows_ok ws" and "level_below ws i cs" and "card (deeper ws i) \<le> n"
  shows "\<not> overflown (dismiss_each n cs ws)"
  using assms
proof (induction n arbitrary: i cs ws)
  case 0
  show ?case
  proof (cases cs)
    case (Cons c cs')
    with 0 have "c \<in> deeper ws i" by (simp add: deeper_def)
    moreover have "deeper ws i = {}" using 0(3) by simp
    ultimately show ?thesis by blast
  qed simp
next
  case (Suc n)
  note outer = Suc.IH
  from Suc.prems show ?case
  proof (induction cs arbitrary: ws)
    case (Cons c cs)
    then have c: "c < length ws" "depth_of c (ws ! c) = Some (i + 1)" by auto
    show ?case
    proof (cases "wn_closed (ws ! c) \<or> \<not> wn_ready (ws ! c)")
      case True
      with Cons show ?thesis by auto
    next
      case False
      let ?r = "dismissChildPopups (Suc n) c ws"
      have "\<not> overflown ?r"
        using outer [OF Cons.prems(1) related_level_below [OF Cons.prems(1) c]]
          deeper_less [OF c] Cons.prems(3) by simp
      moreover have "\<not> overflown (dismiss_each (Suc n) cs (close_window c ws1))"
        if "?r = Returns ws1" for ws1
      proof -
        have "reopened (close_window c ws1) = reopened ws"
          unfolding reopened_close
          using dismiss_reopened(1) [of "Suc n" c ws] unfolding that run_state.simps .
        note same = this
        have "level_below ws i cs" using Cons.prems(2) by simp
        note le = level_below_reopened [OF same this]
        show ?thesis
          by (rule Cons.IH [OF windows_ok_reopened [OF Cons.prems(1) same] le])
            (use Cons.prems(3) deeper_reopened [OF same] in simp)
      qed
      ultimately show ?thesis using False by (cases ?r) auto
    qed
  qed simp
qed

text \<open>A stack as deep as there are windows is enough.\<close>

lemma dismiss_depth:
  assumes "windows_ok ws" and "w < length ws" and "length ws \<le> d"
  shows "\<not> overflown (dismissChildPopups d w ws)"
proof -
  obtain i where i: "depth_of w (ws ! w) = Some i"
    using assms(1,2) by (auto simp: windows_ok_def window_ok_def)
  have "deeper ws i \<subseteq> {..<length ws}" "w \<notin> deeper ws i"
    using i by (auto simp: deeper_def)
  then have "deeper ws i \<subset> {..<length ws}" using assms(2) by blast
  then have less: "card (deeper ws i) < length ws"
    using psubset_card_mono [of "{..<length ws}"] by simp
  then obtain n where "d = Suc n" "card (deeper ws i) \<le> n" using assms(3) by (cases d) auto
  then show ?thesis
    using dismiss_each_depth [OF assms(1) related_level_below [OF assms(1,2) i]] by simp
qed

text \<open>Which windows it closes.\<close>

definition below :: "window list \<Rightarrow> nat list \<Rightarrow> nat \<Rightarrow> bool" where
  "below ws cs x \<longleftrightarrow> (\<exists>c \<in> set cs. live c ws \<and> (x = c \<or> child_popup ws c x))"

lemma child_popup_below: "child_popup ws w x \<longleftrightarrow> below ws (wn_related (ws ! w)) x"
  unfolding below_def by (subst child_popup.simps) blast

lemma below_Cons: "below ws (c # cs) x \<longleftrightarrow> live c ws \<and> (x = c \<or> child_popup ws c x) \<or> below ws cs x"
  by (auto simp: below_def)

lemma child_popup_live: "child_popup ws w x \<Longrightarrow> live x ws"
  by (induction rule: child_popup.induct)

lemma below_live: "below ws cs x \<Longrightarrow> live x ws"
  by (auto simp: below_def child_popup_live)

text \<open>The order between the windows before and after a dismissal.\<close>

definition fewer :: "window list \<Rightarrow> window list \<Rightarrow> bool" where
  "fewer vs ws \<longleftrightarrow> reopened vs = reopened ws \<and> (\<forall>x. live x vs \<longrightarrow> live x ws)"

lemma fewer_refl [simp]: "fewer ws ws"
  by (simp add: fewer_def)

lemma fewer_reopened: "fewer vs ws \<Longrightarrow> reopened vs = reopened ws"
  by (simp add: fewer_def)

lemma fewer_live: "fewer vs ws \<Longrightarrow> live x vs \<Longrightarrow> live x ws"
  by (simp add: fewer_def)

lemma fewer_trans: "fewer us vs \<Longrightarrow> fewer vs ws \<Longrightarrow> fewer us ws"
  unfolding fewer_def by metis

lemma live_close [simp]: "live x (close_window c ws) \<longleftrightarrow> live x ws \<and> x \<noteq> c"
  by (cases "x = c") (auto simp: live_def close_window_def)

lemma fewer_close: "fewer vs ws \<Longrightarrow> fewer (close_window c vs) ws"
  unfolding fewer_def by simp

lemma fewer_related:
  assumes "fewer vs ws" and "live x vs"
  shows "wn_related (vs ! x) = wn_related (ws ! x)" "wn_ready (vs ! x) = wn_ready (ws ! x)"
  using reopened_fields [OF fewer_reopened [OF assms(1)]] assms(2) by (simp_all add: live_def)

lemma child_popup_fewer:
  assumes "child_popup vs w x" and "fewer vs ws" and "live w vs"
  shows "child_popup ws w x"
  using assms
proof (induction rule: child_popup.induct)
  case (child_direct c w)
  then show ?case by (metis child_popup.child_direct fewer_live fewer_related(1))
next
  case (child_nested c w e)
  then show ?case by (metis child_popup.child_nested fewer_live fewer_related(1))
qed

lemma below_fewer: "below vs cs x \<Longrightarrow> fewer vs ws \<Longrightarrow> below ws cs x"
  unfolding below_def using child_popup_fewer fewer_live by blast

lemma dismiss_fewer:
  "fewer (run_state (dismissChildPopups n w ws)) ws"
  "fewer (run_state (dismiss_each n cs ws)) ws"
proof (induction n w ws and n cs ws rule: dismissChildPopups_dismiss_each.induct)
  case (4 n c cs ws)
  show ?case
  proof (cases "dismissChildPopups n c ws")
    case (Returns ws1)
    show ?thesis
    proof (cases "wn_closed (ws ! c) \<or> \<not> wn_ready (ws ! c)")
      case False
      with 4 Returns show ?thesis by (auto intro: fewer_trans fewer_close)
    qed (use 4 in auto)
  qed (use 4 in auto)
qed auto

text \<open>
  When it returns, what it was called for is closed, and so is what the windows it closed had
  opened; it closes nothing else, and it throws only at a page below that is not loaded.
\<close>

lemma dismiss_complete:
  "dismissChildPopups n w ws = Returns vs \<Longrightarrow>
     (\<forall>c \<in> set (wn_related (ws ! w)). \<not> live c vs)
     \<and> (\<forall>x y. live x ws \<longrightarrow> \<not> live x vs \<longrightarrow> y \<in> set (wn_related (ws ! x)) \<longrightarrow> \<not> live y vs)"
  "dismiss_each n cs ws = Returns vs \<Longrightarrow>
     (\<forall>c \<in> set cs. \<not> live c vs)
     \<and> (\<forall>x y. live x ws \<longrightarrow> \<not> live x vs \<longrightarrow> y \<in> set (wn_related (ws ! x)) \<longrightarrow> \<not> live y vs)"
proof (induction n w ws and n cs ws arbitrary: vs and vs
    rule: dismissChildPopups_dismiss_each.induct)
  case (4 n c cs ws)
  show ?case
  proof (cases "wn_closed (ws ! c)")
    case True
    have "\<not> live c vs"
      using dismiss_fewer(2) [of n "c # cs" ws] fewer_live [of vs ws c]
      unfolding 4(4) run_state.simps by (auto simp: live_def True)
    moreover have "dismiss_each n cs ws = Returns vs" using 4(4) True by simp
    note 4(1) [OF True this]
    ultimately show ?thesis by auto
  next
    case False
    with 4(4) obtain ws1 where r: "wn_ready (ws ! c)" "dismissChildPopups n c ws = Returns ws1"
      and e: "dismiss_each n cs (close_window c ws1) = Returns vs"
      by (auto split: if_splits run.splits)
    note IH1 = 4(2) [OF False _ r(2)] and IH2 = 4(3) [OF False _ r(2) e]
    have f1: "fewer ws1 ws" using dismiss_fewer(1) [of n c ws] r(2) by simp
    have f2: "fewer vs (close_window c ws1)"
      using dismiss_fewer(2) [of n cs "close_window c ws1"] e by simp
    show ?thesis
    proof (intro conjI allI impI ballI)
      fix x assume "x \<in> set (c # cs)"
      then show "\<not> live x vs" using IH2 r(1) fewer_live [OF f2, of c] by auto
    next
      fix x y assume x: "live x ws" "\<not> live x vs" and y: "y \<in> set (wn_related (ws ! x))"
      have m: "\<not> live y ws1 \<Longrightarrow> \<not> live y vs" using fewer_live [OF f2, of y] by auto
      show "\<not> live y vs"
      proof (cases "x = c \<or> \<not> live x ws1")
        case True
        then show ?thesis using IH1 r(1) x y m by blast
      next
        case False
        then have "wn_related (close_window c ws1 ! x) = wn_related (ws ! x)"
          using fewer_related(1) [OF f1, of x] by (simp add: close_window_def)
        then show ?thesis using IH2 r(1) False x(2) y by auto
      qed
    qed
  qed
qed auto

definition in_range :: "window list \<Rightarrow> nat list \<Rightarrow> bool" where
  "in_range ws cs \<longleftrightarrow> (\<forall>c \<in> set cs. c < length ws)"

lemma in_range_Cons [simp]: "in_range ws (c # cs) \<longleftrightarrow> c < length ws \<and> in_range ws cs" "in_range ws []"
  by (auto simp: in_range_def)

lemma in_range_related: "windows_ok ws \<Longrightarrow> w < length ws \<Longrightarrow> in_range ws (wn_related (ws ! w))"
  by (auto simp: windows_ok_def window_ok_def in_range_def)

lemma in_range_reopened: "reopened vs = reopened ws \<Longrightarrow> in_range vs cs = in_range ws cs"
  using reopened_length [of vs ws] by (simp add: in_range_def)

text \<open>One round of the loop, on a window that is open and loaded.\<close>

lemma dismiss_each_step:
  assumes "windows_ok ws" and "c < length ws" and "\<not> wn_closed (ws ! c)" and "wn_ready (ws ! c)"
    and "dismissChildPopups n c ws = Returns ws1"
  shows "fewer (close_window c ws1) ws" "windows_ok (close_window c ws1)" "live c ws"
    "dismiss_each n (c # cs) ws = dismiss_each n cs (close_window c ws1)"
proof -
  have "fewer ws1 ws" using dismiss_fewer(1) [of n c ws] assms(5) by simp
  then show "fewer (close_window c ws1) ws" by (rule fewer_close)
  then show "windows_ok (close_window c ws1)"
    by (intro windows_ok_reopened [OF assms(1)]) (simp add: fewer_def)
qed (use assms in \<open>simp_all add: live_def\<close>)

lemma dismiss_closes:
  assumes "(\<forall>c \<in> set (wn_related (ws ! w)). \<not> live c vs)
     \<and> (\<forall>x y. live x ws \<longrightarrow> \<not> live x vs \<longrightarrow> y \<in> set (wn_related (ws ! x)) \<longrightarrow> \<not> live y vs)"
    and "child_popup ws w x"
  shows "\<not> live x vs"
  using assms(2,1) by (induction rule: child_popup.induct) blast+

lemma dismiss_sound:
  "windows_ok ws \<Longrightarrow> w < length ws \<Longrightarrow> live x ws
     \<Longrightarrow> \<not> live x (run_state (dismissChildPopups n w ws)) \<Longrightarrow> child_popup ws w x"
  "windows_ok ws \<Longrightarrow> in_range ws cs \<Longrightarrow> live x ws
     \<Longrightarrow> \<not> live x (run_state (dismiss_each n cs ws)) \<Longrightarrow> below ws cs x"
proof (induction n w ws and n cs ws rule: dismissChildPopups_dismiss_each.induct)
  case (2 n w ws)
  then show ?case by (simp add: child_popup_below in_range_related)
next
  case (4 n c cs ws)
  then have c: "c < length ws" by simp
  show ?case
  proof (cases "wn_closed (ws ! c) \<or> \<not> wn_ready (ws ! c)")
    case True
    with 4 show ?thesis by (cases "wn_closed (ws ! c)") (simp_all add: below_Cons)
  next
    case False
    then have o: "\<not> wn_closed (ws ! c)" "\<not> \<not> wn_ready (ws ! c)" by auto
    then have l: "live c ws" using c by (simp add: live_def)
    show ?thesis
    proof (cases "x = c \<or> \<not> live x (run_state (dismissChildPopups n c ws))")
      case True
      then show ?thesis
        using 4(2) [OF o 4(4) c 4(6)] l by (auto simp: below_Cons)
    next
      case x: False
      show ?thesis
      proof (cases "dismissChildPopups n c ws")
        case (Returns ws1)
        note s = dismiss_each_step [OF 4(4) c o(1) _ Returns]
        have "below (close_window c ws1) cs x"
          using x 4 o s(1,2,4) Returns
          by (intro 4(3) [OF o Returns s(2)]) (auto simp: in_range_reopened [OF fewer_reopened [OF s(1)]])
        then show ?thesis using s(1) o by (auto simp: below_Cons intro: below_fewer)
      qed (use 4 o x in auto)
    qed
  qed
qed auto

fun thrown :: "'a run \<Rightarrow> bool" where
  "thrown (Throws s) = True"
| "thrown r = False"

lemma dismiss_throws:
  "windows_ok ws \<Longrightarrow> w < length ws \<Longrightarrow> thrown (dismissChildPopups n w ws)
     \<Longrightarrow> \<exists>x. child_popup ws w x \<and> \<not> wn_ready (ws ! x)"
  "windows_ok ws \<Longrightarrow> in_range ws cs \<Longrightarrow> thrown (dismiss_each n cs ws)
     \<Longrightarrow> \<exists>x. below ws cs x \<and> \<not> wn_ready (ws ! x)"
proof (induction n w ws and n cs ws rule: dismissChildPopups_dismiss_each.induct)
  case (2 n w ws)
  then show ?case by (simp add: child_popup_below in_range_related)
next
  case (4 n c cs ws)
  then have c: "c < length ws" by simp
  show ?case
  proof (cases "wn_closed (ws ! c) \<or> \<not> wn_ready (ws ! c)")
    case True
    with 4 show ?thesis
      by (cases "wn_closed (ws ! c)") (auto simp: below_Cons live_def)
  next
    case False
    then have o: "\<not> wn_closed (ws ! c)" "\<not> \<not> wn_ready (ws ! c)" by auto
    then have l: "live c ws" using c by (simp add: live_def)
    show ?thesis
    proof (cases "dismissChildPopups n c ws")
      case (Returns ws1)
      note s = dismiss_each_step [OF 4(4) c o(1) _ Returns]
      obtain x where x: "below (close_window c ws1) cs x" "\<not> wn_ready (close_window c ws1 ! x)"
        using 4(5,6) o s Returns 4(3) [OF o Returns s(2)]
        by (auto simp: in_range_reopened [OF fewer_reopened [OF s(1)]])
      then have b: "below ws cs x" using s(1) o by (auto intro: below_fewer)
      have "\<not> wn_ready (ws ! x)"
        using x below_live [OF x(1)] s(1) o
        by (auto simp: fewer_related)
      with b show ?thesis by (auto simp: below_Cons)
    next
      case (Throws s)
      then show ?thesis using 4(2) [OF o 4(4) c] l by (auto simp: below_Cons)
    qed (use 4 o in auto)
  qed
qed auto

subsection \<open>Every run of the browser keeps the levels\<close>

lemma windows_ok_update:
  assumes "windows_ok ws" and "w < length ws" and "wn_name x = wn_name (ws ! w)"
    and "wn_ready x \<longrightarrow> wn_index x = depth_of w (ws ! w)"
    and "wn_related x \<noteq> [] \<longrightarrow> wn_ready x"
    and "\<forall>c \<in> set (wn_related x). c < length ws \<and> c \<noteq> 0
           \<and> depth_of c (ws ! c) = map_option (\<lambda>i. i + 1) (depth_of w (ws ! w))"
  shows "windows_ok (ws[w := x])"
proof -
  have d: "depth_of v (ws[w := x] ! v) = depth_of v (ws ! v)" for v
    using assms(2,3) by (cases "v = w") (simp_all add: depth_of_def)
  have "window_ok (ws[w := x]) v" if v: "v < length ws" for v
  proof (cases "v = w")
    case True
    have "\<exists>k. depth_of w (ws ! w) = Some (int k)"
      using assms(1,2) by (auto simp: windows_ok_def window_ok_def)
    then show ?thesis unfolding window_ok_def d True using assms(2,4-6) by simp
  next
    case False
    have "window_ok ws v" using assms(1) v by (simp add: windows_ok_def)
    then show ?thesis unfolding window_ok_def d using False by simp
  qed
  moreover have "wn_name (ws[w := x] ! 0) = []"
    using assms(1,3) by (cases "w = 0") (auto simp: windows_ok_def nth_list_update)
  ultimately show ?thesis using assms(1) by (simp add: windows_ok_def)
qed

lemma windows_ok_append:
  assumes "windows_ok ws" and "\<exists>k. setPopupIndex True (wn_name x) = Some (int k)"
    and "\<not> wn_ready x" and "wn_related x = []"
  shows "windows_ok (ws @ [x])"
proof -
  have ne: "ws \<noteq> []" using assms(1) by (simp add: windows_ok_def)
  have "window_ok (ws @ [x]) v" if "v < length ws" for v
  proof -
    have "window_ok ws v" using assms(1) that by (simp add: windows_ok_def)
    then show ?thesis using that by (fastforce simp: window_ok_def nth_append)
  qed
  moreover have "window_ok (ws @ [x]) (length ws)"
    using assms ne by (auto simp: window_ok_def depth_of_def)
  ultimately show ?thesis
    using assms(1) ne by (auto simp: windows_ok_def nth_append less_Suc_eq)
qed

lemma window_ok_of: "windows_ok ws \<Longrightarrow> w < length ws \<Longrightarrow> window_ok ws w"
  by (simp add: windows_ok_def)

lemma windows_ok_close: "windows_ok ws \<Longrightarrow> windows_ok (close_window c ws)"
  by (rule windows_ok_reopened) simp_all

lemma reopened_unload: "reopened (unload d w ws) = reopened ws"
  by (simp add: unload_def dismiss_reopened)

lemma windows_ok_unload: "windows_ok ws \<Longrightarrow> windows_ok (unload d w ws)"
  by (rule windows_ok_reopened) (simp_all add: reopened_unload)

lemma windows_ok_forget:
  assumes "windows_ok ws" and "w < length ws"
  shows "windows_ok (forget_window w c ws)"
  unfolding forget_window_def
proof (intro windows_ok_close windows_ok_update [OF assms])
  show "\<forall>e \<in> set (wn_related ((ws ! w)\<lparr>wn_related := remove1 c (wn_related (ws ! w))\<rparr>)).
      e < length ws \<and> e \<noteq> 0 \<and> depth_of e (ws ! e) = map_option (\<lambda>i. i + 1) (depth_of w (ws ! w))"
    using window_ok_of [OF assms] set_remove1_subset [of c "wn_related (ws ! w)"]
    by (auto simp: window_ok_def)
qed (use window_ok_of [OF assms] in \<open>auto simp: window_ok_def\<close>)

lemma windows_ok_load:
  assumes "windows_ok ws" and "w < length ws" and "popup = (w \<noteq> 0)"
  shows "windows_ok (load_page w popup path ws)"
  unfolding load_page_def
  by (rule windows_ok_update [OF assms(1,2)])
    (simp_all add: depth_of_def assms(3) setPopupIndex_def)

lemma find_window_sound:
  "find_window name ws = Some c \<Longrightarrow> live c ws \<and> wn_name (ws ! c) = name"
  by (induction ws arbitrary: c) (auto simp: live_def split: if_splits)

lemma windows_ok_open:
  assumes "windows_ok ws" and "window_open href name ws = (c, vs)"
    and "setPopupIndex True name = Some (int k)" and "name \<noteq> []"
  shows "windows_ok vs" "c < length vs" "c \<noteq> 0" "wn_name (vs ! c) = name"
    "\<And>v. v < length ws \<Longrightarrow> (vs ! v)\<lparr>wn_address := []\<rparr> = (ws ! v)\<lparr>wn_address := []\<rparr>"
    "length ws \<le> length vs"
proof -
  have ne: "ws \<noteq> []" "wn_name (ws ! 0) = []" using assms(1) by (auto simp: windows_ok_def)
  have "windows_ok vs \<and> c < length vs \<and> c \<noteq> 0 \<and> wn_name (vs ! c) = name
    \<and> (\<forall>v < length ws. (vs ! v)\<lparr>wn_address := []\<rparr> = (ws ! v)\<lparr>wn_address := []\<rparr>)
    \<and> length ws \<le> length vs"
  proof (cases "find_window name ws")
    case None
    then have "c = length ws" "vs = ws @ [(new_window name)\<lparr>wn_address := href\<rparr>]"
      using assms(2) by (auto simp: window_open_def)
    then show ?thesis
      using ne windows_ok_append [OF assms(1)] assms(3)
      by (simp add: new_window_def nth_append)
  next
    case (Some e)
    then have c: "c = e" and vs: "vs = ws[c := (ws ! c)\<lparr>wn_address := href\<rparr>]"
      using assms(2) by (auto simp: window_open_def)
    have e: "c < length ws" "wn_name (ws ! c) = name"
      using find_window_sound [OF Some] c by (auto simp: live_def)
    have "windows_ok vs"
      unfolding vs using window_ok_of [OF assms(1) e(1)]
      by (intro windows_ok_update [OF assms(1) e(1)]) (auto simp: window_ok_def)
    moreover have "c \<noteq> 0" using e(2) ne(2) assms(4) by metis
    ultimately show ?thesis using e by (simp add: vs nth_list_update)
  qed
  then show "windows_ok vs" "c < length vs" "c \<noteq> 0" "wn_name (vs ! c) = name"
    "\<And>v. v < length ws \<Longrightarrow> (vs ! v)\<lparr>wn_address := []\<rparr> = (ws ! v)\<lparr>wn_address := []\<rparr>"
    "length ws \<le> length vs"
    by blast+
qed

lemma windows_ok_show:
  assumes "windows_ok ws" and w: "w < length ws" and "wn_ready (ws ! w)"
    and s: "showAdminPopup new_url set_param w i h strip add_popup ws = Some us"
  shows "windows_ok us"
proof -
  obtain k where k: "depth_of w (ws ! w) = Some (int k)" "wn_index (ws ! w) = Some (int k)"
    using window_ok_of [OF assms(1) w] assms(3) by (auto simp: window_ok_def)
  define name where "name = addPopupIndex (wn_index (ws ! w)) (strip i)"
  have n: "setPopupIndex True name = Some (int (Suc k))" "name \<noteq> []"
    by (simp_all add: name_def k(2) index_of_added del: of_nat_Suc)
  obtain href c vs where o: "window_open href name ws = (c, vs)"
    and us: "us = vs[w := (vs ! w)\<lparr>wn_related := wn_related (vs ! w) @ [c]\<rparr>]"
    using s by (auto simp: showAdminPopup_def name_def [symmetric] Let_def
        split: option.splits prod.splits)
  note op = windows_ok_open [OF assms(1) o n]
  have same: "(vs ! w)\<lparr>wn_address := []\<rparr> = (ws ! w)\<lparr>wn_address := []\<rparr>" by (rule op(5) [OF w])
  have "depth_of w (vs ! w) = depth_of w (ws ! w)"
    using arg_cong [OF same, of wn_name] by (simp add: depth_of_def)
  then have v: "wn_ready (vs ! w)" "depth_of w (vs ! w) = Some (int k)"
    using assms(3) k(1) arg_cong [OF same, of wn_ready] by simp_all
  have wv: "w < length vs" using w op(6) by simp
  note ok = window_ok_of [OF op(1) wv]
  show ?thesis unfolding us
    by (rule windows_ok_update [OF op(1) wv])
      (use ok v op(2,3,4) n(1) in \<open>auto simp: window_ok_def depth_of_def\<close>)
qed

text \<open>Popups hold popup pages, and the first window does not.\<close>

fun page_marked :: "wn_event \<Rightarrow> bool" where
  "page_marked (Load w popup path) = (popup = (w \<noteq> 0))"
| "page_marked e = True"

lemma windows_ok_handle:
  assumes "windows_ok ws" and "page_marked e"
  shows "windows_ok (wn_handle new_url set_param d e ws)"
proof (cases e)
  case (Load w popup path)
  have "length (unload d w ws) = length ws" by (rule reopened_length [OF reopened_unload])
  then show ?thesis
    using assms Load by (auto simp: live_def intro!: windows_ok_load windows_ok_unload)
qed (use assms in \<open>auto simp: live_def showRelatedObjectPopup_def showRelatedObjectLookupPopup_def
      intro: windows_ok_show windows_ok_close windows_ok_unload windows_ok_forget
      split: option.splits\<close>)

lemma windows_ok_run:
  "windows_ok ws \<Longrightarrow> list_all page_marked es
     \<Longrightarrow> windows_ok (fold (wn_handle new_url set_param d) es ws)"
  by (induction es arbitrary: ws) (auto intro: windows_ok_handle)

lemma windows_ok_start: "windows_ok [main_window]"
  by (simp add: windows_ok_def window_ok_def main_window_def new_window_def depth_of_def
      exI [of _ 0])

lemma child_popup_not_main: "child_popup ws w x \<Longrightarrow> windows_ok ws \<Longrightarrow> w < length ws \<Longrightarrow> x \<noteq> 0"
  by (induction rule: child_popup.induct) (auto simp: windows_ok_def window_ok_def live_def)

text \<open>
  C8: leaving a page closes its popups.  Whatever links the user followed and whatever pages were
  loaded, if every popup holds a popup page and the pages below this one are loaded,
  \<open>dismissChildPopups\<close> returns, with a call stack no deeper than there are windows; the windows it
  closes are exactly the popups the page has opened, the ones they have opened, and so on.
\<close>

theorem popups_dismissed:
  assumes "list_all page_marked es" and "ws = fold (wn_handle new_url set_param d) es [main_window]"
    and "w < length ws" and "length ws \<le> n"
    and "\<forall>c. child_popup ws w c \<longrightarrow> wn_ready (ws ! c)"
  shows "\<exists>vs. dismissChildPopups n w ws = Returns vs \<and> length vs = length ws
    \<and> (\<forall>x. live x vs \<longleftrightarrow> live x ws \<and> \<not> child_popup ws w x)"
proof -
  have ok: "windows_ok ws" unfolding assms(2) by (intro windows_ok_run windows_ok_start assms(1))
  obtain vs where r: "dismissChildPopups n w ws = Returns vs"
    using dismiss_depth [OF ok assms(3,4)] dismiss_throws(1) [OF ok assms(3), of n] assms(5)
    by (cases "dismissChildPopups n w ws") auto
  have f: "fewer vs ws" using dismiss_fewer(1) [of n w ws] r by simp
  have "\<not> live x vs" if "child_popup ws w x" for x
    by (rule dismiss_closes [OF dismiss_complete(1) [OF r] that])
  moreover have "child_popup ws w x" if "live x ws" "\<not> live x vs" for x
    using dismiss_sound(1) [OF ok assms(3), of x n] that r by simp
  ultimately show ?thesis
    using r f reopened_length [OF fewer_reopened [OF f]] by (auto intro: fewer_live)
qed

lemma popup_run:
  "fold (wn_handle Some (\<lambda>u k v. u) 5)
     [Click_related 0 ''add_id_a'' ''u'', Load 1 True ''/a/add/'', Click_lookup 1 ''lookup_id_b'' ''v'',
      Load 2 True ''/b/''] [main_window]
   = [main_window\<lparr>wn_related := [1]\<rparr>,
      \<lparr>wn_name = ''id_a__1'', wn_address = ''u'', wn_path = ''/a/add/'', wn_closed = False,
       wn_ready = True, wn_index = Some 1, wn_related = [2]\<rparr>,
      \<lparr>wn_name = ''id_b__2'', wn_address = ''v'', wn_path = ''/b/'', wn_closed = False,
       wn_ready = True, wn_index = Some 2, wn_related = []\<rparr>]"
proof -
  have sfx: "popup_suffix (Some 0) = ''__1''" "popup_suffix (Some 1) = ''__2''"
    by code_simp+
  have idx: "parse_int ''1'' = Some 1" "parse_int ''2'' = Some 2"
    by (simp_all add: parse_int_def is_ws_def is_digit_def starts_with_def digits_val_def digit_val_def)
  show ?thesis
    by (simp add: live_def unload_def load_page_def main_window_def new_window_def sfx idx
        showRelatedObjectPopup_def showRelatedObjectLookupPopup_def showAdminPopup_def
        window_open_def addPopupIndex_def related_name_def lookup_name_def strip_prefix_def
        starts_with_def setPopupIndex_def numeral_2_eq_2)
qed

theorem popups_dismissed_witness:
  "let ws = fold (wn_handle Some (\<lambda>u k v. u) 5)
     [Click_related 0 ''add_id_a'' ''u'', Load 1 True ''/a/add/'', Click_lookup 1 ''lookup_id_b'' ''v'',
      Load 2 True ''/b/''] [main_window]
   in \<exists>vs. dismissChildPopups 3 0 ws = Returns vs \<and> map wn_closed vs = [False, True, True]"
proof -
  define es where "es = [Click_related 0 ''add_id_a'' ''u'', Load 1 True ''/a/add/'',
    Click_lookup 1 ''lookup_id_b'' ''v'', Load 2 True ''/b/'']"
  define ws where "ws = fold (wn_handle Some (\<lambda>u k v. u) 5) es [main_window]"
  note eval = popup_run [folded es_def, folded ws_def]
  have len: "length ws = 3" by (simp add: eval)
  have ready: "wn_ready (ws ! c)" "live c ws" if "c < 3" for c
    using that by (auto simp: eval live_def main_window_def new_window_def less_Suc_eq numeral_3_eq_3)
  have pages: "\<forall>c. child_popup ws 0 c \<longrightarrow> wn_ready (ws ! c)"
    using child_popup_live [of ws 0] ready(1) len by (auto simp: live_def)
  have marked: "list_all page_marked es" by (simp add: es_def)
  from popups_dismissed [OF marked ws_def _ _ pages, of 3] len
  have "\<exists>vs. dismissChildPopups 3 0 ws = Returns vs \<and> length vs = length ws
    \<and> (\<forall>x. live x vs \<longleftrightarrow> live x ws \<and> \<not> child_popup ws 0 x)"
    by simp
  then obtain vs where vs: "dismissChildPopups 3 0 ws = Returns vs" "length vs = 3"
    "\<And>x. live x vs \<longleftrightarrow> live x ws \<and> \<not> child_popup ws 0 x"
    using len by auto
  have p1: "child_popup ws 0 1"
    by (rule child_direct) (use ready in \<open>simp_all add: eval\<close>)
  have p2: "child_popup ws 0 2"
    by (rule child_nested [of 1], simp add: eval, use ready in simp, rule child_direct)
      (use ready in \<open>simp_all add: eval\<close>)
  have "windows_ok ws" unfolding ws_def by (rule windows_ok_run [OF windows_ok_start marked])
  then have "\<not> child_popup ws 0 0" using child_popup_not_main [of ws 0 0] len by auto
  then have "live 0 vs" "\<not> live 1 vs" "\<not> live 2 vs"
    using vs(3) [of 0] vs(3) [of 1] vs(3) [of 2] p1 p2 ready(2) [of 0] by simp_all
  moreover obtain a b c where "vs = [a, b, c]"
    using vs(2) by (auto simp: numeral_3_eq_3 length_Suc_conv)
  ultimately have "map wn_closed vs = [False, True, True]"
    by (simp add: live_def)
  with vs(1) have "\<exists>vs. dismissChildPopups 3 0 ws = Returns vs \<and> map wn_closed vs = [False, True, True]"
    by (intro exI conjI)
  then show ?thesis unfolding Let_def ws_def es_def .
qed

text \<open>
  The levels are what stops it.  A page without an element named \<open>_popup\<close>, loaded in a popup,
  counts from 0 again, and its first popup has the name of its own window: the page opens itself,
  lists itself, and \<open>dismissChildPopups\<close> calls itself until the stack is full.
\<close>

lemma dismiss_self: "wn_related (ws ! w) = w # cs \<Longrightarrow> \<not> wn_closed (ws ! w) \<Longrightarrow> wn_ready (ws ! w)
    \<Longrightarrow> dismissChildPopups n w ws = Overflow ws"
proof (induction n)
  case (Suc n)
  then show ?case by (cases n) simp_all
qed simp

lemma self_opened:
  "dismissChildPopups n 1
     (fold (wn_handle Some (\<lambda>u k v. u) 5)
        [Click_related 0 ''add_id_a'' ''u'', Load 1 False ''/'', Click_related 1 ''add_id_a'' ''u'']
        [main_window])
   = Overflow [main_window\<lparr>wn_related := [1]\<rparr>,
      \<lparr>wn_name = ''id_a__1'', wn_address = ''u'', wn_path = ''/'', wn_closed = False,
       wn_ready = True, wn_index = Some 0, wn_related = [1]\<rparr>]"
  (is "dismissChildPopups n 1 ?run = Overflow ?ws")
proof -
  have sfx: "popup_suffix (Some 0) = ''__1''"
    by code_simp
  have "?run = ?ws"
    by (simp add: live_def unload_def load_page_def main_window_def new_window_def sfx
        showRelatedObjectPopup_def showAdminPopup_def
        window_open_def addPopupIndex_def related_name_def
        starts_with_def setPopupIndex_def)
  then show ?thesis using dismiss_self [of ?ws 1 "[]" n] by simp
qed

end
