(* ===== verification/RelatedObjects.thy ===== *)
theory RelatedObjects
  imports Popups
begin

text \<open>
  What the popups do to the page that opened them (\<open>RelatedObjectLookups.js\<close> and
  \<open>popup_response.js\<close> of \<open>koded-cli/web/backend/staticfiles/admin/js/\<close>): an object added, changed,
  deleted or chosen in a popup is put into the field the popup was opened for, into the other
  lists of the same model, and into the links beside a list.

  The page is that of window \<open>pg_self\<close>.  Its lists (\<open>SELECT\<close> elements) and their caches are the state
  of \<open>SelectBox\<close>; a list is known by its id.  A thrown error is \<open>None\<close>.
\<close>

record raw_input =
  ri_value :: string
  ri_many :: bool

text \<open>A link beside a list: its template, and its address while the list has a value.\<close>

record related_link =
  rl_template :: string
  rl_href :: "string option"

text \<open>
  \<open>pg_inputs\<close>: the text fields, and whether they have the class \<open>vManyToManyRawIdAdminField\<close>.
  \<open>pg_single\<close>: the lists with one choice.  \<open>pg_links\<close>: the links after each list that is in a
  \<open>related-widget-wrapper\<close>.  \<open>pg_sources\<close>: the lists marked \<open>available-source\<close> with the model of
  their wrapper, in the order of the page.  \<open>pg_shown\<close>: text and title that a select2 widget
  after a list shows.  \<open>pg_selectbox\<close>: whether \<open>SelectBox.js\<close> is loaded.
\<close>

record page =
  pg_boxes :: boxes
  pg_inputs :: "string \<rightharpoonup> raw_input"
  pg_single :: "string \<Rightarrow> bool"
  pg_links :: "string \<rightharpoonup> related_link list"
  pg_sources :: "(string \<times> string) list"
  pg_shown :: "string \<rightharpoonup> string \<times> string"
  pg_selectbox :: bool
  pg_windows :: "window list"
  pg_self :: nat

subsection \<open>Lists of options\<close>

text \<open>
  A new option with its text and value.  An option gives its text with white space collapsed; here the
  texts, which the server prints, are taken as they are.
\<close>

definition new_option :: "string \<Rightarrow> string \<Rightarrow> opt" where
  "new_option txt v = \<lparr>ovalue = v, otext = txt, otitle = [], selected = False\<rparr>"

text \<open>A list with one choice shows its first option when none is selected.\<close>

definition settle :: "bool \<Rightarrow> opt list \<Rightarrow> opt list" where
  "settle single ps =
     (if single \<and> \<not> list_ex selected ps
      then (case ps of [] \<Rightarrow> [] | p # qs \<Rightarrow> p\<lparr>selected := True\<rparr> # qs)
      else ps)"

text \<open>Appending an option; a selected one takes the selection of a list with one choice.\<close>

definition append_option :: "bool \<Rightarrow> opt \<Rightarrow> opt list \<Rightarrow> opt list" where
  "append_option single p ps =
     (if single \<and> selected p then map (\<lambda>q. q\<lparr>selected := False\<rparr>) ps @ [p]
      else settle single (ps @ [p]))"

definition set_options :: "string \<Rightarrow> opt list \<Rightarrow> page \<Rightarrow> page" where
  "set_options i ps s =
     s\<lparr>pg_boxes := (pg_boxes s)\<lparr>dom := (dom (pg_boxes s))(i \<mapsto> ps)\<rparr>\<rparr>"

text \<open>\<open>elem.value = v\<close> on a list: the first option with the value is selected, the others not.\<close>

fun choose_value :: "string \<Rightarrow> opt list \<Rightarrow> opt list" where
  "choose_value v [] = []"
| "choose_value v (p # ps) =
     (if ovalue p = v then p\<lparr>selected := True\<rparr> # map (\<lambda>q. q\<lparr>selected := False\<rparr>) ps
      else p\<lparr>selected := False\<rparr> # choose_value v ps)"

text \<open>
  jQuery's \<open>val()\<close>: the value of the selected option, \<open>null\<close> if there is none, and for a list with
  several choices the array of the values, which is never false and prints with commas.
\<close>

definition list_value :: "bool \<Rightarrow> opt list \<Rightarrow> string option" where
  "list_value single ps =
     (let vs = map ovalue (filter selected ps)
      in if single then (case vs of [] \<Rightarrow> None | v # _ \<Rightarrow> if v = [] then None else Some v)
         else Some (join_with '','' vs))"

subsection \<open>Links beside a list\<close>

definition update_link :: "string option \<Rightarrow> related_link \<Rightarrow> related_link" where
  "update_link v l =
     (case v of
        Some x \<Rightarrow> l\<lparr>rl_href := Some (replace_first (rl_template l) ''__fk__'' x)\<rparr>
      | None \<Rightarrow> l\<lparr>rl_href := None\<rparr>)"

text \<open>
  \<open>updateRelatedObjectLinks\<close>.  The attribute \<open>aria-disabled\<close> is there exactly when the address is
  not: the two are set and removed together.
\<close>

definition updateRelatedObjectLinks :: "string \<Rightarrow> page \<Rightarrow> page" where
  "updateRelatedObjectLinks i s =
     (case (dom (pg_boxes s) i, pg_links s i) of
        (Some ps, Some ls) \<Rightarrow>
          s\<lparr>pg_links := (pg_links s)(i \<mapsto> map (update_link (list_value (pg_single s i) ps)) ls)\<rparr>
      | _ \<Rightarrow> s)"

text \<open>
  The handler of \<open>change\<close> for the lists in a wrapper; \<open>kept\<close> says whether a listener of
  \<open>django:update-related\<close> prevented the default, per list.  The handlers of the two kinds of link.
\<close>

definition list_changed :: "(string \<Rightarrow> bool) \<Rightarrow> string \<Rightarrow> page \<Rightarrow> page" where
  "list_changed kept i s = (if kept i then s else updateRelatedObjectLinks i s)"

definition related_click ::
  "(string \<Rightarrow> string option) \<Rightarrow> (string \<Rightarrow> string \<Rightarrow> string \<Rightarrow> string) \<Rightarrow> bool \<Rightarrow> string \<Rightarrow> string
    \<Rightarrow> page \<Rightarrow> page option" where
  "related_click new_url set_param prevented link_id link_href s =
     (if link_href = [] \<or> prevented then Some s
      else map_option (\<lambda>ws. s\<lparr>pg_windows := ws\<rparr>)
             (showRelatedObjectPopup new_url set_param (pg_self s) link_id link_href (pg_windows s)))"

definition lookup_click ::
  "(string \<Rightarrow> string option) \<Rightarrow> (string \<Rightarrow> string \<Rightarrow> string \<Rightarrow> string) \<Rightarrow> bool \<Rightarrow> string \<Rightarrow> string
    \<Rightarrow> page \<Rightarrow> page option" where
  "lookup_click new_url set_param prevented link_id link_href s =
     (if prevented then Some s
      else map_option (\<lambda>ws. s\<lparr>pg_windows := ws\<rparr>)
             (showRelatedObjectLookupPopup new_url set_param (pg_self s) link_id link_href
                (pg_windows s)))"

text \<open>The end of every dismissal, and \<open>popupIndex\<close> of the page.\<close>

definition dismissed :: "nat \<Rightarrow> page \<Rightarrow> page" where
  "dismissed c s = s\<lparr>pg_windows := forget_window (pg_self s) c (pg_windows s)\<rparr>"

definition popup_index :: "page \<Rightarrow> int option" where
  "popup_index s = wn_index (pg_windows s ! pg_self s)"

definition window_name :: "nat \<Rightarrow> page \<Rightarrow> string" where
  "window_name c s = wn_name (pg_windows s ! c)"

text \<open>When the document is ready, every wrapped list is told that it changed.\<close>

definition page_ready :: "(string \<Rightarrow> bool) \<Rightarrow> bool \<Rightarrow> string list \<Rightarrow> page \<Rightarrow> page" where
  "page_ready kept popup ids s =
     fold (list_changed kept) ids
       (s\<lparr>pg_windows := (pg_windows s)[pg_self s := (pg_windows s ! pg_self s)
            \<lparr>wn_index := setPopupIndex popup (window_name (pg_self s) s)\<rparr>]\<rparr>)"

subsection \<open>The other lists of the same model\<close>

text \<open>
  The model in the popup's path, \<open>\<dots>/<model>/add/\<close> or \<open>\<dots>/<model>/<id>/change/\<close>; an index before the
  start of the path reads \<open>undefined\<close>.  An absent or empty id counts as an addition.
\<close>

definition model_name :: "string \<Rightarrow> string option \<Rightarrow> string" where
  "model_name path objId =
     (let parts = split_on (CHR ''/'') path;
          k = (case objId of None \<Rightarrow> 3 | Some v \<Rightarrow> if v = [] then 3 else 4)
      in if k \<le> length parts then parts ! (length parts - k) else ''undefined'')"

text \<open>
  \<open>select.querySelector('option[value="\<dots>"]')\<close>: the first option with the value, where no object
  prints as \<open>null\<close>; ids are taken to hold no quotes, which would end the attribute selector.
\<close>

definition id_text :: "string option \<Rightarrow> string" where
  "id_text objId = (case objId of None \<Rightarrow> ''null'' | Some v \<Rightarrow> v)"

definition rename_option :: "string \<Rightarrow> string \<Rightarrow> opt \<Rightarrow> opt" where
  "rename_option txt v p = p\<lparr>otext := txt, ovalue := v\<rparr>"

fun rename_first :: "string \<Rightarrow> string \<Rightarrow> string \<Rightarrow> opt list \<Rightarrow> opt list" where
  "rename_first key txt v [] = []"
| "rename_first key txt v (p # ps) =
     (if ovalue p = key then rename_option txt v p # ps
      else p # rename_first key txt v ps)"

text \<open>\<open>SelectBox.add_to_cache\<close> and \<open>SelectBox.redisplay\<close>, one after the other.\<close>

definition add_and_redisplay :: "string \<Rightarrow> opt \<Rightarrow> boxes \<Rightarrow> boxes option" where
  "add_and_redisplay i p b = Option.bind (add_to_cache i p b) (redisplay i)"

definition update_source ::
  "string option \<Rightarrow> string option \<Rightarrow> string \<Rightarrow> string \<Rightarrow> string list \<Rightarrow> string \<Rightarrow> page \<Rightarrow> page option" where
  "update_source current objId newRepr newId skipIds i s =
     (if current = Some i \<or> i \<in> set skipIds then Some s
      else (case dom (pg_boxes s) i of None \<Rightarrow> Some s
        | Some ps \<Rightarrow>
            if \<not> list_ex (\<lambda>p. ovalue p = id_text objId) ps
            then (let p = new_option newRepr newId;
                      s1 = set_options i (append_option (pg_single s i) p ps) s
                  in if \<not> pg_selectbox s then Some s1
                     else (case current of None \<Rightarrow> None
                       | Some cur \<Rightarrow>
                           if cache (pg_boxes s) cur = None
                           then map_option (\<lambda>b. s1\<lparr>pg_boxes := b\<rparr>)
                                  (add_and_redisplay i p (pg_boxes s1))
                           else Some s1))
            else Some (set_options i (rename_first (id_text objId) newRepr newId ps) s)))"

fun update_sources ::
  "string option \<Rightarrow> string option \<Rightarrow> string \<Rightarrow> string \<Rightarrow> string list \<Rightarrow> string list \<Rightarrow> page \<Rightarrow> page option"
where
  "update_sources current objId newRepr newId skipIds [] s = Some s"
| "update_sources current objId newRepr newId skipIds (i # is) s =
     Option.bind (update_source current objId newRepr newId skipIds i s)
       (update_sources current objId newRepr newId skipIds is)"

definition updateRelatedSelectsOptions ::
  "string option \<Rightarrow> nat \<Rightarrow> string option \<Rightarrow> string \<Rightarrow> string \<Rightarrow> string list \<Rightarrow> page \<Rightarrow> page option" where
  "updateRelatedSelectsOptions current c objId newRepr newId skipIds s =
     (let model = model_name (wn_path (pg_windows s ! c)) objId
      in update_sources current objId newRepr newId skipIds
           (map snd (filter (\<lambda>e. fst e = model) (pg_sources s))) s)"

subsection \<open>What a popup reports\<close>

definition enter_id :: "string \<Rightarrow> raw_input \<Rightarrow> raw_input" where
  "enter_id v f =
     (if ri_many f \<and> ri_value f \<noteq> [] then f\<lparr>ri_value := ri_value f @ '','' @ v\<rparr>
      else f\<lparr>ri_value := v\<rparr>)"

text \<open>An element with the id is a list or a text field; \<open>trigger('change')\<close> matters to lists.\<close>

definition dismissRelatedLookupPopup ::
  "(string \<Rightarrow> bool) \<Rightarrow> nat \<Rightarrow> string \<Rightarrow> page \<Rightarrow> page option" where
  "dismissRelatedLookupPopup kept c chosenId s =
     (let name = removePopupIndex (popup_index s) (window_name c s)
      in case dom (pg_boxes s) name of
           Some ps \<Rightarrow>
             Some (dismissed c (list_changed kept name (set_options name (choose_value chosenId ps) s)))
         | None \<Rightarrow>
             (case pg_inputs s name of None \<Rightarrow> None
              | Some f \<Rightarrow>
                  Some (dismissed c (s\<lparr>pg_inputs := (pg_inputs s)(name \<mapsto> enter_id chosenId f)\<rparr>))))"

definition dismissAddRelatedObjectPopup ::
  "(string \<Rightarrow> bool) \<Rightarrow> nat \<Rightarrow> string \<Rightarrow> string \<Rightarrow> page \<Rightarrow> page option" where
  "dismissAddRelatedObjectPopup kept c newId newRepr s =
     (let name = removePopupIndex (popup_index s) (window_name c s)
      in map_option (dismissed c)
        (case dom (pg_boxes s) name of
           Some ps \<Rightarrow>
             map_option (list_changed kept name)
               (updateRelatedSelectsOptions (Some name) c None newRepr newId []
                 (set_options name
                    (append_option (pg_single s name)
                       ((new_option newRepr newId)\<lparr>selected := True\<rparr>) ps) s))
         | None \<Rightarrow>
             (case pg_inputs s name of
                Some f \<Rightarrow> Some (s\<lparr>pg_inputs := (pg_inputs s)(name \<mapsto> enter_id newId f)\<rparr>)
              | None \<Rightarrow>
                  if \<not> pg_selectbox s then None
                  else (let toId = name @ ''_to''
                    in Option.bind
                         (add_and_redisplay toId (new_option newRepr newId) (pg_boxes s))
                         (\<lambda>b. updateRelatedSelectsOptions (Some toId) c None newRepr newId
                                [name @ ''_from''] (s\<lparr>pg_boxes := b\<rparr>))))))"

text \<open>
  The lists of a field: \<open>#id\<close>, \<open>#id_from\<close> and \<open>#id_to\<close>, those the page has.  Their options report
  a change each, which bubbles to the list as long as the option is in it.
\<close>

definition field_lists :: "string \<Rightarrow> page \<Rightarrow> string list" where
  "field_lists i s =
     filter (\<lambda>j. dom (pg_boxes s) j \<noteq> None \<or> pg_inputs s j \<noteq> None) [i, i @ ''_from'', i @ ''_to'']"

definition change_options :: "(bool \<Rightarrow> opt list \<Rightarrow> opt list) \<Rightarrow> string \<Rightarrow> page \<Rightarrow> page" where
  "change_options f i s =
     (case dom (pg_boxes s) i of None \<Rightarrow> s | Some ps \<Rightarrow> set_options i (f (pg_single s i) ps) s)"

definition options_changed :: "(string \<Rightarrow> bool) \<Rightarrow> string \<Rightarrow> page \<Rightarrow> page" where
  "options_changed kept i s =
     (case dom (pg_boxes s) i of
        Some (p # ps) \<Rightarrow> list_changed kept i s
      | _ \<Rightarrow> s)"

definition rename_options :: "string \<Rightarrow> string \<Rightarrow> string \<Rightarrow> bool \<Rightarrow> opt list \<Rightarrow> opt list" where
  "rename_options objId txt v single ps =
     map (\<lambda>p. if ovalue p = objId then rename_option txt v p else p) ps"

definition remove_options :: "string \<Rightarrow> bool \<Rightarrow> opt list \<Rightarrow> opt list" where
  "remove_options objId single ps =
     (if list_ex (\<lambda>p. ovalue p = objId) ps
      then settle single (filter (\<lambda>p. ovalue p \<noteq> objId) ps) else ps)"

definition show_text :: "string \<Rightarrow> string \<Rightarrow> page \<Rightarrow> page" where
  "show_text txt i s =
     (case pg_shown s i of None \<Rightarrow> s | Some _ \<Rightarrow> s\<lparr>pg_shown := (pg_shown s)(i \<mapsto> (txt, txt))\<rparr>)"

definition dismissChangeRelatedObjectPopup ::
  "(string \<Rightarrow> bool) \<Rightarrow> nat \<Rightarrow> string \<Rightarrow> string \<Rightarrow> string \<Rightarrow> page \<Rightarrow> page option" where
  "dismissChangeRelatedObjectPopup kept c objId newRepr newId s =
     (let i = removePopupIndex (popup_index s) (strip_prefix ''edit_'' (window_name c s));
          selects = field_lists i s;
          s1 = fold (change_options (rename_options objId newRepr newId)) selects s;
          s2 = fold (options_changed kept) selects s1
      in map_option (\<lambda>s3. dismissed c (fold (show_text newRepr) selects s3))
           (updateRelatedSelectsOptions (case selects of [] \<Rightarrow> None | j # _ \<Rightarrow> Some j) c
              (Some objId) newRepr newId [] s2))"

definition dismissDeleteRelatedObjectPopup ::
  "(string \<Rightarrow> bool) \<Rightarrow> nat \<Rightarrow> string \<Rightarrow> page \<Rightarrow> page option" where
  "dismissDeleteRelatedObjectPopup kept c objId s =
     (let i = removePopupIndex (popup_index s) (strip_prefix ''delete_'' (window_name c s));
          selects = field_lists i s;
          s1 = fold (change_options (remove_options objId)) selects s
      in Some (dismissed c (fold (options_changed kept) selects s1)))"

text \<open>\<open>popup_response.js\<close>: what the server's answer, shown in the popup, reports to the opener.\<close>

record popup_response =
  pr_action :: string
  pr_value :: string
  pr_obj :: string
  pr_new_value :: string

definition report :: "(string \<Rightarrow> bool) \<Rightarrow> nat \<Rightarrow> popup_response \<Rightarrow> page \<Rightarrow> page option" where
  "report kept c r s =
     (if pr_action r = ''change''
      then dismissChangeRelatedObjectPopup kept c (pr_value r) (pr_obj r) (pr_new_value r) s
      else if pr_action r = ''delete'' then dismissDeleteRelatedObjectPopup kept c (pr_value r) s
      else dismissAddRelatedObjectPopup kept c (pr_value r) (pr_obj r) s)"

subsection \<open>The popup finds the field it was opened for\<close>

lemma strip_prefix_append [simp]: "strip_prefix p (p @ s) = s"
  by (simp add: strip_prefix_def)

lemma related_name_simps [simp]:
  "related_name (''change_'' @ f) = f" "related_name (''add_'' @ f) = f"
  "related_name (''delete_'' @ f) = f"
  by (simp_all add: related_name_def starts_with_def)

text \<open>
  Names lead back.  The window that the link of a field opens in a page of depth \<open>k\<close> is the last
  of the page's \<open>relatedWindows\<close>; its name gives the opener the field again, and gives a popup page
  loaded in it the depth \<open>k + 1\<close>.
\<close>

theorem popup_field_found:
  assumes "wn_index (ws ! w) = Some (int k)" and "w < length ws"
    and "prefix \<in> {''change_'', ''add_'', ''delete_''}"
    and "showRelatedObjectPopup new_url set_param w (prefix @ f) href ws = Some us"
  shows "let c = last (wn_related (us ! w)) in
      c < length us \<and> removePopupIndex (wn_index (us ! w)) (wn_name (us ! c)) = f
      \<and> setPopupIndex True (wn_name (us ! c)) = Some (int (Suc k))"
proof -
  have f: "related_name (prefix @ f) = f"
    using assms(3) related_name_simps by (metis empty_iff insertE)
  let ?n = "addPopupIndex (wn_index (ws ! w)) f"
  obtain href' c vs where o: "window_open href' ?n ws = (c, vs)"
    and us: "us = vs[w := (vs ! w)\<lparr>wn_related := wn_related (vs ! w) @ [c]\<rparr>]"
    using assms(4) by (auto simp: showRelatedObjectPopup_def showAdminPopup_def f Let_def
        split: option.splits prod.splits)
  have "c < length vs \<and> wn_name (vs ! c) = ?n \<and> length ws \<le> length vs
    \<and> wn_index (vs ! w) = wn_index (ws ! w)"
  proof (cases "find_window ?n ws")
    case None
    then show ?thesis using o assms(2)
      by (auto simp: window_open_def new_window_def nth_append)
  next
    case (Some e)
    then have "live e ws" "wn_name (ws ! e) = ?n" using find_window_sound by blast+
    then show ?thesis using o Some assms(2)
      by (auto simp: window_open_def live_def nth_list_update)
  qed
  then have c: "c < length vs" "wn_name (us ! c) = ?n" "w < length vs"
    "wn_index (us ! w) = wn_index (ws ! w)" "last (wn_related (us ! w)) = c"
    using assms(2) by (auto simp: us nth_list_update)
  then show ?thesis
    using assms(1) by (simp add: Let_def remove_added index_of_added us del: of_nat_Suc)
qed

theorem popup_field_found_witness:
  "\<exists>us. showRelatedObjectPopup Some (\<lambda>u k v. u) 0 (''add_'' @ ''id_author'') ''/author/add/'' [main_window]
          = Some us
    \<and> removePopupIndex (wn_index (us ! 0)) (wn_name (us ! last (wn_related (us ! 0)))) = ''id_author''"
proof -
  obtain us where us: "showRelatedObjectPopup Some (\<lambda>u k v. u) 0 (''add_'' @ ''id_author'')
      ''/author/add/'' [main_window] = Some us"
    by (simp add: showRelatedObjectPopup_def showAdminPopup_def Let_def split_beta)
  have "wn_index ([main_window] ! 0) = Some (int 0)" by (simp add: main_window_def)
  from popup_field_found [OF this _ _ us] us show ?thesis by (auto simp: Let_def)
qed

subsection \<open>What the other lists leave alone\<close>

lemma set_options_simps [simp]:
  "pg_windows (set_options i ps s) = pg_windows s" "pg_self (set_options i ps s) = pg_self s"
  "pg_links (set_options i ps s) = pg_links s" "pg_single (set_options i ps s) = pg_single s"
  "pg_inputs (set_options i ps s) = pg_inputs s" "pg_sources (set_options i ps s) = pg_sources s"
  "pg_selectbox (set_options i ps s) = pg_selectbox s" "pg_shown (set_options i ps s) = pg_shown s"
  "dom (pg_boxes (set_options i ps s)) = (dom (pg_boxes s))(i \<mapsto> ps)"
  "cache (pg_boxes (set_options i ps s)) = cache (pg_boxes s)"
  by (simp_all add: set_options_def)

lemma list_changed_simps [simp]:
  "pg_windows (list_changed kept i s) = pg_windows s" "pg_self (list_changed kept i s) = pg_self s"
  "pg_boxes (list_changed kept i s) = pg_boxes s" "pg_single (list_changed kept i s) = pg_single s"
  "pg_inputs (list_changed kept i s) = pg_inputs s" "pg_sources (list_changed kept i s) = pg_sources s"
  "pg_selectbox (list_changed kept i s) = pg_selectbox s"
  by (simp_all add: list_changed_def updateRelatedObjectLinks_def split: option.split)

text \<open>
  Everything but the lists, and the lists that are not to be touched; which lists and which
  caches there are.
\<close>

definition same_but_sources :: "string set \<Rightarrow> page \<Rightarrow> page \<Rightarrow> bool" where
  "same_but_sources js s t \<longleftrightarrow>
     (\<exists>b. t = s\<lparr>pg_boxes := b\<rparr>)
     \<and> (\<forall>i. i \<notin> js \<longrightarrow> dom (pg_boxes t) i = dom (pg_boxes s) i
                       \<and> cache (pg_boxes t) i = cache (pg_boxes s) i)
     \<and> (\<forall>i. (dom (pg_boxes t) i = None) = (dom (pg_boxes s) i = None)
          \<and> (cache (pg_boxes t) i = None) = (cache (pg_boxes s) i = None))"

lemma same_but_sources_refl [simp]: "same_but_sources js s s"
  by (auto simp: same_but_sources_def intro: exI [of _ "pg_boxes s"])

lemma same_but_sources_trans:
  assumes "same_but_sources js s t" and "same_but_sources ks t u"
  shows "same_but_sources (js \<union> ks) s u"
proof -
  obtain b c where "u = t\<lparr>pg_boxes := c\<rparr>" "t = s\<lparr>pg_boxes := b\<rparr>"
    using assms unfolding same_but_sources_def by blast
  then have "u = s\<lparr>pg_boxes := c\<rparr>" by simp
  then show ?thesis using assms unfolding same_but_sources_def by (metis UnCI)
qed

lemma same_but_sources_mono: "same_but_sources js s t \<Longrightarrow> js \<subseteq> ks \<Longrightarrow> same_but_sources ks s t"
  unfolding same_but_sources_def by (elim conjE, intro conjI) (assumption | auto)+

lemma same_none:
  assumes "same_but_sources js s t"
  shows "(dom (pg_boxes t) i = None) = (dom (pg_boxes s) i = None)"
    "(cache (pg_boxes t) i = None) = (cache (pg_boxes s) i = None)"
  using assms by (simp_all add: same_but_sources_def)

lemma same_list:
  assumes "same_but_sources js s t" and "i \<notin> js"
  shows "dom (pg_boxes t) i = dom (pg_boxes s) i" "cache (pg_boxes t) i = cache (pg_boxes s) i"
  using assms by (simp_all add: same_but_sources_def)

lemma same_fields:
  assumes "same_but_sources js s t"
  shows "pg_windows t = pg_windows s" "pg_self t = pg_self s" "pg_links t = pg_links s"
    "pg_single t = pg_single s" "pg_inputs t = pg_inputs s" "pg_sources t = pg_sources s"
    "pg_selectbox t = pg_selectbox s" "pg_shown t = pg_shown s"
  using assms by (auto simp: same_but_sources_def)

text \<open>A list can take a new option: no cache is needed, or it has one.\<close>

definition can_take :: "string option \<Rightarrow> page \<Rightarrow> string \<Rightarrow> bool" where
  "can_take current s i \<longleftrightarrow>
     pg_selectbox s \<longrightarrow> (\<exists>cur. current = Some cur
       \<and> (cache (pg_boxes s) cur = None \<longrightarrow> cache (pg_boxes s) i \<noteq> None))"

lemma update_source_ok:
  assumes "current \<noteq> Some i \<Longrightarrow> i \<notin> set skipIds \<Longrightarrow> can_take current s i"
  shows "\<exists>t. update_source current objId r v skipIds i s = Some t
    \<and> same_but_sources ({i} - set skipIds - set_option current) s t"
proof (cases "current = Some i \<or> i \<in> set skipIds \<or> dom (pg_boxes s) i = None")
  case True
  then show ?thesis by (auto simp: update_source_def)
next
  case False
  with assms have ok: "can_take current s i" by blast
  from False show ?thesis using ok
    by (auto simp: update_source_def can_take_def Let_def add_and_redisplay_def add_to_cache_def redisplay_def
        same_but_sources_def set_options_def split: option.splits)
qed

lemma can_take_same:
  "same_but_sources js s t \<Longrightarrow> can_take current s i \<Longrightarrow> can_take current t i"
  by (simp add: can_take_def same_fields same_none)

lemma update_sources_ok:
  assumes "\<And>i. i \<in> set is \<Longrightarrow> current \<noteq> Some i \<Longrightarrow> i \<notin> set skipIds \<Longrightarrow> can_take current s i"
  shows "\<exists>t. update_sources current objId r v skipIds is s = Some t
    \<and> same_but_sources (set is - set skipIds - set_option current) s t"
  using assms
proof (induction "is" arbitrary: s)
  case (Cons i "is")
  have "can_take current s i" if "current \<noteq> Some i" "i \<notin> set skipIds"
    using Cons.prems [of i] that by simp
  from update_source_ok [OF this]
  obtain t where t: "update_source current objId r v skipIds i s = Some t"
    "same_but_sources ({i} - set skipIds - set_option current) s t" by blast
  have "can_take current t j" if "j \<in> set is" "current \<noteq> Some j" "j \<notin> set skipIds" for j
    by (rule can_take_same [OF t(2)]) (use Cons.prems that in auto)
  from Cons.IH [OF this] obtain u where
    u: "update_sources current objId r v skipIds is t = Some u"
    "same_but_sources (set is - set skipIds - set_option current) t u" by blast
  have "same_but_sources (set (i # is) - set skipIds - set_option current) s u"
    by (rule same_but_sources_mono [OF same_but_sources_trans [OF t(2) u(2)]]) auto
  then show ?case using t(1) u(1) by auto
qed simp

text \<open>The lists of a model other than the current one, which the page marks as sources.\<close>

definition source_ids :: "page \<Rightarrow> string set" where
  "source_ids s = snd ` set (pg_sources s)"

lemma update_related_ok:
  assumes "\<And>i. i \<in> source_ids s \<Longrightarrow> current \<noteq> Some i \<Longrightarrow> i \<notin> set skipIds \<Longrightarrow> can_take current s i"
  shows "\<exists>t. updateRelatedSelectsOptions current c objId r v skipIds s = Some t
    \<and> same_but_sources (source_ids s - set skipIds - set_option current) s t"
proof -
  let ?is = "map snd (filter (\<lambda>e. fst e = model_name (wn_path (pg_windows s ! c)) objId) (pg_sources s))"
  have sub: "set ?is \<subseteq> source_ids s" by (auto simp: source_ids_def)
  obtain t where "update_sources current objId r v skipIds ?is s = Some t"
    and t: "same_but_sources (set ?is - set skipIds - set_option current) s t"
    using update_sources_ok [of ?is current skipIds s] assms sub by blast
  moreover have "same_but_sources (source_ids s - set skipIds - set_option current) s t"
    by (rule same_but_sources_mono [OF t]) (use sub in blast)
  ultimately show ?thesis by (simp add: updateRelatedSelectsOptions_def)
qed

text \<open>Every list with a cache can be the current one.\<close>

lemma can_take_cached [simp]: "cache (pg_boxes s) cur = Some ns \<Longrightarrow> can_take (Some cur) s i"
  by (simp add: can_take_def)

lemma update_source_cache:
  assumes "cache (pg_boxes s) cur = Some ns"
    and "update_source (Some cur) objId r v skipIds i s = Some t"
  shows "cache (pg_boxes t) = cache (pg_boxes s)"
  using assms by (auto simp: update_source_def Let_def split: if_splits option.splits)

lemma update_sources_cache:
  "cache (pg_boxes s) cur = Some ns
     \<Longrightarrow> update_sources (Some cur) objId r v skipIds is s = Some t
     \<Longrightarrow> cache (pg_boxes t) = cache (pg_boxes s)"
proof (induction "is" arbitrary: s)
  case (Cons i "is")
  then obtain u where u: "update_source (Some cur) objId r v skipIds i s = Some u"
    "update_sources (Some cur) objId r v skipIds is u = Some t"
    by (auto split: bind_splits)
  note c = update_source_cache [OF Cons.prems(1) u(1)]
  then show ?case using Cons.IH [of u] Cons.prems(1) u(2) by simp
qed simp

lemma update_related_cached:
  assumes "cache (pg_boxes s) cur = Some ns"
  shows "\<exists>t. updateRelatedSelectsOptions (Some cur) c objId r v skipIds s = Some t
    \<and> same_but_sources (source_ids s - set skipIds - {cur}) s t
    \<and> cache (pg_boxes t) = cache (pg_boxes s)"
proof -
  have "can_take (Some cur) s i" for i using assms by simp
  from update_related_ok [OF this] obtain t where
    t: "updateRelatedSelectsOptions (Some cur) c objId r v skipIds s = Some t"
    "same_but_sources (source_ids s - set skipIds - {cur}) s t" by fastforce
  with update_sources_cache [OF assms, of objId r v skipIds _ t] show ?thesis
    by (auto simp: updateRelatedSelectsOptions_def)
qed

lemma dismissed_simps [simp]:
  "pg_boxes (dismissed c s) = pg_boxes s" "pg_inputs (dismissed c s) = pg_inputs s"
  "pg_links (dismissed c s) = pg_links s" "pg_single (dismissed c s) = pg_single s"
  "pg_shown (dismissed c s) = pg_shown s"
  "\<not> live c (pg_windows (dismissed c s))"
  by (simp_all add: dismissed_def forget_window_def)

text \<open>
  C9: adding an object from a two-pane field.  The new object joins the chosen ones at their end, in
  the cache and on the page; what is available does not change, no other list's cache does,
  and the popup is closed.
\<close>

theorem added_to_selector:
  assumes "window_name c s = addPopupIndex (popup_index s) f"
    and "dom (pg_boxes s) f = None" and "pg_inputs s f = None" and "pg_selectbox s"
    and "dom (pg_boxes s) (f @ ''_to'') = Some ps" and "cache (pg_boxes s) (f @ ''_to'') = Some ns"
    and "pr_action r \<notin> {''change'', ''delete''}"
  shows "\<exists>t. report kept c r s = Some t
    \<and> (let ms = ns @ [\<lparr>nvalue = pr_value r, ntext = pr_obj r, displayed = True\<rparr>] in
         cache (pg_boxes t) = (cache (pg_boxes s))(f @ ''_to'' \<mapsto> ms)
         \<and> dom (pg_boxes t) (f @ ''_to'') = Some (shown_options ms))
    \<and> dom (pg_boxes t) (f @ ''_from'') = dom (pg_boxes s) (f @ ''_from'')
    \<and> \<not> live c (pg_windows t)"
proof -
  let ?to = "f @ ''_to''" and ?from = "f @ ''_from''"
  let ?ms = "ns @ [\<lparr>nvalue = pr_value r, ntext = pr_obj r, displayed = True\<rparr>]"
  let ?b = "(pg_boxes s)\<lparr>cache := (cache (pg_boxes s))(?to \<mapsto> ?ms),
    dom := (dom (pg_boxes s))(?to \<mapsto> shown_options ?ms)\<rparr>"
  have add: "add_and_redisplay ?to (new_option (pr_obj r) (pr_value r)) (pg_boxes s) = Some ?b"
    using assms(5,6) by (simp add: add_and_redisplay_def add_to_cache_def redisplay_def node_of_def new_option_def)
  have "cache (pg_boxes (s\<lparr>pg_boxes := ?b\<rparr>)) ?to = Some ?ms" by simp
  from update_related_cached [OF this]
  obtain t where t: "updateRelatedSelectsOptions (Some ?to) c None (pr_obj r) (pr_value r) [?from]
      (s\<lparr>pg_boxes := ?b\<rparr>) = Some t"
    and same: "same_but_sources (source_ids (s\<lparr>pg_boxes := ?b\<rparr>) - set [?from] - {?to})
      (s\<lparr>pg_boxes := ?b\<rparr>) t"
    and cache: "cache (pg_boxes t) = (cache (pg_boxes s))(?to \<mapsto> ?ms)"
    by fastforce
  have "report kept c r s = Some (dismissed c t)"
    using assms(2,3,4,7) add t
    by (simp add: report_def dismissAddRelatedObjectPopup_def Let_def assms(1) remove_added)
  moreover have "dom (pg_boxes t) ?to = Some (shown_options ?ms)"
    "dom (pg_boxes t) ?from = dom (pg_boxes s) ?from"
    using same_list(1) [OF same, of ?to] same_list(1) [OF same, of ?from] by simp_all
  ultimately show ?thesis using cache by (simp add: Let_def)
qed

text \<open>
  Adding an object from a list with one choice.  The new object becomes the value of the list,
  every link beside the list leads to it, and the popup is closed; this needs no cache of
  the list itself, but one of every other list of a model, where \<open>SelectBox.js\<close> is loaded.
\<close>

theorem added_to_list:
  assumes "window_name c s = addPopupIndex (popup_index s) i"
    and "dom (pg_boxes s) i = Some ps" and "pg_links s i = Some ls" and "\<not> kept i"
    and "pg_single s i" and "pr_value r \<noteq> []" and "pr_action r \<notin> {''change'', ''delete''}"
    and "pg_selectbox s \<longrightarrow> (\<forall>j \<in> source_ids s - {i}. cache (pg_boxes s) j \<noteq> None)"
  shows "\<exists>t qs. report kept c r s = Some t \<and> dom (pg_boxes t) i = Some qs
    \<and> map ochoice qs = map ochoice ps @ [(pr_value r, pr_obj r)]
    \<and> filter selected qs = [last qs]
    \<and> pg_links t i = Some (map (\<lambda>l. l\<lparr>rl_href :=
          Some (replace_first (rl_template l) ''__fk__'' (pr_value r))\<rparr>) ls)
    \<and> \<not> live c (pg_windows t)"
proof -
  let ?p = "(new_option (pr_obj r) (pr_value r))\<lparr>selected := True\<rparr>"
  define qs where "qs = append_option True ?p ps"
  have qs: "qs = map (\<lambda>q. q\<lparr>selected := False\<rparr>) ps @ [?p]" by (simp add: qs_def append_option_def)
  then have sel: "filter selected qs = [?p]" by (simp add: filter_empty_conv)
  let ?s1 = "set_options i qs s"
  have "can_take (Some i) ?s1 j" if "j \<in> source_ids ?s1" "Some i \<noteq> Some j" "j \<notin> set []" for j
    using assms(8) that by (auto simp: can_take_def source_ids_def)
  from update_related_ok [OF this]
  obtain u where u: "updateRelatedSelectsOptions (Some i) c None (pr_obj r) (pr_value r) [] ?s1 = Some u"
    and same: "same_but_sources (source_ids ?s1 - set [] - set_option (Some i)) ?s1 u" by blast
  have d: "dom (pg_boxes u) i = Some qs" using same_list(1) [OF same, of i] by simp
  have l: "pg_links u i = Some ls" "pg_single u i" using same_fields [OF same] assms(3,5) by simp_all
  let ?t = "dismissed c (list_changed kept i u)"
  have "report kept c r s = Some ?t"
    using assms(2,5,7) u
    by (simp add: report_def dismissAddRelatedObjectPopup_def Let_def assms(1) remove_added qs_def)
  moreover have "list_value True qs = Some (pr_value r)"
    using assms(6) by (simp add: list_value_def sel new_option_def)
  then have "pg_links ?t i = Some (map (\<lambda>l. l\<lparr>rl_href :=
          Some (replace_first (rl_template l) ''__fk__'' (pr_value r))\<rparr>) ls)"
    using d l assms(4)
    by (simp add: list_changed_def updateRelatedObjectLinks_def update_link_def)
  moreover have "map ochoice qs = map ochoice ps @ [(pr_value r, pr_obj r)]"
    by (simp add: qs new_option_def)
  moreover have "filter selected qs = [last qs]" by (simp add: sel) (simp add: qs)
  ultimately show ?thesis using d by (intro exI [of _ ?t] exI [of _ qs]) simp
qed

text \<open>
  Without such a cache the function throws, after the option is on the page, and the popup stays
  open: what it tests is the cache of the current list, and what it uses is that of the other.
\<close>

lemma plain_list_throws:
  assumes "pg_selectbox s" and "cache (pg_boxes s) cur = None" and "cache (pg_boxes s) i = None"
    and "dom (pg_boxes s) i = Some ps" and "cur \<noteq> i" and "\<not> list_ex (\<lambda>p. ovalue p = id_text objId) ps"
  shows "update_source (Some cur) objId r v [] i s = None"
  using assms by (simp add: update_source_def Let_def add_and_redisplay_def add_to_cache_def)

subsection \<open>Changes and deletions reach the page and not the cache\<close>

lemma options_changed_simps [simp]:
  "pg_windows (options_changed kept i s) = pg_windows s" "pg_self (options_changed kept i s) = pg_self s"
  "pg_boxes (options_changed kept i s) = pg_boxes s" "pg_sources (options_changed kept i s) = pg_sources s"
  by (simp_all add: options_changed_def split: option.split list.split)

lemma show_text_simps [simp]:
  "pg_boxes (show_text txt i s) = pg_boxes s" "pg_windows (show_text txt i s) = pg_windows s"
  by (simp_all add: show_text_def split: option.split)

text \<open>The lists of a two-pane field.\<close>

definition two_pane :: "page \<Rightarrow> string \<Rightarrow> opt list \<Rightarrow> opt list \<Rightarrow> bool" where
  "two_pane s f ps qs \<longleftrightarrow>
     dom (pg_boxes s) f = None \<and> pg_inputs s f = None
     \<and> dom (pg_boxes s) (f @ ''_from'') = Some ps \<and> dom (pg_boxes s) (f @ ''_to'') = Some qs
     \<and> \<not> pg_single s (f @ ''_from'') \<and> \<not> pg_single s (f @ ''_to'')"

lemma field_lists_two_pane:
  "two_pane s f ps qs \<Longrightarrow> field_lists f s = [f @ ''_from'', f @ ''_to'']"
  by (simp add: field_lists_def two_pane_def)

lemma change_two_pane:
  assumes "two_pane s f ps qs"
  shows "fold (change_options g) [f @ ''_from'', f @ ''_to''] s
    = set_options (f @ ''_to'') (g False qs) (set_options (f @ ''_from'') (g False ps) s)"
  using assms by (simp add: two_pane_def change_options_def)

text \<open>
  Changing an object of a two-pane field.  On the page its options take the new text and the
  new id and nothing else changes; no cache does, so the next time the list is drawn from its
  cache, it shows what it showed before the change.
\<close>

theorem changed_not_cached:
  assumes "window_name c s = addPopupIndex (popup_index s) f"
    and "\<not> starts_with (window_name c s) ''edit_''" and "two_pane s f ps qs"
    and "cache (pg_boxes s) (f @ ''_from'') = Some ns" and "f @ ''_to'' \<notin> source_ids s"
    and "pr_action r = ''change''"
  shows "\<exists>t. report kept c r s = Some t
    \<and> (let rn = map (\<lambda>p. if ovalue p = pr_value r
                         then p\<lparr>otext := pr_obj r, ovalue := pr_new_value r\<rparr> else p)
       in dom (pg_boxes t) (f @ ''_from'') = Some (rn ps)
          \<and> dom (pg_boxes t) (f @ ''_to'') = Some (rn qs))
    \<and> cache (pg_boxes t) = cache (pg_boxes s)
    \<and> map_option (\<lambda>b. dom b (f @ ''_from'')) (redisplay (f @ ''_from'') (pg_boxes t))
        = Some (Some (shown_options ns))
    \<and> \<not> live c (pg_windows t)"
proof -
  let ?from = "f @ ''_from''" and ?to = "f @ ''_to''"
  let ?g = "rename_options (pr_value r) (pr_obj r) (pr_new_value r)"
  define s1 where "s1 = set_options ?to (?g False qs) (set_options ?from (?g False ps) s)"
  define s2 where "s2 = fold (options_changed kept) [?from, ?to] s1"
  have b2: "pg_boxes s2 = pg_boxes s1" "source_ids s2 = source_ids s"
    by (simp_all add: s2_def s1_def source_ids_def)
  have "cache (pg_boxes s2) ?from = Some ns" using assms(4) by (simp add: b2 s1_def)
  from update_related_cached [OF this]
  obtain t where t: "updateRelatedSelectsOptions (Some ?from) c (Some (pr_value r)) (pr_obj r)
      (pr_new_value r) [] s2 = Some t"
    and same: "same_but_sources (source_ids s2 - set [] - {?from}) s2 t"
    and cache: "cache (pg_boxes t) = cache (pg_boxes s)"
    unfolding b2 s1_def by (metis set_options_simps(10))
  let ?t = "dismissed c (fold (show_text (pr_obj r)) [?from, ?to] t)"
  have "strip_prefix ''edit_'' (window_name c s) = window_name c s"
    using assms(2) by (simp add: strip_prefix_def)
  then have "report kept c r s = Some ?t"
    using t assms(6) change_two_pane [OF assms(3), of ?g]
    by (simp add: report_def dismissChangeRelatedObjectPopup_def Let_def assms(1) remove_added
        field_lists_two_pane [OF assms(3)] s2_def s1_def)
  moreover have "dom (pg_boxes t) ?from = Some (?g False ps)" "dom (pg_boxes t) ?to = Some (?g False qs)"
    using same_list(1) [OF same, of ?from] same_list(1) [OF same, of ?to] assms(5)
    by (simp_all add: b2 s1_def)
  ultimately show ?thesis
    using cache assms(4) by (simp add: Let_def rename_options_def rename_option_def redisplay_def)
qed

text \<open>
  Deleting an object of a two-pane field.  Its options leave the page and the others stay; the
  caches keep the object, so the next time the list is drawn from its cache, the option is
  back.
\<close>

theorem deleted_comes_back:
  assumes "window_name c s = addPopupIndex (popup_index s) f"
    and "\<not> starts_with (window_name c s) ''delete_''" and "two_pane s f ps qs"
    and "cache (pg_boxes s) (f @ ''_from'') = Some ns" and "pr_action r = ''delete''"
  shows "\<exists>t. report kept c r s = Some t
    \<and> dom (pg_boxes t) (f @ ''_from'') = Some (filter (\<lambda>p. ovalue p \<noteq> pr_value r) ps)
    \<and> dom (pg_boxes t) (f @ ''_to'') = Some (filter (\<lambda>p. ovalue p \<noteq> pr_value r) qs)
    \<and> map_option (\<lambda>b. dom b (f @ ''_from'')) (redisplay (f @ ''_from'') (pg_boxes t))
        = Some (Some (shown_options ns))
    \<and> \<not> live c (pg_windows t)"
proof -
  let ?from = "f @ ''_from''" and ?to = "f @ ''_to''"
  let ?s1 = "set_options ?to (remove_options (pr_value r) False qs)
    (set_options ?from (remove_options (pr_value r) False ps) s)"
  have rem: "remove_options v False xs = filter (\<lambda>p. ovalue p \<noteq> v) xs" for v xs
    by (auto simp: remove_options_def settle_def list_ex_iff intro!: filter_True [symmetric])
  have "strip_prefix ''delete_'' (window_name c s) = window_name c s"
    using assms(2) by (simp add: strip_prefix_def)
  then have "report kept c r s = Some (dismissed c (fold (options_changed kept) [?from, ?to] ?s1))"
    using assms(5) change_two_pane [OF assms(3), of "remove_options (pr_value r)"]
    by (simp add: report_def dismissDeleteRelatedObjectPopup_def Let_def assms(1) remove_added
        field_lists_two_pane [OF assms(3)])
  then show ?thesis using assms(4) by (simp add: rem redisplay_def)
qed

subsection \<open>Instances\<close>

text \<open>A page with a two-pane field of tags and a list of authors, and a popup opened for one of them.\<close>

definition sample_page :: "string \<Rightarrow> page" where
  "sample_page f =
     (let opts = (\<lambda>vs. map (\<lambda>v. new_option v v) vs)
      in \<lparr>pg_boxes = \<lparr>cache = [''id_tags_from'' \<mapsto> map node_of (opts [''1'', ''2'']), ''id_tags_to'' \<mapsto> []],
                     dom = [''id_tags_from'' \<mapsto> opts [''1'', ''2''], ''id_tags_to'' \<mapsto> [],
                            ''id_author'' \<mapsto> opts [''7'']]\<rparr>,
          pg_inputs = Map.empty, pg_single = (\<lambda>i. i = ''id_author''),
          pg_links = [''id_author'' \<mapsto> [\<lparr>rl_template = ''/author/__fk__/change/'', rl_href = None\<rparr>]],
          pg_sources = [(''tag'', ''id_tags_from'')], pg_shown = Map.empty, pg_selectbox = True,
          pg_windows = [main_window\<lparr>wn_related := [1]\<rparr>,
                        (new_window (addPopupIndex (Some 0) f))\<lparr>wn_ready := True\<rparr>],
          pg_self = 0\<rparr>)"

lemma sample_name: "window_name 1 (sample_page f) = addPopupIndex (popup_index (sample_page f)) f"
  by (simp add: sample_page_def window_name_def popup_index_def main_window_def new_window_def Let_def)

lemma sample_boxes:
  "dom (pg_boxes (sample_page f)) ''id_tags'' = None"
  "dom (pg_boxes (sample_page f)) ''id_tags_from'' = Some [new_option ''1'' ''1'', new_option ''2'' ''2'']"
  "dom (pg_boxes (sample_page f)) ''id_tags_to'' = Some []"
  "dom (pg_boxes (sample_page f)) ''id_author'' = Some [new_option ''7'' ''7'']"
  "cache (pg_boxes (sample_page f)) ''id_tags_from''
     = Some (map node_of [new_option ''1'' ''1'', new_option ''2'' ''2''])"
  "cache (pg_boxes (sample_page f)) ''id_tags_to'' = Some []"
  "pg_inputs (sample_page f) = Map.empty" "pg_selectbox (sample_page f)"
  "pg_single (sample_page f) i = (i = ''id_author'')" "source_ids (sample_page f) = {''id_tags_from''}"
  "pg_links (sample_page f) ''id_author''
     = Some [\<lparr>rl_template = ''/author/__fk__/change/'', rl_href = None\<rparr>]"
  by (simp_all add: sample_page_def Let_def source_ids_def)

lemma sample_two_pane:
  "two_pane (sample_page f) ''id_tags'' [new_option ''1'' ''1'', new_option ''2'' ''2''] []"
  by (simp add: two_pane_def sample_boxes)

lemma sample_not_prefixed:
  "\<not> starts_with (window_name 1 (sample_page ''id_tags'')) ''edit_''"
  "\<not> starts_with (window_name 1 (sample_page ''id_tags'')) ''delete_''"
  unfolding sample_name addPopupIndex_def by (simp_all add: starts_with_def)

theorem added_to_selector_witness:
  "\<exists>t. report (\<lambda>_. False) 1 \<lparr>pr_action = ''add'', pr_value = ''3'', pr_obj = ''red'', pr_new_value = []\<rparr>
         (sample_page ''id_tags'') = Some t
     \<and> map_option (map ochoice) (dom (pg_boxes t) ''id_tags_to'') = Some [(''3'', ''red'')]"
proof -
  let ?r = "\<lparr>pr_action = ''add'', pr_value = ''3'', pr_obj = ''red'', pr_new_value = []\<rparr>"
  from added_to_selector [of 1 _ "''id_tags''" _ _ ?r "\<lambda>_. False", OF sample_name sample_boxes(1)]
  show ?thesis
    by (fastforce simp: sample_boxes shown_options_def option_of_def Let_def)
qed

theorem added_to_list_witness:
  "\<exists>t. report (\<lambda>_. False) 1 \<lparr>pr_action = ''add'', pr_value = ''8'', pr_obj = ''Ann'', pr_new_value = []\<rparr>
         (sample_page ''id_author'') = Some t
     \<and> pg_links t ''id_author'' = Some [\<lparr>rl_template = ''/author/__fk__/change/'',
          rl_href = Some ''/author/8/change/''\<rparr>]"
proof -
  let ?r = "\<lparr>pr_action = ''add'', pr_value = ''8'', pr_obj = ''Ann'', pr_new_value = []\<rparr>"
  have "replace_first ''/author/__fk__/change/'' ''__fk__'' ''8'' = ''/author/8/change/''"
    by (simp add: starts_with_def)
  with added_to_list [of 1 "sample_page ''id_author''" "''id_author''" _ _ "\<lambda>_. False" ?r,
      OF sample_name sample_boxes(4,11)]
  show ?thesis by (auto simp: sample_boxes)
qed

theorem changed_not_cached_witness:
  "\<exists>t. report (\<lambda>_. False) 1 \<lparr>pr_action = ''change'', pr_value = ''2'', pr_obj = ''blue'', pr_new_value = ''2''\<rparr>
         (sample_page ''id_tags'') = Some t
     \<and> map_option (map otext) (dom (pg_boxes t) ''id_tags_from'') = Some [''1'', ''blue'']
     \<and> map_option (\<lambda>b. map_option (map otext) (dom b ''id_tags_from''))
         (redisplay ''id_tags_from'' (pg_boxes t)) = Some (Some [''1'', ''2''])"
proof -
  let ?r = "\<lparr>pr_action = ''change'', pr_value = ''2'', pr_obj = ''blue'', pr_new_value = ''2''\<rparr>"
  from changed_not_cached [of 1 _ "''id_tags''" _ _ _ ?r "\<lambda>_. False",
      OF sample_name sample_not_prefixed(1) sample_two_pane]
  show ?thesis
    by (fastforce simp: sample_boxes new_option_def shown_options_def option_of_def Let_def)
qed

theorem deleted_comes_back_witness:
  "\<exists>t. report (\<lambda>_. False) 1 \<lparr>pr_action = ''delete'', pr_value = ''2'', pr_obj = ''blue'', pr_new_value = []\<rparr>
         (sample_page ''id_tags'') = Some t
     \<and> map_option (map ovalue) (dom (pg_boxes t) ''id_tags_from'') = Some [''1'']
     \<and> map_option (\<lambda>b. map_option (map ovalue) (dom b ''id_tags_from''))
         (redisplay ''id_tags_from'' (pg_boxes t)) = Some (Some [''1'', ''2''])"
proof -
  let ?r = "\<lparr>pr_action = ''delete'', pr_value = ''2'', pr_obj = ''blue'', pr_new_value = []\<rparr>"
  from deleted_comes_back [of 1 _ "''id_tags''" _ _ _ ?r "\<lambda>_. False",
      OF sample_name sample_not_prefixed(2) sample_two_pane]
  show ?thesis
    by (fastforce simp: sample_boxes new_option_def shown_options_def option_of_def Let_def)
qed

end
