(* ===== verification/AdminPage.thy ===== *)
theory AdminPage
  imports JsPrelude
begin

text \<open>
  The parts of an admin page that keep something over a reload, under
  \<open>koded-cli/web/backend/staticfiles/admin/js/\<close>: the colour theme (\<open>theme.js\<close>), the sidebar and its quick
  filter (\<open>nav_sidebar.js\<close>), the filters of a change list (\<open>filters.js\<close>).  \<open>None\<close> is a key the storage does
  not have.
\<close>

subsection \<open>The theme\<close>

record theme =
  th_shown :: "string option"
  th_stored :: "string option"

definition modes :: "string list" where
  "modes = [''light'', ''dark'', ''auto'']"

definition setTheme :: "string \<Rightarrow> theme \<Rightarrow> theme" where
  "setTheme mode s =
     (let mode = (if mode \<noteq> ''light'' \<and> mode \<noteq> ''dark'' \<and> mode \<noteq> ''auto'' then ''auto'' else mode)
      in s\<lparr>th_shown := Some mode, th_stored := Some mode\<rparr>)"

text \<open>\<open>localStorage.getItem("theme") || d\<close>\<close>

definition stored_or :: "string \<Rightarrow> theme \<Rightarrow> string" where
  "stored_or d s = (case th_stored s of Some m \<Rightarrow> if m \<noteq> [] then m else d | None \<Rightarrow> d)"

definition cycleTheme :: "bool \<Rightarrow> theme \<Rightarrow> theme" where
  "cycleTheme prefersDark s =
     (let currentTheme = stored_or ''auto'' s in
      if prefersDark
      then (if currentTheme = ''auto'' then setTheme ''light'' s
            else if currentTheme = ''light'' then setTheme ''dark'' s
            else setTheme ''auto'' s)
      else (if currentTheme = ''auto'' then setTheme ''dark'' s
            else if currentTheme = ''dark'' then setTheme ''light'' s
            else setTheme ''auto'' s))"

definition initTheme :: "theme \<Rightarrow> theme" where
  "initTheme s = setTheme (stored_or ''auto'' s) s"

definition theme_ok :: "theme \<Rightarrow> bool" where
  "theme_ok s = (th_shown s = th_stored s \<and> (case th_shown s of Some m \<Rightarrow> m \<in> set modes | None \<Rightarrow> False))"

lemma setTheme_ok: "theme_ok (setTheme m s)"
  by (simp add: theme_ok_def setTheme_def modes_def Let_def)

lemma cycle_ok: "theme_ok (cycleTheme d s)"
  by (simp add: cycleTheme_def Let_def setTheme_ok)

interpretation theme: event_machine cycleTheme theme_ok
  by unfold_locales (rule cycle_ok)

lemma theme_ok_cases:
  assumes "theme_ok s"
  obtains "s = \<lparr>th_shown = Some ''light'', th_stored = Some ''light''\<rparr>"
    | "s = \<lparr>th_shown = Some ''dark'', th_stored = Some ''dark''\<rparr>"
    | "s = \<lparr>th_shown = Some ''auto'', th_stored = Some ''auto''\<rparr>"
  using assms by (cases s) (auto simp: theme_ok_def modes_def split: option.splits)

abbreviation both :: "string \<Rightarrow> theme" where
  "both m \<equiv> \<lparr>th_shown = Some m, th_stored = Some m\<rparr>"

lemma cycle_simps:
  "cycleTheme d (both ''light'') = both (if d then ''dark'' else ''auto'')"
  "cycleTheme d (both ''dark'') = both (if d then ''auto'' else ''light'')"
  "cycleTheme d (both ''auto'') = both (if d then ''light'' else ''dark'')"
  by (simp_all add: cycleTheme_def setTheme_def stored_or_def Let_def)

lemma cycle_reaches:
  assumes "theme_ok s" and "m \<in> set modes"
  shows "(\<exists>k \<le> 2. th_shown ((cycleTheme d ^^ k) s) = Some m) \<and> (cycleTheme d ^^ 3) s = s"
proof -
  have "m = ''light'' \<or> m = ''dark'' \<or> m = ''auto''" using assms(2) by (simp add: modes_def)
  moreover obtain x where s: "s = both x" and x: "x = ''light'' \<or> x = ''dark'' \<or> x = ''auto''"
    using assms(1) by (rule theme_ok_cases) blast+
  ultimately have "th_shown s = Some m \<or> th_shown (cycleTheme d s) = Some m
      \<or> th_shown (cycleTheme d (cycleTheme d s)) = Some m"
    by (elim disjE; cases d; simp add: cycle_simps)
  then have "\<exists>k \<le> 2. th_shown ((cycleTheme d ^^ k) s) = Some m"
  proof (elim disjE)
    assume "th_shown s = Some m"
    then show ?thesis by (intro exI [of _ 0]) simp
  next
    assume "th_shown (cycleTheme d s) = Some m"
    then show ?thesis by (intro exI [of _ 1]) simp
  next
    assume "th_shown (cycleTheme d (cycleTheme d s)) = Some m"
    then show ?thesis by (intro exI [of _ 2]) (simp add: numeral_2_eq_2)
  qed
  moreover have "cycleTheme d (cycleTheme d (cycleTheme d s)) = s"
    using x unfolding s by (elim disjE; cases d; simp add: cycle_simps)
  ultimately show ?thesis by (simp add: numeral_3_eq_3)
qed

text \<open>
  C37: every theme can be reached.  Whatever the storage held when the page was loaded and however
  often the button was clicked since, under whatever preferences of the system: the theme shown is
  one of the three and the one stored, every one of the three is shown after at most two more
  clicks, and three clicks bring back the same one.
\<close>

theorem theme_reachable:
  "\<forall>m \<in> {''light'', ''dark'', ''auto''}. \<forall>d.
     let s = fold cycleTheme ds (initTheme s0) in
       th_shown s = th_stored s
       \<and> (\<exists>k \<le> 2. th_shown ((cycleTheme d ^^ k) s) = Some m) \<and> (cycleTheme d ^^ 3) s = s"
proof -
  have "theme_ok (initTheme s0)" by (simp add: initTheme_def setTheme_ok)
  from theme.run_invar [OF this, of ds] have "theme_ok (fold cycleTheme ds (initTheme s0))" .
  then show ?thesis using cycle_reaches by (auto simp: Let_def theme_ok_def modes_def)
qed

theorem theme_reachable_witness:
  "\<exists>k \<le> 2. th_shown ((cycleTheme True ^^ k)
     (fold cycleTheme [True, False] (initTheme \<lparr>th_shown = None, th_stored = Some ''blue''\<rparr>))) = Some ''dark''"
  using theme_reachable [of "[True, False]" "\<lparr>th_shown = None, th_stored = Some ''blue''\<rparr>"]
  by (simp add: Let_def)

subsection \<open>The sidebar\<close>

record sidebar =
  sb_open :: string
  sb_stored :: "string option"
  sb_shifted :: bool
  sb_expanded :: string

definition init_sidebar :: "string option \<Rightarrow> sidebar" where
  "init_sidebar stored =
     (let navSidebarIsOpen = (case stored of None \<Rightarrow> ''true'' | Some v \<Rightarrow> v)
      in \<lparr>sb_open = navSidebarIsOpen, sb_stored = stored,
          sb_shifted = (navSidebarIsOpen = ''true''), sb_expanded = navSidebarIsOpen\<rparr>)"

definition toggle_sidebar :: "sidebar \<Rightarrow> sidebar" where
  "toggle_sidebar s =
     (let v = (if sb_open s = ''true'' then ''false'' else ''true'')
      in s\<lparr>sb_open := v, sb_stored := Some v, sb_shifted := \<not> sb_shifted s, sb_expanded := v\<rparr>)"

text \<open>The quick filter: the titles of the links, the display of their rows, and the field.\<close>

record quick_filter =
  qf_titles :: "string list"
  qf_hidden :: "bool list"
  qf_value :: string
  qf_no_results :: bool
  qf_stored :: "string option"

definition checkValue :: "string \<Rightarrow> quick_filter \<Rightarrow> quick_filter" where
  "checkValue key s =
     (let filterValue = (if qf_value s \<noteq> [] then toLowerCase (qf_value s) else qf_value s);
          s = (if key = ''Escape'' then s\<lparr>qf_value := []\<rparr> else s);
          filterValue = (if key = ''Escape'' then [] else filterValue);
          hits = map (\<lambda>t. str_includes (toLowerCase t) filterValue) (qf_titles s);
          matches = (filterValue \<noteq> [] \<and> True \<in> set hits)
      in s\<lparr>qf_hidden := (if filterValue \<noteq> [] then map Not hits else map (\<lambda>_. False) (qf_titles s)),
           qf_no_results := \<not> (filterValue = [] \<or> matches),
           qf_stored := Some filterValue\<rparr>)"

definition initSidebarQuickFilter :: "string list \<Rightarrow> string option \<Rightarrow> quick_filter" where
  "initSidebarQuickFilter titles stored =
     (let s = \<lparr>qf_titles = titles, qf_hidden = map (\<lambda>_. False) titles, qf_value = [],
               qf_no_results = False, qf_stored = stored\<rparr>
      in case stored of
           Some v \<Rightarrow> if v \<noteq> [] then checkValue [] (s\<lparr>qf_value := v\<rparr>) else s
         | None \<Rightarrow> s)"

text \<open>The text in the field changes, and with it a key may be released.\<close>

definition filter_input :: "string \<times> string \<Rightarrow> quick_filter \<Rightarrow> quick_filter" where
  "filter_input e s = checkValue (snd e) (s\<lparr>qf_value := fst e\<rparr>)"

lemma toLowerCase_Nil_iff [simp]: "toLowerCase s = [] \<longleftrightarrow> s = []"
  by (cases s) simp_all

text \<open>What the field's text makes of the list.\<close>

definition filtered :: "quick_filter \<Rightarrow> bool" where
  "filtered s =
     (qf_hidden s = map (\<lambda>t. \<not> str_includes (toLowerCase t) (toLowerCase (qf_value s))) (qf_titles s)
      \<and> qf_no_results s = (qf_value s \<noteq> [] \<and> False \<notin> set (qf_hidden s)))"

lemma checkValue_filtered:
  "filtered (checkValue key s) \<and> qf_titles (checkValue key s) = qf_titles s
    \<and> qf_stored (checkValue key s) = Some (toLowerCase (qf_value (checkValue key s)))"
  by (auto simp: checkValue_def filtered_def Let_def comp_def image_iff)

lemma init_filtered:
  "filtered (initSidebarQuickFilter ts v) \<and> qf_titles (initSidebarQuickFilter ts v) = ts"
  using checkValue_filtered [of "[]"]
  by (auto simp: initSidebarQuickFilter_def filtered_def Let_def split: option.split)

interpretation quick: event_machine filter_input "\<lambda>s. filtered s \<and> qf_titles s = ts" for ts
  by unfold_locales (simp add: filter_input_def checkValue_filtered)

text \<open>
  The quick filter.  Whatever is typed in it, a link is hidden exactly when its title, in any
  case, does not contain the text in the field; the mark for no results is there exactly when there
  is a text and every link is hidden; and after a reload the same links are hidden.
\<close>

theorem quick_filter_shows:
  assumes "s = fold filter_input (es @ [e]) (initSidebarQuickFilter titles v)"
  shows "qf_hidden s = map (\<lambda>t. \<not> str_includes (toLowerCase t) (toLowerCase (qf_value s))) titles
    \<and> qf_no_results s = (qf_value s \<noteq> [] \<and> False \<notin> set (qf_hidden s))
    \<and> qf_hidden (initSidebarQuickFilter titles (qf_stored s)) = qf_hidden s"
proof -
  define s0 where "s0 = fold filter_input es (initSidebarQuickFilter titles v)"
  have s: "s = checkValue (snd e) (s0\<lparr>qf_value := fst e\<rparr>)"
    using assms by (simp add: s0_def filter_input_def)
  have "filtered s0 \<and> qf_titles s0 = titles"
    unfolding s0_def by (rule quick.run_invar [OF init_filtered])
  then have f: "filtered s" "qf_titles s = titles" "qf_stored s = Some (toLowerCase (qf_value s))"
    using checkValue_filtered unfolding s by simp_all
  have "qf_value (initSidebarQuickFilter titles (qf_stored s)) = toLowerCase (qf_value s)"
    by (simp add: f(3) initSidebarQuickFilter_def checkValue_def Let_def)
  with init_filtered [of titles "qf_stored s"] f show ?thesis by (simp add: filtered_def)
qed

theorem quick_filter_shows_witness:
  "qf_hidden (initSidebarQuickFilter [''Users'', ''Groups'']
      (qf_stored (fold filter_input [(''US'', ''S'')] (initSidebarQuickFilter [''Users'', ''Groups''] None))))
    = qf_hidden (fold filter_input [(''US'', ''S'')] (initSidebarQuickFilter [''Users'', ''Groups''] None))"
  using quick_filter_shows [OF refl, of "[]" "(''US'', ''S'')" "[''Users'', ''Groups'']" None] by simp

lemma sidebar_restored:
  assumes "s = (toggle_sidebar ^^ Suc n) (init_sidebar v)"
  shows "init_sidebar (sb_stored s) = s"
proof -
  have "sb_shifted s = (sb_open s = ''true'') \<and> sb_expanded s = sb_open s"
    if "s = (toggle_sidebar ^^ n) (init_sidebar v)" for s n
    using that by (induction n arbitrary: s)
      (auto simp: init_sidebar_def toggle_sidebar_def Let_def)
  from this [OF assms] show ?thesis
    using assms by (simp add: init_sidebar_def toggle_sidebar_def Let_def)
qed

subsection \<open>The filters of a change list\<close>

text \<open>The \<open>details\<close> elements in their order; \<open>fl_state\<close> is the object kept in the storage, which
  JSON carries over as it is.\<close>

record detail =
  dt_title :: "string option"
  dt_open :: bool

record filters =
  fl_details :: "detail list"
  fl_state :: "bool obj"
  fl_stored :: "bool obj option"

text \<open>\<open>querySelector\<close> finds the first.\<close>

fun set_open :: "string \<Rightarrow> bool \<Rightarrow> detail list \<Rightarrow> detail list" where
  "set_open k v [] = []"
| "set_open k v (d # ds) =
     (if dt_title d = Some k then d\<lparr>dt_open := v\<rparr> # ds else d # set_open k v ds)"

definition init_filters :: "detail list \<Rightarrow> bool obj option \<Rightarrow> filters" where
  "init_filters ds stored =
     (let state = (case stored of None \<Rightarrow> [] | Some ob \<Rightarrow> ob)
      in \<lparr>fl_details = foldl (\<lambda>ds e. set_open (fst e) (snd e) ds) ds (own_entries state),
          fl_state = state, fl_stored = stored\<rparr>)"

text \<open>The title as the template string prints it.\<close>

definition title_key :: "detail \<Rightarrow> string" where
  "title_key d = (case dt_title d of None \<Rightarrow> ''undefined'' | Some t \<Rightarrow> t)"

definition toggle_filter :: "nat \<Rightarrow> filters \<Rightarrow> filters" where
  "toggle_filter i s =
     (if i < length (fl_details s)
      then (let d = (fl_details s ! i)\<lparr>dt_open := \<not> dt_open (fl_details s ! i)\<rparr>;
                state = obj_set (title_key d) (dt_open d) (fl_state s)
            in s\<lparr>fl_details := (fl_details s)[i := d], fl_state := state, fl_stored := Some state\<rparr>)
      else s)"

text \<open>What a state makes of the elements the server sent.\<close>

definition opened_by :: "bool obj \<Rightarrow> detail \<Rightarrow> detail" where
  "opened_by state d = d\<lparr>dt_open := (case map_of state (title_key d) of Some v \<Rightarrow> v | None \<Rightarrow> dt_open d)\<rparr>"

lemma opened_by_Nil: "opened_by [] d = d"
  by (cases d) (simp add: opened_by_def)

definition titled :: "detail list \<Rightarrow> bool" where
  "titled ds = (distinct (map title_key ds) \<and> (\<forall>d \<in> set ds. dt_title d \<noteq> None))"

lemma title_key_upd [simp]: "title_key (d\<lparr>dt_open := b\<rparr>) = title_key d"
  by (simp add: title_key_def)

lemma set_open_map:
  "titled ds \<Longrightarrow> set_open k v ds = map (\<lambda>d. if title_key d = k then d\<lparr>dt_open := v\<rparr> else d) ds"
proof (induction ds)
  case (Cons d ds)
  then have k: "dt_title d = Some k \<longleftrightarrow> title_key d = k" by (auto simp: titled_def title_key_def)
  have "map (\<lambda>d. if title_key d = k then d\<lparr>dt_open := v\<rparr> else d) ds = ds" if "title_key d = k"
  proof (rule map_idI)
    fix x assume "x \<in> set ds"
    then have "title_key x \<noteq> k" using Cons.prems that by (auto simp: titled_def) (metis imageI)
    then show "(if title_key x = k then x\<lparr>dt_open := v\<rparr> else x) = x" by simp
  qed
  with Cons k show ?case by (simp add: titled_def)
qed simp

lemma titled_map: "(\<And>d. title_key (f d) = title_key d \<and> dt_title (f d) = dt_title d) \<Longrightarrow>
    titled (map f ds) = titled ds"
  by (simp add: titled_def comp_def)

lemma foldl_open:
  assumes "titled ds" and "obj_wf es"
  shows "foldl (\<lambda>ds e. set_open (fst e) (snd e) ds) ds es = map (opened_by es) ds"
  using assms
proof (induction es arbitrary: ds)
  case Nil
  then show ?case by (simp add: opened_by_def)
next
  case (Cons e es)
  obtain k v where e: "e = (k, v)" by (cases e)
  let ?f = "\<lambda>d. if title_key d = k then d\<lparr>dt_open := v\<rparr> else d"
  have "titled (map ?f ds)" using Cons.prems(1) by (subst titled_map) auto
  moreover have "map_of es k = None"
    using Cons.prems(2) by (auto simp: e obj_wf_def map_of_eq_None_iff)
  then have "map (opened_by es) (map ?f ds) = map (opened_by (e # es)) ds"
    by (auto simp: opened_by_def e)
  moreover have "foldl (\<lambda>ds e. set_open (fst e) (snd e) ds) ds (e # es)
      = foldl (\<lambda>ds e. set_open (fst e) (snd e) ds) (map ?f ds) es"
    using set_open_map [OF Cons.prems(1)] by (simp only: e foldl.simps fst_conv snd_conv)
  ultimately show ?case
    using Cons.IH [of "map ?f ds"] Cons.prems(2) by (simp add: e obj_wf_def)
qed

definition filters_inv :: "detail list \<Rightarrow> filters \<Rightarrow> bool" where
  "filters_inv ds s =
     (fl_details s = map (opened_by (fl_state s)) ds \<and> obj_wf (fl_state s)
      \<and> (case fl_stored s of None \<Rightarrow> fl_state s = [] | Some ob \<Rightarrow> ob = fl_state s))"

lemma init_filters_inv:
  assumes "titled ds" and "case stored of None \<Rightarrow> True | Some ob \<Rightarrow> obj_wf ob"
  shows "filters_inv ds (init_filters ds stored)"
proof -
  have "obj_wf ob \<Longrightarrow> map (opened_by (own_entries ob)) ds = map (opened_by ob) ds" for ob
    by (simp add: opened_by_def map_of_own_entries)
  moreover have "map (opened_by []) ds = ds" by (intro map_idI opened_by_Nil)
  ultimately show ?thesis
    using assms by (auto simp: filters_inv_def init_filters_def foldl_open obj_wf_def [of "[]"]
        simp del: map_eq_conv split: option.splits)
qed

lemma toggle_filters_inv:
  assumes "titled ds" and "filters_inv ds s"
  shows "filters_inv ds (toggle_filter i s)"
proof (cases "i < length (fl_details s)")
  case True
  let ?d = "fl_details s ! i"
  let ?state = "obj_set (title_key ?d) (\<not> dt_open ?d) (fl_state s)"
  have len: "length (fl_details s) = length ds" and d: "?d = opened_by (fl_state s) (ds ! i)"
    using assms(2) True by (auto simp: filters_inv_def)
  have "(fl_details s)[i := ?d\<lparr>dt_open := \<not> dt_open ?d\<rparr>] = map (opened_by ?state) ds"
  proof (rule nth_equalityI)
    fix j assume "j < length ((fl_details s)[i := ?d\<lparr>dt_open := \<not> dt_open ?d\<rparr>])"
    then have j: "j < length ds" by (simp add: len)
    have key: "title_key ?d = title_key (ds ! i)" by (simp add: d opened_by_def)
    have "title_key (ds ! j) = title_key (ds ! i) \<longleftrightarrow> j = i"
      using assms(1) True j len by (auto simp: titled_def distinct_conv_nth)
    moreover have "fl_details s ! j = opened_by (fl_state s) (ds ! j)"
      using assms(2) j by (simp add: filters_inv_def)
    ultimately show "(fl_details s)[i := ?d\<lparr>dt_open := \<not> dt_open ?d\<rparr>] ! j = map (opened_by ?state) ds ! j"
      using True j len by (simp add: nth_list_update opened_by_def key)
  qed (simp add: len)
  with True assms(2) show ?thesis by (simp add: toggle_filter_def filters_inv_def Let_def)
qed (use assms in \<open>simp add: toggle_filter_def\<close>)

text \<open>
  The filters come back as they were left.  With filters of distinct titles, and whatever an
  earlier page stored, any number of openings and closings, and a page loaded again from the
  server: every filter is open or closed as it was.
\<close>

theorem filters_restored:
  assumes "titled ds" and "obj_wf ob" and "s = fold toggle_filter is (init_filters ds (Some ob))"
  shows "fl_details (init_filters ds (fl_stored s)) = fl_details s"
proof -
  have "filters_inv ds (fold toggle_filter is t)" if "filters_inv ds t" for t
    using that by (induction "is" arbitrary: t) (simp_all add: toggle_filters_inv assms(1))
  then have s: "filters_inv ds s"
    using assms init_filters_inv [of ds "Some ob"] by simp
  moreover have "filters_inv ds (init_filters ds (fl_stored s))"
    using s assms(1) by (intro init_filters_inv) (auto simp: filters_inv_def split: option.splits)
  moreover have "fl_state (init_filters ds (fl_stored s)) = fl_state s"
    using s by (auto simp: filters_inv_def init_filters_def Let_def split: option.splits)
  ultimately show ?thesis by (simp add: filters_inv_def)
qed

definition sample_details :: "detail list" where
  "sample_details = [\<lparr>dt_title = Some ''By role'', dt_open = True\<rparr>, \<lparr>dt_title = Some ''By date'', dt_open = True\<rparr>]"

theorem filters_restored_witness:
  "fl_details (init_filters sample_details
      (fl_stored (fold toggle_filter [1, 0, 1] (init_filters sample_details (Some [(''By role'', False)])))))
    = fl_details (fold toggle_filter [1, 0, 1] (init_filters sample_details (Some [(''By role'', False)])))"
proof (rule filters_restored [OF _ _ refl])
  show "titled sample_details" by (simp add: sample_details_def titled_def title_key_def)
qed (simp add: obj_wf_def)

end
