(* ===== verification/Spec2Isabelle.thy ===== *)
theory Spec2Isabelle
  imports Landing ShortcutBoxes AdminScripts ClientFetch BrowsableApi Actions RelatedObjects AdminPage
begin

text \<open>
  A verification development for the JavaScript of Koded Stack.

  \<^bold>\<open>The program.\<close>  The repository holds a web front end for a waiting list (React, under
  \<open>koded-cli/web/frontend/src/\<close>), the scripts its Django back end serves for the administration of the
  list (\<open>koded-cli/web/backend/staticfiles/admin/js/\<close>) and for the browsable interface of its API
  (\<open>koded-cli/web/backend/staticfiles/rest_framework/js/\<close>), and, in other languages, a command line
  tool, a database and a network stack.  This development is about the JavaScript.

  \<^bold>\<open>How code becomes definitions.\<close>  A function of the source is a definition of the same name where the
  library does not use the name already; a handler takes the state of its component, a record, and
  returns it updated; a \<open>throw\<close> is the left side of a sum, or \<open>None\<close> where a function has one error
  only; a loop is a recursive function whose termination is proved, so every function here is total.
  One recursion of the source need not end, \<open>dismissChildPopups\<close>: it takes the depth of the call stack,
  and the theorem about it says that the number of windows is depth enough.  What lies outside the source is a parameter: the network (\<open>fetchAPI\<close> and the
  transport of the API client take the reply as an argument or a function), the translation catalogue
  (\<open>gettext\<close>, \<open>ngettext\<close>, \<open>interpolate\<close>), \<open>XRegExp\<close>, the time of day, and what the user does, an
  event.  Strings are lists of code units below 256; the library functions are exact on them, with the
  exception noted at \<open>toUpperCase\<close>.  Slugs, made from letters beyond that range, have code units of
  their own.  Numbers are unbounded integers: the program counts, indexes and computes days, and no
  number in it comes near \<open>2 ^ 53\<close> but one a user types into a form of the API documentation, whose value
  from there on is a parameter (\<open>unsafe_number\<close>).

  \<^bold>\<open>The theories.\<close>
  \<^item> \<open>JsPrelude\<close>: strings, decimal numbers, objects as association lists in the order of their
    properties, and the interfaces of components driven by events (\<open>event_machine\<close>, its extension
    \<open>reversible_machine\<close> and \<open>conserving_machine\<close> for handlers that may throw).  \<open>JsUri\<close>: percent-encoding.
    \<open>JsValue\<close>: JSON values, \<open>JSON.stringify\<close>, errors.  \<open>JsDate\<close>: dates by the language's algorithms.
    \<open>JsView\<close>: what a component renders.
  \<^item> \<open>WaitlistApi\<close> (\<open>services/api.js\<close>), \<open>WaitlistForm\<close> (\<open>components/WaitlistForm.jsx\<close>) and \<open>WaitlistApp\<close>
    (\<open>App.jsx\<close>, \<open>components/Modal.jsx\<close>): the waiting list.  The page is a step relation over the user's
    events and the replies to the requests in flight, in any order; its lemmas show an invariant of
    every reachable state and what each reply leaves behind.  \<open>Landing\<close> (\<open>Navbar.jsx\<close>, \<open>Hero.jsx\<close>,
    \<open>Features.jsx\<close>, \<open>Footer.jsx\<close>) is the whole page around the form, and what can be used on it when.
  \<^item> \<open>SelectBox\<close> (\<open>SelectBox.js\<close>) and \<open>SelectFilter\<close> (\<open>SelectFilter2.js\<close>): the cache of choices and the
    two-pane selector over it.  The loops over the cache are shown to do what plain list functions do;
    the selector is a \<open>conserving_machine\<close>: no handler throws, no choice is lost or doubled.
    \<open>SelectorBuild\<close> is the construction of the selector on the page, a tree of elements (\<open>Dom\<close>), which
    leaves every element the handlers look up there once.
  \<^item> \<open>AdminCore\<close> (\<open>core.js\<close>) and \<open>Calendar\<close> (\<open>calendar.js\<close>): dates printed and read, and the calendar of
    the date picker, whose table is compared with the Gregorian calendar of \<open>JsDate\<close>.
    \<open>DateShortcuts\<close> (\<open>DateTimeShortcuts.js\<close>): the clocks and calendars beside the fields, an
    \<open>event_machine\<close> over both, in a time zone that is a parameter.  \<open>ShortcutBoxes\<close> builds their elements
    in the tree of \<open>Dom\<close> and shows that clicks on them are the events of that machine.
  \<^item> \<open>Actions\<close> (\<open>actions.js\<close>): the action bar of a change list, an \<open>event_machine\<close> that computes
    from any events what an abstract selection of rows does.
  \<^item> \<open>Inlines\<close> and \<open>InlineWidgets\<close> (\<open>inlines.js\<close>): the forms of a formset, their numbering and their
    limits; the fields, shortcuts and selectors started in an added form, over \<open>Slug\<close>,
    \<open>DateShortcuts\<close> and \<open>SelectorBuild\<close>.
  \<^item> \<open>Popups\<close> and \<open>RelatedObjects\<close> (\<open>RelatedObjectLookups.js\<close>, \<open>popup_response.js\<close>): the browser's
    windows, the names that carry their depth, and what a popup reports to the page that opened it,
    over the lists and caches of \<open>SelectBox\<close>.
  \<^item> \<open>Slug\<close> (\<open>urlify.js\<close>, \<open>prepopulate.js\<close>): transliteration, slugs, and fields kept in step with others.
  \<^item> \<open>AdminPage\<close> (\<open>theme.js\<close>, \<open>nav_sidebar.js\<close>, \<open>filters.js\<close>): what a page keeps over a reload.
    \<open>AdminScripts\<close> (\<open>cancel.js\<close>, \<open>change_form.js\<close>, \<open>unusable_password_field.js\<close>, \<open>prepopulate_init.js\<close>,
    \<open>autocomplete.js\<close>): the small scripts of a form's page, the one for passwords compared with the style
    sheet it stands in for.
  \<^item> \<open>UrlParse\<close>, \<open>UrlTemplate\<close>, \<open>CoreJson\<close> and \<open>HttpClient\<close>: the API client, \<open>coreapi-0.1.1.js\<close>, by its
    modules: 17 to 20 parse and print URLs, 21 expands URI templates, 5 to 11 and 15 decode documents and
    find links in them, 1 to 5 and 13 authenticate, build and send requests.  The three authentication
    schemes share the interface \<open>authenticator\<close>, on which the lemma that a request stays as it was
    built rests.  \<open>Fetch\<close> holds modules 16 and 22, the replacement of \<open>fetch\<close> in browsers without it:
    headers, bodies that are read once, requests and responses over a parameter for \<open>XMLHttpRequest\<close>.
    \<open>ClientFetch\<close> puts the client over it: from the authentication entered to the headers of the call, and
    from the call's answer to the decoded document.
    \<open>ApiExplorer\<close> (\<open>docs/js/api.js\<close>) is the interactive documentation over this client: the
    typed parameters of a form, the authentication in force, what a reply leaves on the page, and which
    errors the client throws out of the handler before it has a promise (\<open>action_throws\<close>).
  \<^item> \<open>BrowsableApi\<close> (\<open>csrf.js\<close>, \<open>ajax-form.js\<close>, \<open>load-ajax-form.js\<close>, \<open>default.js\<close>): the token that goes with a request, judged
    against what a browser makes of its address (\<open>browser_target\<close>, with the browser's host parser as a
    parameter), forms sent by script, and the tab kept over a reload.

  \<^bold>\<open>What the lemmas show.\<close>  Invariants of every reachable state, by rule induction or through the event
  interfaces; the result of each operation on every branch, errors included; round trips (query strings,
  URLs, dates, cookies, stored settings); that what a user or a server puts into a URL, a query or a body
  stays in its place; and the agreement of the code's algorithms with reference definitions (the
  Gregorian calendar, the abstract selection, the plain list functions).  Each property stands after a
  text that says it in words; those with hypotheses are followed by an instance.

  \<^bold>\<open>Where the code does not do what it means to.\<close>  The lemmas \<open>button_stale\<close>, \<open>small_year_misplaced\<close>,
  \<open>unescape_any_key\<close>, \<open>literal_left_raw\<close>, \<open>capital_lost\<close>, \<open>deleted_comes_back\<close>, \<open>plain_list_throws\<close>,
  \<open>self_opened\<close>, \<open>buttons_per_form\<close>, \<open>help_left_below\<close>, \<open>boxes_accumulate\<close>, \<open>taken_for_relative\<close>, \<open>dots_leave_segment\<close>, \<open>answer_lost\<close>, \<open>clone_uses_empty\<close>,
  \<open>untyped_answer_is_text\<close>, \<open>none_checked_differs\<close> and \<open>documentation_missing\<close> and the statements about the outcome of a submission, \<open>delete_value\<close>, \<open>buildRequest\<close> and
  the changes a popup reports and a required field left empty record it: a button that stays enabled over an empty
  pane, months of years before 100 on the wrong weekdays, an unescaping that shortens other keys, a
  literal left unencoded, a capital letter made small, a form emptied by a failed submission, a
  deletion of an absent value that removes the first one, a query in a link's address that is
  never sent, changes and deletions that the cache of a two-pane field undoes, a test of the wrong
  list's cache, a page that lists its own window among its popups, errors of the API client that are
  thrown out of the handler and leave a form waiting, buttons out of step with the display, a help text that is skipped, boxes
  that are never removed, a token sent to another host whose address is taken for a relative one, a path parameter of two dots that
  takes a segment away, a promise
  that never settles, a copy that uses its original up, an answer without a type that is read as plain text, a warning the
  style sheet would show, and links to a place that is not on the page.

  \<^bold>\<open>Not modelled.\<close>
  \<^item> Layout: class names, styles and positions, unless code reads them again, and the entry point \<open>main.jsx\<close>.
  \<^item> Calls of libraries that leave no state in this code: highlighting, tooltips, the widget of the
    autocompletion, and \<open>jquery.init.js\<close>, which renames jQuery.
  \<^item> The module loader of \<open>coreapi-0.1.1.js\<close>, its request and response callbacks, and bodies that are
    views of buffers.  \<open>XMLHttpRequest\<close> and a browser's own \<open>fetch\<close> are parameters.
  \<^item> What every object inherits: the keys \<open>__proto__\<close> and \<open>constructor\<close> of JSON data, headers and
    parameters.  The address of the page that jQuery puts in place of an empty one.
  \<^item> Minified libraries (jQuery, Bootstrap, highlighters), configuration files, and the Go, Rust and
    Python parts of the repository.
\<close>

end
